(* ===== verification/Torinet_Prelude.thy ===== *)
theory Torinet_Prelude
  imports Main "HOL-Library.Word"
begin

text \<open>
  Shared vocabulary of the development: the ways a C++ operation can go wrong, the result
  type that carries them, bytes and little-endian images of machine integers, C strings,
  decimal printing, and the lemmas on them that the component theories share.
\<close>

unbundle bit_operations_syntax

named_theorems res_simps \<open>evaluation of result-returning operations\<close>
named_theorems img_simps \<open>sizes and projections of memory images\<close>

subsection \<open>Failures of C++ operations\<close>

text \<open>
  Undefined behaviour and exceptions that leave a handler are values: once one of them has
  happened nothing is known about the program state, so an operation returns either the
  failure or the new state. \<open>BufferOverflow\<close> is a write and \<open>OverRead\<close> a read past an
  object, \<open>EmptyContainer\<close> a \<open>front()\<close> or \<open>pop_front()\<close> of an empty deque, \<open>OutOfRange\<close> an
  unchecked index, \<open>NullDeref\<close> a dereferenced null pointer, \<open>BadFunctionCall\<close> the call of an
  empty \<open>std::function\<close>, \<open>SystemError\<close> a \<open>boost::system::system_error\<close> exception,
  \<open>SignedOverflow\<close> an overflow of \<open>int\<close> arithmetic, \<open>MissingReturn\<close> the end of a function that should have
  returned a value and \<open>UseAfterFree\<close> the use of an object that was freed.
\<close>

datatype fault = BufferOverflow | OverRead | EmptyContainer | OutOfRange
  | NullDeref | BadFunctionCall | SystemError | SignedOverflow | MissingReturn | UseAfterFree

type_synonym 'a res = "fault + 'a"
type_synonym byte = "8 word"
type_synonym bytes = "byte list"
type_synonym addr = nat
type_synonym endpoint = "string \<times> 16 word"

definition bind_res :: "'a res \<Rightarrow> ('a \<Rightarrow> 'b res) \<Rightarrow> 'b res" where
  "bind_res r f = (case r of Inl e \<Rightarrow> Inl e | Inr x \<Rightarrow> f x)"

lemma bind_res_Inl [simp, res_simps]: "bind_res (Inl e) f = Inl e"
  by (simp add: bind_res_def)

lemma bind_res_Inr [simp, res_simps]: "bind_res (Inr x) f = f x"
  by (simp add: bind_res_def)

lemma bind_res_eq_Inr:
  "bind_res r f = Inr y \<longleftrightarrow> (\<exists>x. r = Inr x \<and> f x = Inr y)"
  by (cases r) auto

lemma bind_res_eq_Inl:
  "bind_res r f = Inl e \<longleftrightarrow> r = Inl e \<or> (\<exists>x. r = Inr x \<and> f x = Inl e)"
  by (cases r) auto

lemma bind_res_assoc: "bind_res (bind_res r f) g = bind_res r (\<lambda>x. bind_res (f x) g)"
  by (cases r) auto

text \<open>A loop that applies a fallible body to every element, stopping at the first failure.\<close>

fun fold_res :: "('x \<Rightarrow> 'a \<Rightarrow> 'a res) \<Rightarrow> 'x list \<Rightarrow> 'a \<Rightarrow> 'a res" where
  "fold_res f [] a = Inr a"
| "fold_res f (x # xs) a = bind_res (f x a) (fold_res f xs)"

lemma fold_res_append:
  "fold_res f (xs @ ys) a = bind_res (fold_res f xs a) (fold_res f ys)"
proof (induction xs arbitrary: a)
  case Nil
  then show ?case by simp
next
  case (Cons x xs)
  then show ?case by (cases "f x a") auto
qed

lemma fold_res_invariant:
  assumes "\<And>x a b. x \<in> set xs \<Longrightarrow> P a \<Longrightarrow> f x a = Inr b \<Longrightarrow> P b"
    and "P a" and "fold_res f xs a = Inr b"
  shows "P b"
  using assms
proof (induction xs arbitrary: a)
  case Nil
  then show ?case by simp
next
  case (Cons x xs)
  from Cons.prems(3) obtain c where c: "f x a = Inr c" and r: "fold_res f xs c = Inr b"
    by (auto simp: bind_res_eq_Inr)
  have "P c" using Cons.prems(1)[of x a c] Cons.prems(2) c by simp
  moreover have "\<And>y a b. y \<in> set xs \<Longrightarrow> P a \<Longrightarrow> f y a = Inr b \<Longrightarrow> P b"
    using Cons.prems(1) by (meson list.set_intros(2))
  ultimately show ?case using Cons.IH r by blast
qed

subsection \<open>Simulation\<close>

text \<open>Runs of a specification that is silent about some events.\<close>

fun fold_opt :: "('x \<Rightarrow> 'a \<Rightarrow> 'a option) \<Rightarrow> 'x list \<Rightarrow> 'a \<Rightarrow> 'a option" where
  "fold_opt f [] a = Some a"
| "fold_opt f (x # xs) a = (case f x a of None \<Rightarrow> None | Some b \<Rightarrow> fold_opt f xs b)"

text \<open>
  An implementation with an invariant follows a specification through an abstraction: what the
  specification describes the implementation does, without a fault. Then so do whole runs, and what the
  described steps keep of the abstract state the runs keep.
\<close>

locale forward_simulation =
  fixes step :: "'e \<Rightarrow> 's \<Rightarrow> 's res"
    and spec :: "'e \<Rightarrow> 'a \<Rightarrow> 'a option"
    and abs :: "'s \<Rightarrow> 'a"
    and inv :: "'s \<Rightarrow> bool"
  assumes simulate: "inv s \<Longrightarrow> spec e (abs s) = Some a \<Longrightarrow> \<exists>s'. step e s = Inr s' \<and> abs s' = a \<and> inv s'"
begin

lemma run_simulates:
  "inv s \<Longrightarrow> fold_opt spec es (abs s) = Some a \<Longrightarrow> \<exists>s'. fold_res step es s = Inr s' \<and> abs s' = a \<and> inv s'"
proof (induction es arbitrary: s)
  case (Cons e es)
  obtain b where b: "spec e (abs s) = Some b" "fold_opt spec es b = Some a"
    using Cons.prems(2) by (auto split: option.splits)
  obtain s1 where "step e s = Inr s1" "abs s1 = b" "inv s1" using simulate[OF Cons.prems(1) b(1)] by blast
  then show ?case using Cons.IH[of s1] b(2) by simp
qed simp

lemma run_keeps:
  assumes "inv s" and "fold_opt spec es (abs s) = Some a" and "P (abs s)" and "\<forall>e \<in> set es. Q e"
    and "\<And>s e b. inv s \<Longrightarrow> spec e (abs s) = Some b \<Longrightarrow> P (abs s) \<Longrightarrow> Q e \<Longrightarrow> P b"
  shows "P a"
  using assms(1-4)
proof (induction es arbitrary: s)
  case (Cons e es)
  obtain b where b: "spec e (abs s) = Some b" "fold_opt spec es b = Some a"
    using Cons.prems(2) by (auto split: option.splits)
  obtain s1 where "abs s1 = b" "inv s1" using simulate[OF Cons.prems(1) b(1)] by blast
  moreover have "P b" using assms(5)[OF Cons.prems(1) b(1) Cons.prems(3)] Cons.prems(4) by simp
  ultimately show ?case using Cons.IH[of s1] b(2) Cons.prems(4) by simp
qed simp

end

subsection \<open>Byte images of machine integers\<close>

text \<open>
  The structures of the wire protocol are sent as they lie in memory on x86-64: integers in
  little-endian order.
\<close>

definition le16 :: "16 word \<Rightarrow> bytes" where
  "le16 w = [ucast w, ucast (drop_bit 8 w)]"

definition le32 :: "32 word \<Rightarrow> bytes" where
  "le32 w = [ucast w, ucast (drop_bit 8 w), ucast (drop_bit 16 w), ucast (drop_bit 24 w)]"

definition rd16 :: "byte \<Rightarrow> byte \<Rightarrow> 16 word" where
  "rd16 a b = ucast a OR push_bit 8 (ucast b)"

definition rd32 :: "byte \<Rightarrow> byte \<Rightarrow> byte \<Rightarrow> byte \<Rightarrow> 32 word" where
  "rd32 a b c d =
     ucast a OR push_bit 8 (ucast b) OR push_bit 16 (ucast c) OR push_bit 24 (ucast d)"

lemma length_le16 [simp, img_simps]: "length (le16 w) = 2"
  by (simp add: le16_def)

lemma length_le32 [simp, img_simps]: "length (le32 w) = 4"
  by (simp add: le32_def)

lemma rd16_le16 [simp]: "rd16 (ucast w) (ucast (drop_bit 8 w)) = w"
  unfolding rd16_def by (rule bit_word_eqI) (auto simp: bit_simps)

lemma rd32_le32 [simp]:
  "rd32 (ucast w) (ucast (drop_bit 8 w)) (ucast (drop_bit 16 w)) (ucast (drop_bit 24 w)) = w"
proof (rule bit_word_eqI)
  fix n
  assume "n < LENGTH(32)"
  then consider "n < 8" | "8 \<le> n" "n < 16" | "16 \<le> n" "n < 24" | "24 \<le> n" "n < 32"
    by fastforce
  then show "bit (rd32 (ucast w) (ucast (drop_bit 8 w)) (ucast (drop_bit 16 w))
      (ucast (drop_bit 24 w))) n = bit w n"
    unfolding rd32_def by cases (auto simp: bit_simps)
qed

lemma byte_bit_high: "8 \<le> n \<Longrightarrow> \<not> bit (b :: byte) n"
  using bit_imp_le_length[of b n] by auto

lemma le16_rd16 [simp]: "le16 (rd16 a b) = [a, b]"
  unfolding rd16_def le16_def
  by (auto intro!: bit_word_eqI simp: bit_simps byte_bit_high)

lemma le32_rd32 [simp]: "le32 (rd32 a b c d) = [a, b, c, d]"
  unfolding rd32_def le32_def
  by (auto intro!: bit_word_eqI simp: bit_simps byte_bit_high)

text \<open>Overwriting a buffer from an offset on, as \<open>memcpy\<close> and socket reads do.\<close>

definition overlay :: "nat \<Rightarrow> bytes \<Rightarrow> bytes \<Rightarrow> bytes" where
  "overlay off chunk buf = take off buf @ chunk @ drop (off + length chunk) buf"

lemma length_overlay [simp, img_simps]:
  "off + length chunk \<le> length buf \<Longrightarrow> length (overlay off chunk buf) = length buf"
  by (simp add: overlay_def)

lemma overlay_Nil [simp]: "overlay off [] buf = buf"
  by (simp add: overlay_def)

lemma overlay_0: "overlay 0 chunk buf = chunk @ drop (length chunk) buf"
  by (simp add: overlay_def)

subsection \<open>C strings\<close>

text \<open>
  \<open>strlen\<close> scans from the start of a buffer for the terminating zero byte; when the buffer holds
  none, the scan leaves the object.
\<close>

definition strlen :: "bytes \<Rightarrow> nat res" where
  "strlen buf = (if 0 \<in> set buf then Inr (length (takeWhile (\<lambda>b. b \<noteq> 0) buf)) else Inl OverRead)"

definition c_str :: "string \<Rightarrow> bytes" where
  "c_str s = map of_char s @ [0]"

text \<open>\<open>strcpy\<close> into an array of \<open>cap\<close> bytes copies up to and including the first zero byte.\<close>

definition strcpy :: "bytes \<Rightarrow> bytes \<Rightarrow> bytes res" where
  "strcpy dst src =
     (let s = takeWhile (\<lambda>b. b \<noteq> 0) src @ [0]
      in if length s \<le> length dst then Inr (overlay 0 s dst) else Inl BufferOverflow)"

lemma takeWhile_nul: "0 \<notin> set s \<Longrightarrow> takeWhile (\<lambda>b. b \<noteq> (0 :: byte)) (s @ 0 # rest) = s"
  by (induction s) auto

lemma strlen_terminated:
  assumes "0 \<notin> set s"
  shows "strlen (s @ 0 # rest) = Inr (length s)"
  using takeWhile_nul[OF assms] by (simp add: strlen_def)

lemma strlen_eq_Inr:
  "strlen buf = Inr n \<longleftrightarrow> 0 \<in> set buf \<and> n = length (takeWhile (\<lambda>b. b \<noteq> 0) buf)"
  by (auto simp: strlen_def)

lemma strlen_less: "strlen buf = Inr n \<Longrightarrow> n < length buf"
proof -
  assume "strlen buf = Inr n"
  then have z: "0 \<in> set buf" and n: "n = length (takeWhile (\<lambda>b. b \<noteq> 0) buf)"
    by (auto simp: strlen_eq_Inr)
  have "takeWhile (\<lambda>b. b \<noteq> 0) buf \<noteq> buf"
    using z by (metis set_takeWhileD)
  then show ?thesis
    unfolding n by (metis length_takeWhile_le le_neq_implies_less takeWhile_eq_take take_all_iff)
qed

subsection \<open>Decimal numbers\<close>

text \<open>\<open>std::to_string\<close> on \<open>int\<close>.\<close>

fun nat_digits :: "nat \<Rightarrow> nat list" where
  "nat_digits n = (if n < 10 then [n] else nat_digits (n div 10) @ [n mod 10])"

declare nat_digits.simps [simp del]

definition digit_char :: "nat \<Rightarrow> char" where
  "digit_char d = char_of (48 + d)"

definition to_string_nat :: "nat \<Rightarrow> string" where
  "to_string_nat n = map digit_char (nat_digits n)"

definition to_string :: "int \<Rightarrow> string" where
  "to_string i = (if i < 0 then CHR ''-'' # to_string_nat (nat (- i)) else to_string_nat (nat i))"

fun digits_value :: "nat \<Rightarrow> nat list \<Rightarrow> nat" where
  "digits_value acc [] = acc"
| "digits_value acc (d # ds) = digits_value (10 * acc + d) ds"

lemma digits_value_append:
  "digits_value acc (ds @ [d]) = 10 * digits_value acc ds + d"
  by (induction ds arbitrary: acc) auto

lemma digits_value_nat_digits: "digits_value 0 (nat_digits n) = n"
proof (induction n rule: nat_digits.induct)
  case (1 n)
  show ?case
  proof (cases "n < 10")
    case True
    then show ?thesis by (simp add: nat_digits.simps)
  next
    case False
    with 1 have "digits_value 0 (nat_digits (n div 10)) = n div 10" by simp
    with False show ?thesis
      by (simp add: nat_digits.simps[of n] digits_value_append)
  qed
qed

lemma nat_digits_less_10: "d \<in> set (nat_digits n) \<Longrightarrow> d < 10"
proof (induction n rule: nat_digits.induct)
  case (1 n)
  show ?case
  proof (cases "n < 10")
    case True
    with 1 show ?thesis by (simp add: nat_digits.simps[of n])
  next
    case False
    with 1 show ?thesis by (auto simp: nat_digits.simps[of n])
  qed
qed

lemma length_nat_digits: "n < 10 ^ Suc k \<Longrightarrow> length (nat_digits n) \<le> Suc k"
proof (induction k arbitrary: n)
  case 0
  then show ?case by (simp add: nat_digits.simps)
next
  case (Suc k)
  then have "n div 10 < 10 ^ Suc k" by (simp add: less_mult_imp_div_less)
  with Suc.IH show ?case by (simp add: nat_digits.simps[of n])
qed

lemma nat_digits_not_Nil [simp]: "nat_digits n \<noteq> []"
  by (simp add: nat_digits.simps[of n])

lemma inj_on_digit_char: "inj_on digit_char {..<10}"
proof (rule inj_onI)
  fix x y
  assume x: "x \<in> {..<10}" and y: "y \<in> {..<10}" and eq: "digit_char x = digit_char y"
  have "48 + x = of_char (digit_char x)" using x by (simp add: digit_char_def)
  also have "\<dots> = of_char (digit_char y)" by (simp only: eq)
  also have "\<dots> = 48 + y" using y by (simp add: digit_char_def)
  finally show "x = y" by simp
qed

lemma inj_to_string_nat: "inj to_string_nat"
proof (rule injI)
  fix m n
  assume "to_string_nat m = to_string_nat n"
  then have "nat_digits m = nat_digits n"
    unfolding to_string_nat_def
    by (rule map_inj_on) (rule inj_on_subset[OF inj_on_digit_char], auto dest: nat_digits_less_10)
  then show "m = n"
    by (metis digits_value_nat_digits)
qed

lemma digit_char_not_minus: "d < 10 \<Longrightarrow> digit_char d \<noteq> CHR ''-''"
proof
  assume "d < 10" and "digit_char d = CHR ''-''"
  then have "of_char (digit_char d) = (45 :: nat)" by simp
  with \<open>d < 10\<close> show False by (simp add: digit_char_def)
qed

lemma inj_to_string: "inj to_string"
proof (rule injI)
  fix i j
  assume eq: "to_string i = to_string j"
  have nm: "to_string_nat n \<noteq> CHR ''-'' # s" for n s
    unfolding to_string_nat_def
  proof (cases "nat_digits n")
    case (Cons d ds)
    then have "d < 10" by (intro nat_digits_less_10[of d n]) simp
    with Cons show "map digit_char (nat_digits n) \<noteq> CHR ''-'' # s"
      by (simp add: digit_char_not_minus)
  qed simp
  show "i = j"
    using eq nm nm[symmetric] by (auto simp: to_string_def inj_eq[OF inj_to_string_nat] split: if_splits)
qed

lemma to_string_no_space: "CHR '' '' \<notin> set (to_string i)"
proof -
  have digits: "CHR '' '' \<noteq> digit_char d" if "d < 10" for d
  proof
    assume "CHR '' '' = digit_char d"
    then have "of_char (CHR '' '') = (of_char (digit_char d) :: nat)" by simp
    then have "of_char (digit_char d) = (32 :: nat)" by simp
    with that show False by (simp add: digit_char_def)
  qed
  have "CHR '' '' \<notin> digit_char ` set (nat_digits n)" for n
    using digits nat_digits_less_10 by blast
  then show ?thesis by (simp add: to_string_def to_string_nat_def)
qed

text \<open>Two texts split at their first separator.\<close>

lemma append_sep_inject:
  "xs @ c # ys = us @ c # vs \<Longrightarrow> c \<notin> set xs \<Longrightarrow> c \<notin> set us \<Longrightarrow> xs = us \<and> ys = vs"
  by (induction xs arbitrary: us) (auto simp: Cons_eq_append_conv)

end
