(* ===== verification/Msg_Proto.thy ===== *)
theory Msg_Proto
  imports Torinet_Prelude
begin

text \<open>
  The wire protocol: \<open>include/MsgId.h\<close> and \<open>include/Msg.h\<close>. A message is an eight-byte header
  and a body of 1024 bytes, kept in one packed structure that is sent and received as it lies
  in memory. Header fields keep their widths: \<open>int8_t version\<close> and \<open>result\<close>,
  \<open>int16_t bodyLength\<close>, \<open>uint32_t msgId\<close>; the first three are read with \<open>sint\<close>.
\<close>

subsection \<open>Identifiers and response codes (MsgId.h)\<close>

datatype MsgId_t = NONE_MSG_ID | RQ_CREATE_USER | RS_CREATE_USER | NF_MESSAGE | MAX_MSG_ID

fun MsgId_val :: "MsgId_t \<Rightarrow> int" where
  "MsgId_val NONE_MSG_ID = 0"
| "MsgId_val RQ_CREATE_USER = 1"
| "MsgId_val RS_CREATE_USER = 2"
| "MsgId_val NF_MESSAGE = 3"
| "MsgId_val MAX_MSG_ID = 4"

datatype ResponseCode_t = NONE_CODE
  | CHARACTER | CREATE_USER_SUCCESS | LOGIN_SUCCESS | CREATE_PARTY_SUCCESS
  | JOIN_USER_SUCCESS | NOTIFY_MESSAGE
  | ERROR | CREATE_USER_FAIL | LOGIN_FAIL | CREATE_PARTY_FAIL | JOIN_USER_FAIL
  | INVALID_MSG | END_RES_CODE

fun ResponseCode_val :: "ResponseCode_t \<Rightarrow> int" where
  "ResponseCode_val NONE_CODE = 0"
| "ResponseCode_val CHARACTER = 0x1000"
| "ResponseCode_val CREATE_USER_SUCCESS = 0x1001"
| "ResponseCode_val LOGIN_SUCCESS = 0x1002"
| "ResponseCode_val CREATE_PARTY_SUCCESS = 0x1003"
| "ResponseCode_val JOIN_USER_SUCCESS = 0x1004"
| "ResponseCode_val NOTIFY_MESSAGE = 0x1005"
| "ResponseCode_val ERROR = 0x2000"
| "ResponseCode_val CREATE_USER_FAIL = 0x2001"
| "ResponseCode_val LOGIN_FAIL = 0x2002"
| "ResponseCode_val CREATE_PARTY_FAIL = 0x2003"
| "ResponseCode_val JOIN_USER_FAIL = 0x2004"
| "ResponseCode_val INVALID_MSG = 0x2005"
| "ResponseCode_val END_RES_CODE = 0xFFFF"

subsection \<open>The structures\<close>

abbreviation MAX_CP_MSG_DATA :: nat where "MAX_CP_MSG_DATA \<equiv> 1024"
abbreviation hdrLength :: nat where "hdrLength \<equiv> 8"
abbreviation msg_version :: int where "msg_version \<equiv> 1"

record cpMsgHeader_t =
  hdr_version :: "8 word"
  hdr_result :: "8 word"
  hdr_bodyLength :: "16 word"
  hdr_msgId :: "32 word"

record Msg =
  msg_hdr :: cpMsgHeader_t
  msg_body :: bytes

definition wf_msg :: "Msg \<Rightarrow> bool" where
  "wf_msg m \<longleftrightarrow> length (msg_body m) = MAX_CP_MSG_DATA"

text \<open>The memory image of the header and of the packed structure, and the way back.\<close>

definition header_bytes :: "cpMsgHeader_t \<Rightarrow> bytes" where
  "header_bytes h =
     [hdr_version h, hdr_result h] @ le16 (hdr_bodyLength h) @ le32 (hdr_msgId h)"

fun header_of_bytes :: "bytes \<Rightarrow> cpMsgHeader_t" where
  "header_of_bytes (v # r # l0 # l1 # i0 # i1 # i2 # i3 # rest) =
     \<lparr>hdr_version = v, hdr_result = r, hdr_bodyLength = rd16 l0 l1,
      hdr_msgId = rd32 i0 i1 i2 i3\<rparr>"
| "header_of_bytes _ = \<lparr>hdr_version = 0, hdr_result = 0, hdr_bodyLength = 0, hdr_msgId = 0\<rparr>"

definition msg_bytes :: "Msg \<Rightarrow> bytes" where
  "msg_bytes m = header_bytes (msg_hdr m) @ msg_body m"

definition msg_of_bytes :: "bytes \<Rightarrow> Msg" where
  "msg_of_bytes bs = \<lparr>msg_hdr = header_of_bytes (take hdrLength bs), msg_body = drop hdrLength bs\<rparr>"

subsection \<open>Operations of class Msg\<close>

text \<open>The constructor from a structure and the accessors; a pointer to a part is the part.\<close>

definition Msg_of :: "Msg \<Rightarrow> Msg" where
  "Msg_of msg = msg"

definition msg_head :: "Msg \<Rightarrow> cpMsgHeader_t" where
  "msg_head m = msg_hdr m"

definition msg_data :: "Msg \<Rightarrow> Msg" where
  "msg_data m = m"

definition msg_body_ptr :: "Msg \<Rightarrow> bytes" where
  "msg_body_ptr m = msg_body m"

text \<open>
  \<open>length()\<close> and \<open>bodyLength()\<close> are \<open>int\<close> computations on a 16-bit field and cannot overflow;
  \<open>msgId()\<close> converts the unsigned field to \<open>int\<close>.
\<close>

definition msg_bodyLength :: "Msg \<Rightarrow> int" where
  "msg_bodyLength m = sint (hdr_bodyLength (msg_hdr m))"

definition msg_length :: "Msg \<Rightarrow> int" where
  "msg_length m = int hdrLength + sint (hdr_bodyLength (msg_hdr m))"

definition msg_msgId :: "Msg \<Rightarrow> int" where
  "msg_msgId m = sint (hdr_msgId (msg_hdr m))"

text \<open>
  The \<open>int\<close> argument is narrowed to \<open>int16_t\<close> by the assignment, before the comparison.
\<close>

definition setBodyLength :: "int \<Rightarrow> Msg \<Rightarrow> Msg" where
  "setBodyLength len m =
     (let m1 = m\<lparr>msg_hdr := (msg_hdr m)\<lparr>hdr_bodyLength := word_of_int len\<rparr>\<rparr>
      in if sint (hdr_bodyLength (msg_hdr m1)) > int MAX_CP_MSG_DATA
         then m1\<lparr>msg_hdr := (msg_hdr m1)\<lparr>hdr_bodyLength := word_of_int (int MAX_CP_MSG_DATA)\<rparr>\<rparr>
         else m1)"

definition checkHeader :: "Msg \<Rightarrow> bool" where
  "checkHeader m =
     (if sint (hdr_version (msg_hdr m)) \<noteq> msg_version then False
      else if sint (hdr_bodyLength (msg_hdr m)) > int MAX_CP_MSG_DATA then False
      else if sint (hdr_result (msg_hdr m)) > ResponseCode_val ERROR then False
      else True)"

text \<open>
  \<open>memcpy\<close> of \<open>n\<close> bytes from \<open>data\<close> into the body. The destination has 1024 bytes and the source
  as many as the caller's object; \<open>n\<close> is the \<open>int\<close> \<open>dataLength\<close> converted to \<open>size_t\<close>, so a
  negative length is a huge one.
\<close>

definition memcpy_body :: "bytes \<Rightarrow> int \<Rightarrow> Msg \<Rightarrow> Msg res" where
  "memcpy_body data n m =
     (let sz = unat (word_of_int n :: 64 word)
      in if sz > MAX_CP_MSG_DATA then Inl BufferOverflow
         else if sz > length data then Inl OverRead
         else Inr (m\<lparr>msg_body := overlay 0 (take sz data) (msg_body m)\<rparr>))"

text \<open>
  \<open>encodeMsg\<close> with a response code; \<open>data = None\<close> is the null pointer. \<open>result\<close> and
  \<open>bodyLength\<close> are narrowed by their assignments, the \<open>memcpy\<close> uses the unnarrowed length.
\<close>

definition encodeMsg_result ::
  "MsgId_t \<Rightarrow> ResponseCode_t \<Rightarrow> bytes option \<Rightarrow> int \<Rightarrow> Msg \<Rightarrow> Msg res" where
  "encodeMsg_result msgId result data dataLength m =
     (let m1 = m\<lparr>msg_hdr := \<lparr>hdr_version = word_of_int msg_version,
                             hdr_result = word_of_int (ResponseCode_val result),
                             hdr_bodyLength = word_of_int dataLength,
                             hdr_msgId = word_of_int (MsgId_val msgId)\<rparr>\<rparr>
      in case data of
           None \<Rightarrow> Inr m1
         | Some d \<Rightarrow> (if sint (hdr_bodyLength (msg_hdr m1)) > 0
                      then memcpy_body d dataLength m1 else Inr m1))"

definition encodeMsg :: "MsgId_t \<Rightarrow> bytes option \<Rightarrow> int \<Rightarrow> Msg \<Rightarrow> Msg res" where
  "encodeMsg msgId data dataLength m =
     (let m1 = m\<lparr>msg_hdr := \<lparr>hdr_version = word_of_int msg_version,
                             hdr_result = word_of_int (ResponseCode_val NONE_CODE),
                             hdr_bodyLength = word_of_int dataLength,
                             hdr_msgId = word_of_int (MsgId_val msgId)\<rparr>\<rparr>
      in case data of
           None \<Rightarrow> Inr m1
         | Some d \<Rightarrow> (if sint (hdr_bodyLength (msg_hdr m1)) > 0
                      then memcpy_body d dataLength m1 else Inr m1))"

text \<open>
  The bytes an \<open>asio::buffer(&msg, msg.length())\<close> spans: the object has 1032 bytes, a length
  outside it reads past the object.
\<close>

definition wire_image :: "Msg \<Rightarrow> bytes res" where
  "wire_image m =
     (let n = unat (word_of_int (msg_length m) :: 64 word)
      in if n \<le> hdrLength + MAX_CP_MSG_DATA then Inr (take n (msg_bytes m)) else Inl OverRead)"

text \<open>Received bytes written into the message object at an offset.\<close>

definition deposit :: "nat \<Rightarrow> bytes \<Rightarrow> Msg \<Rightarrow> Msg res" where
  "deposit off chunk m =
     (if off + length chunk \<le> hdrLength + MAX_CP_MSG_DATA
      then Inr (msg_of_bytes (overlay off chunk (msg_bytes m))) else Inl BufferOverflow)"

subsection \<open>Message bodies\<close>

text \<open>
  The body structures are plain character arrays; a body pointer cast to one of them reads the
  same bytes. \<open>RsCreateUser\<close> holds one enumerator stored as a 32-bit integer.
\<close>

definition RqCreateUser :: bytes where "RqCreateUser = replicate 36 0"
definition NfMessage :: bytes where "NfMessage = replicate 256 0"
definition RsCreateUser :: bytes where "RsCreateUser = le32 0"

subsection \<open>Sizes and projections of the images\<close>

lemma length_header_bytes [simp, img_simps]: "length (header_bytes h) = 8"
  by (simp add: header_bytes_def)

lemma length_msg_bytes [img_simps]: "wf_msg m \<Longrightarrow> length (msg_bytes m) = 1032"
  by (simp add: msg_bytes_def wf_msg_def)

lemma header_of_header_bytes [simp]: "header_of_bytes (header_bytes h) = h"
  by (simp add: header_bytes_def le16_def le32_def)

lemma header_of_header_bytes_append [simp]: "header_of_bytes (header_bytes h @ rest) = h"
  by (simp add: header_bytes_def le16_def le32_def)

lemma header_bytes_of_bytes:
  assumes "length bs = 8"
  shows "header_bytes (header_of_bytes bs) = bs"
proof -
  from assms obtain v r l0 l1 i0 i1 i2 i3 where "bs = [v, r, l0, l1, i0, i1, i2, i3]"
    by (auto simp: numeral_eq_Suc length_Suc_conv)
  then show ?thesis by (simp add: header_bytes_def)
qed

lemma msg_of_msg_bytes [simp]: "msg_of_bytes (msg_bytes m) = m"
  by (simp add: msg_of_bytes_def msg_bytes_def)

lemma msg_bytes_of_bytes: "length bs = 1032 \<Longrightarrow> msg_bytes (msg_of_bytes bs) = bs"
  by (simp add: msg_of_bytes_def msg_bytes_def header_bytes_of_bytes)

lemma wf_msg_of_bytes: "length bs = 1032 \<Longrightarrow> wf_msg (msg_of_bytes bs)"
  by (simp add: msg_of_bytes_def wf_msg_def)

text \<open>What a deposit at the two offsets the sessions use does to the message.\<close>

lemma deposit_header:
  assumes "length chunk = 8"
  shows "deposit 0 chunk m = Inr (m\<lparr>msg_hdr := header_of_bytes chunk\<rparr>)"
  using assms by (simp add: deposit_def overlay_def msg_of_bytes_def msg_bytes_def)

lemma deposit_body:
  assumes "length chunk \<le> 1024"
  shows "deposit 8 chunk m = Inr (m\<lparr>msg_body := overlay 0 chunk (msg_body m)\<rparr>)"
  using assms
  by (cases m) (simp add: deposit_def overlay_def msg_of_bytes_def msg_bytes_def)

lemma deposit_wf: "wf_msg m \<Longrightarrow> deposit off chunk m = Inr m' \<Longrightarrow> wf_msg m'"
  by (auto simp: deposit_def img_simps intro!: wf_msg_of_bytes split: if_splits)

subsection \<open>Narrowing\<close>

lemma sint_int16: "- 32768 \<le> i \<Longrightarrow> i < 32768 \<Longrightarrow> sint (word_of_int i :: 16 word) = i"
  by (simp add: signed_of_int signed_take_bit_int_eq_self)

lemma unat_size_nonneg: "0 \<le> i \<Longrightarrow> i < 2 ^ 63 \<Longrightarrow> unat (word_of_int i :: 64 word) = nat i"
  by (simp add: unsigned_of_int take_bit_int_eq_self)

lemma unat_size_neg:
  assumes "- (2 ^ 63) \<le> i" and "i < 0"
  shows "unat (word_of_int i :: 64 word) = nat (2 ^ 64 + i)"
proof -
  have "take_bit 64 i = (2 ^ 64 + i) mod 2 ^ 64"
    by (simp add: take_bit_eq_mod)
  also have "\<dots> = 2 ^ 64 + i"
    using assms by (intro mod_pos_pos_trivial) auto
  finally show ?thesis by (simp add: unsigned_of_int)
qed

lemma sint16_range: "- 32768 \<le> sint (w :: 16 word)" "sint (w :: 16 word) < 32768"
  using sint_ge[of w] sint_lt[of w] by simp_all

lemma sint8_range: "- 128 \<le> sint (w :: 8 word)" "sint (w :: 8 word) < 128"
  using sint_ge[of w] sint_lt[of w] by simp_all

lemma sint8_eq_1: "sint (w :: 8 word) = 1 \<longleftrightarrow> w = 1"
  using signed_word_eqI[of w 1, where 'a = int] by auto

text \<open>The third test of \<open>checkHeader\<close> compares an \<open>int8_t\<close> with 0x2000 and never fires.\<close>

lemma checkHeader_iff:
  "checkHeader m \<longleftrightarrow> hdr_version (msg_hdr m) = 1 \<and> msg_bodyLength m \<le> 1024"
  using sint8_range(2)[of "hdr_result (msg_hdr m)"]
  by (auto simp: checkHeader_def msg_bodyLength_def sint8_eq_1)

lemma bodyLength_word_of_int:
  "0 \<le> n \<Longrightarrow> n \<le> 1024 \<Longrightarrow> sint (word_of_int n :: 16 word) = n"
  by (rule sint_int16) auto

lemma wire_image_valid:
  assumes "wf_msg m" and "0 \<le> msg_bodyLength m" and "msg_bodyLength m \<le> 1024"
  shows "wire_image m =
    Inr (header_bytes (msg_hdr m) @ take (nat (msg_bodyLength m)) (msg_body m))"
proof -
  have "unat (word_of_int (msg_length m) :: 64 word) = nat (msg_length m)"
    using assms by (intro unat_size_nonneg) (simp_all add: msg_length_def msg_bodyLength_def)
  also have "\<dots> = 8 + nat (msg_bodyLength m)"
    using assms by (simp add: msg_length_def msg_bodyLength_def nat_add_distrib)
  finally show ?thesis
    using assms by (simp add: wire_image_def msg_bytes_def nat_le_iff)
qed

lemma memcpy_body_ok:
  assumes "0 \<le> n" and "n \<le> 1024" and "nat n \<le> length d"
  shows "memcpy_body d n m = Inr (m\<lparr>msg_body := overlay 0 (take (nat n) d) (msg_body m)\<rparr>)"
  using assms by (simp add: memcpy_body_def unat_size_nonneg Let_def)

lemma memcpy_body_faults:
  assumes "- (2 ^ 31) \<le> n" and "n < 2 ^ 31"
  shows "(\<exists>e. memcpy_body d n m = Inl e) \<longleftrightarrow> n < 0 \<or> 1024 < n \<or> int (length d) < n"
proof (cases "n < 0")
  case True
  then have "unat (word_of_int n :: 64 word) = nat (2 ^ 64 + n)"
    using assms by (intro unat_size_neg) auto
  moreover have "1024 < nat (2 ^ 64 + n)" using assms by simp
  ultimately show ?thesis using True by (simp add: memcpy_body_def)
next
  case False
  then have "unat (word_of_int n :: 64 word) = nat n"
    using assms by (intro unat_size_nonneg) auto
  then show ?thesis using False by (auto simp: memcpy_body_def Let_def)
qed

text \<open>The two overloads of \<open>encodeMsg\<close> differ in the result code only.\<close>

lemma encodeMsg_as_result: "encodeMsg i d n m = encodeMsg_result i NONE_CODE d n m"
  by (simp add: encodeMsg_def encodeMsg_result_def)

lemma encodeMsg_eq:
  assumes "0 \<le> n" and "n \<le> 1024" and "nat n \<le> length d" and "wf_msg m"
  shows "encodeMsg i (Some d) n m = Inr
    \<lparr>msg_hdr = \<lparr>hdr_version = 1, hdr_result = 0, hdr_bodyLength = word_of_int n,
                 hdr_msgId = word_of_int (MsgId_val i)\<rparr>,
     msg_body = overlay 0 (take (nat n) d) (msg_body m)\<rparr>"
  using assms
  by (cases m) (auto simp: encodeMsg_def memcpy_body_ok bodyLength_word_of_int Let_def)

subsection \<open>Properties\<close>

text \<open>
  The header image is a bijection between headers and eight-byte strings: reading back what
  was laid out gives the same header, and every eight-byte string is the image of the header it
  is read as.
\<close>

theorem header_image_roundtrip:
  "header_of_bytes (header_bytes h) = h \<and>
   (length bs = 8 \<longrightarrow> header_bytes (header_of_bytes bs) = bs)"
  by (simp add: header_bytes_of_bytes)

theorem header_image_roundtrip_witness:
  "header_bytes (header_of_bytes [1, 0, 0, 1, 3, 0, 0, 0]) = [1, 0, 0, 1, 3, 0, 0, 0]"
  using header_image_roundtrip[of undefined "[1, 0, 0, 1, 3, 0, 0, 0]"] by simp

text \<open>
  \<open>checkHeader\<close> accepts a header exactly when its version is 1 and its signed body length is
  at most 1024: the comparison of the 8-bit result code with \<open>ERROR\<close> (0x2000) never rejects.
\<close>

theorem checkHeader_accepts:
  "checkHeader m \<longleftrightarrow> hdr_version (msg_hdr m) = 1 \<and> sint (hdr_bodyLength (msg_hdr m)) \<le> 1024"
  by (simp add: checkHeader_iff msg_bodyLength_def)

text \<open>
  A negative body length passes \<open>checkHeader\<close>, and the buffer size computed from it for the
  body read is larger than the whole message object.
\<close>

theorem checkHeader_admits_negative_length:
  assumes "hdr_version (msg_hdr m) = 1" and "msg_bodyLength m < 0"
  shows "checkHeader m \<and> unat (word_of_int (msg_bodyLength m) :: 64 word) > 2 ^ 63"
proof
  show "checkHeader m" using assms by (simp add: checkHeader_iff)
  have "unat (word_of_int (msg_bodyLength m) :: 64 word) = nat (2 ^ 64 + msg_bodyLength m)"
    using assms sint16_range(1)[of "hdr_bodyLength (msg_hdr m)"]
    by (intro unat_size_neg) (auto simp: msg_bodyLength_def)
  then show "unat (word_of_int (msg_bodyLength m) :: 64 word) > 2 ^ 63"
    using sint16_range(1)[of "hdr_bodyLength (msg_hdr m)"] by (simp add: msg_bodyLength_def)
qed

theorem checkHeader_admits_negative_length_witness:
  "checkHeader \<lparr>msg_hdr = \<lparr>hdr_version = 1, hdr_result = 0, hdr_bodyLength = 0xFFFF, hdr_msgId = 3\<rparr>,
     msg_body = []\<rparr>"
  using checkHeader_admits_negative_length
    [of "\<lparr>msg_hdr = \<lparr>hdr_version = 1, hdr_result = 0, hdr_bodyLength = 0xFFFF, hdr_msgId = 3\<rparr>,
     msg_body = []\<rparr>"]
  by (simp add: msg_bodyLength_def)

text \<open>
  C21. \<open>encodeMsg\<close> with a length the protocol admits builds a message that passes \<open>checkHeader\<close>,
  announces exactly that length and identifier, starts with exactly those bytes, and leaves the
  rest of the body as it was.
\<close>

theorem encodeMsg_builds_valid:
  assumes "wf_msg m" and "0 \<le> n" and "n \<le> 1024" and "n \<le> int (length d)"
  shows "\<exists>m'. encodeMsg i (Some d) n m = Inr m' \<and> wf_msg m' \<and> checkHeader m' \<and>
    msg_bodyLength m' = n \<and> msg_msgId m' = MsgId_val i \<and>
    take (nat n) (msg_body m') = take (nat n) d \<and>
    drop (nat n) (msg_body m') = drop (nat n) (msg_body m)"
proof -
  have "sint (word_of_int (MsgId_val i) :: 32 word) = MsgId_val i" by (cases i) simp_all
  moreover have "nat n \<le> length d" "nat n \<le> 1024" using assms by auto
  ultimately show ?thesis
    using assms
    by (simp add: encodeMsg_eq wf_msg_def checkHeader_iff msg_bodyLength_def msg_msgId_def
        bodyLength_word_of_int overlay_def)
qed

theorem encodeMsg_builds_valid_witness:
  "\<exists>m'. encodeMsg NF_MESSAGE (Some [72, 105]) 2
       \<lparr>msg_hdr = \<lparr>hdr_version = 0, hdr_result = 0, hdr_bodyLength = 0, hdr_msgId = 0\<rparr>,
        msg_body = replicate 1024 0\<rparr> = Inr m' \<and> checkHeader m' \<and> msg_msgId m' = 3"
  using encodeMsg_builds_valid
    [of "\<lparr>msg_hdr = \<lparr>hdr_version = 0, hdr_result = 0, hdr_bodyLength = 0, hdr_msgId = 0\<rparr>,
        msg_body = replicate 1024 0\<rparr>" 2 "[72, 105]" NF_MESSAGE]
  by (auto simp: wf_msg_def)

text \<open>
  C23. Exactly when \<open>encodeMsg\<close> corrupts memory, for every \<open>int\<close> length: the narrowed length is
  positive and the unnarrowed length is negative, exceeds the 1024-byte body, or exceeds the
  caller's object. The narrowed length guards the copy, the unnarrowed one drives it.
\<close>

theorem encodeMsg_faults_iff:
  assumes "- (2 ^ 31) \<le> n" and "n < 2 ^ 31"
  shows "(\<exists>e. encodeMsg i (Some d) n m = Inl e) \<longleftrightarrow>
    0 < sint (word_of_int n :: 16 word) \<and> (n < 0 \<or> 1024 < n \<or> int (length d) < n)"
  using memcpy_body_faults[OF assms] by (auto simp: encodeMsg_def Let_def)

theorem encodeMsg_faults_iff_witness:
  "\<exists>e. encodeMsg NF_MESSAGE (Some []) 65537
     \<lparr>msg_hdr = \<lparr>hdr_version = 0, hdr_result = 0, hdr_bodyLength = 0, hdr_msgId = 0\<rparr>,
      msg_body = replicate 1024 0\<rparr> = Inl e"
  using encodeMsg_faults_iff[of 65537 NF_MESSAGE "[]"] by simp

text \<open>
  The response code loses its class on the wire: the 8-bit field keeps the low byte, so each
  success code of the user protocol is encoded exactly like the failure code of the same
  operation.
\<close>

theorem response_codes_collide:
  "encodeMsg_result i CREATE_USER_SUCCESS d n m = encodeMsg_result i CREATE_USER_FAIL d n m \<and>
   encodeMsg_result i LOGIN_SUCCESS d n m = encodeMsg_result i LOGIN_FAIL d n m \<and>
   encodeMsg_result i CREATE_PARTY_SUCCESS d n m = encodeMsg_result i CREATE_PARTY_FAIL d n m \<and>
   encodeMsg_result i JOIN_USER_SUCCESS d n m = encodeMsg_result i JOIN_USER_FAIL d n m"
proof -
  have low_bytes: "(word_of_int 0x1001 :: 8 word) = word_of_int 0x2001"
    "(word_of_int 0x1002 :: 8 word) = word_of_int 0x2002"
    "(word_of_int 0x1003 :: 8 word) = word_of_int 0x2003"
    "(word_of_int 0x1004 :: 8 word) = word_of_int 0x2004"
    by simp_all
  show ?thesis by (simp only: encodeMsg_result_def ResponseCode_val.simps low_bytes)
qed

text \<open>
  \<open>setBodyLength\<close> never leaves a length above 1024, stores every length from 0 to 1024
  unchanged, clamps lengths that fit 16 bits, and wraps the others before clamping: 65537
  becomes 1.
\<close>

theorem setBodyLength_clamps:
  "msg_bodyLength (setBodyLength n m) \<le> 1024 \<and>
   (0 \<le> n \<and> n < 32768 \<longrightarrow> msg_bodyLength (setBodyLength n m) = min n 1024) \<and>
   msg_bodyLength (setBodyLength 65537 m) = 1"
  by (auto simp: setBodyLength_def msg_bodyLength_def sint_int16 Let_def min_def)

theorem setBodyLength_clamps_witness:
  "msg_bodyLength (setBodyLength 5000
     \<lparr>msg_hdr = \<lparr>hdr_version = 0, hdr_result = 0, hdr_bodyLength = 0, hdr_msgId = 0\<rparr>,
      msg_body = []\<rparr>) = 1024"
  using setBodyLength_clamps[of 5000] by simp

text \<open>
  C20. A valid message survives the wire: its image has header and announced body, and depositing
  the first eight bytes and then the rest into any receiving message object reproduces header
  and body prefix, leaving the receiver's stale bytes behind them.
\<close>

theorem message_transfer:
  assumes "wf_msg m" and "wf_msg r" and "checkHeader m" and "0 \<le> msg_bodyLength m"
  shows "\<exists>ws r1 r2. wire_image m = Inr ws \<and> int (length ws) = msg_length m \<and>
    deposit 0 (take 8 ws) r = Inr r1 \<and> deposit 8 (drop 8 ws) r1 = Inr r2 \<and>
    msg_hdr r2 = msg_hdr m \<and> wf_msg r2 \<and>
    (let n = nat (msg_bodyLength m)
     in take n (msg_body r2) = take n (msg_body m) \<and> drop n (msg_body r2) = drop n (msg_body r))"
proof -
  let ?n = "nat (msg_bodyLength m)"
  have n: "?n \<le> 1024" using assms by (simp add: checkHeader_iff nat_le_iff)
  have w: "wire_image m = Inr (header_bytes (msg_hdr m) @ take ?n (msg_body m))"
    using assms by (simp add: wire_image_valid checkHeader_iff)
  have lb: "length (take ?n (msg_body m)) = ?n"
    using assms n by (simp add: wf_msg_def)
  have "length (header_bytes (msg_hdr m) @ take ?n (msg_body m)) = 8 + ?n"
    using lb by simp
  then have len: "int (length (header_bytes (msg_hdr m) @ take ?n (msg_body m))) = msg_length m"
    using assms by (simp add: msg_length_def msg_bodyLength_def)
  have d: "deposit 8 (take ?n (msg_body m)) (r\<lparr>msg_hdr := msg_hdr m\<rparr>) =
      Inr (r\<lparr>msg_hdr := msg_hdr m, msg_body := overlay 0 (take ?n (msg_body m)) (msg_body r)\<rparr>)"
    using lb n by (simp add: deposit_body)
  show ?thesis
    using w len d lb n assms
    by (simp add: deposit_header wf_msg_def overlay_def Let_def)
qed

theorem message_transfer_witness:
  "\<exists>ws. wire_image \<lparr>msg_hdr = \<lparr>hdr_version = 1, hdr_result = 0, hdr_bodyLength = 2, hdr_msgId = 3\<rparr>,
        msg_body = [72, 105] @ replicate 1022 0\<rparr> = Inr ws \<and> length ws = 10"
  using message_transfer
    [of "\<lparr>msg_hdr = \<lparr>hdr_version = 1, hdr_result = 0, hdr_bodyLength = 2, hdr_msgId = 3\<rparr>,
        msg_body = [72, 105] @ replicate 1022 0\<rparr>"
        "\<lparr>msg_hdr = \<lparr>hdr_version = 0, hdr_result = 0, hdr_bodyLength = 0, hdr_msgId = 0\<rparr>,
        msg_body = replicate 1024 0\<rparr>"]
  by (auto simp: wf_msg_def checkHeader_iff msg_bodyLength_def msg_length_def)

end
