(* ===== verification/Io_Pool.thy ===== *)
theory Io_Pool
  imports Torinet_Prelude
begin

text \<open>
  Configuration (\<open>Src/Config.h\<close>) and the pool of I/O services (\<open>Src/IoServicePool.h\<close>,
  \<open>Src/IoServicePool.cpp\<close>). An \<open>io_service\<close> object is known by its position in the pool; the
  model records whether it was stopped. \<open>run()\<close> starts one thread per service and joins them, so
  each call adds that many threads to the process; \<open>pool_threads\<close> lists, for every thread ever
  started, the service it runs.
\<close>

subsection \<open>Config.h\<close>

record ServerConfig =
  threadCount :: nat
  maxSession :: nat
  noDelay :: bool
  minReceive :: nat
  maxReceiveBufferSize :: nat

definition size_max :: nat where "size_max = 2 ^ 64 - 1"

definition ServerConfig_default :: ServerConfig where
  "ServerConfig_default = \<lparr>threadCount = 1, maxSession = 1024, noDelay = True,
     minReceive = 1024 * 4, maxReceiveBufferSize = size_max\<rparr>"

record ClientConfig =
  cli_noDelay :: bool
  cli_minReceive :: nat
  cli_maxReceiveBufferSize :: nat

definition ClientConfig_default :: ClientConfig where
  "ClientConfig_default = \<lparr>cli_noDelay = True, cli_minReceive = 1024 * 4,
     cli_maxReceiveBufferSize = size_max\<rparr>"

text \<open>What \<open>print()\<close> writes to standard output; a \<open>bool\<close> prints as 0 or 1.\<close>

definition bool_digit :: "bool \<Rightarrow> string" where
  "bool_digit b = (if b then ''1'' else ''0'')"

definition ServerConfig_print :: "ServerConfig \<Rightarrow> string" where
  "ServerConfig_print c =
     ''threadCount='' @ to_string_nat (threadCount c)
     @ ''maxSession='' @ to_string_nat (maxSession c)
     @ ''noDelay='' @ bool_digit (noDelay c)
     @ ''_minReceive='' @ to_string_nat (minReceive c)
     @ ''_maxReceiveBufferSize='' @ to_string_nat (maxReceiveBufferSize c) @ [CHR 0x0A]"

definition ClientConfig_print :: "ClientConfig \<Rightarrow> string" where
  "ClientConfig_print c =
     ''noDelay='' @ bool_digit (cli_noDelay c)
     @ ''_minReceive='' @ to_string_nat (cli_minReceive c)
     @ ''_maxReceiveBufferSize='' @ to_string_nat (cli_maxReceiveBufferSize c) @ [CHR 0x0A]"

subsection \<open>IoServicePool\<close>

record io_service =
  ios_stopped :: bool
  ios_has_work :: bool

record IoServicePool =
  m_ios :: "io_service list"
  m_next :: nat
  pool_threads :: "nat list"

text \<open>The constructor's loop creates one service and one work object per iteration.\<close>

fun IoServicePool_loop :: "nat \<Rightarrow> IoServicePool \<Rightarrow> IoServicePool" where
  "IoServicePool_loop 0 p = p"
| "IoServicePool_loop (Suc n) p =
     IoServicePool_loop n (p\<lparr>m_ios := m_ios p @ [\<lparr>ios_stopped = False, ios_has_work = True\<rparr>]\<rparr>)"

definition IoServicePool_new :: "nat \<Rightarrow> IoServicePool" where
  "IoServicePool_new sz = IoServicePool_loop sz \<lparr>m_ios = [], m_next = 0, pool_threads = []\<rparr>"

text \<open>
  Round robin. The returned reference is modelled by its index; with an empty pool the index
  expression leaves the vector.
\<close>

definition getIoService :: "IoServicePool \<Rightarrow> (nat \<times> IoServicePool) res" where
  "getIoService p =
     (let n = (if m_next p \<ge> length (m_ios p) then 0 else m_next p)
      in if n < length (m_ios p) then Inr (n, p\<lparr>m_next := n + 1\<rparr>) else Inl OutOfRange)"

text \<open>\<open>run()\<close>: a thread for each service, all joined before it returns.\<close>

definition pool_run :: "IoServicePool \<Rightarrow> IoServicePool" where
  "pool_run p = p\<lparr>pool_threads := pool_threads p @ [0..<length (m_ios p)]\<rparr>"

definition pool_stop :: "IoServicePool \<Rightarrow> IoServicePool" where
  "pool_stop p = p\<lparr>m_ios := map (\<lambda>i. i\<lparr>ios_stopped := True\<rparr>) (m_ios p)\<rparr>"

text \<open>A sequence of \<open>k\<close> requests for a service.\<close>

fun getIoServices :: "nat \<Rightarrow> IoServicePool \<Rightarrow> (nat list \<times> IoServicePool) res" where
  "getIoServices 0 p = Inr ([], p)"
| "getIoServices (Suc k) p =
     bind_res (getIoService p) (\<lambda>(i, p'). bind_res (getIoServices k p') (\<lambda>(is, p''). Inr (i # is, p'')))"

definition pool_inv :: "IoServicePool \<Rightarrow> bool" where
  "pool_inv p \<longleftrightarrow> m_next p \<le> length (m_ios p) \<and> set (pool_threads p) \<subseteq> {..<length (m_ios p)}"

subsection \<open>Lemmas\<close>

lemma IoServicePool_loop_eq:
  "IoServicePool_loop n p =
     p\<lparr>m_ios := m_ios p @ replicate n \<lparr>ios_stopped = False, ios_has_work = True\<rparr>\<rparr>"
  by (induction n arbitrary: p) (auto simp: replicate_app_Cons_same)

lemma IoServicePool_new_eq:
  "IoServicePool_new n = \<lparr>m_ios = replicate n \<lparr>ios_stopped = False, ios_has_work = True\<rparr>,
     m_next = 0, pool_threads = []\<rparr>"
  by (simp add: IoServicePool_new_def IoServicePool_loop_eq)

lemma pool_inv_new: "pool_inv (IoServicePool_new n)"
  by (simp add: IoServicePool_new_eq pool_inv_def)

lemma getIoService_keeps:
  "getIoService p = Inr (i, p') \<Longrightarrow> m_ios p' = m_ios p \<and> pool_threads p' = pool_threads p"
  by (auto simp: getIoService_def Let_def split: if_splits)

lemma getIoService_inv: "pool_inv p \<Longrightarrow> getIoService p = Inr (i, p') \<Longrightarrow> pool_inv p'"
  by (auto simp: getIoService_def pool_inv_def Let_def split: if_splits)

lemma pool_run_inv: "pool_inv p \<Longrightarrow> pool_inv (pool_run p)"
  by (auto simp: pool_run_def pool_inv_def)

lemma pool_stop_inv: "pool_inv p \<Longrightarrow> pool_inv (pool_stop p)"
  by (simp add: pool_stop_def pool_inv_def)

lemma getIoService_step:
  assumes "m_ios p \<noteq> []" and "m_next p \<le> length (m_ios p)"
  shows "getIoService p = Inr (m_next p mod length (m_ios p),
           p\<lparr>m_next := m_next p mod length (m_ios p) + 1\<rparr>)"
  using assms by (cases "m_next p = length (m_ios p)") (auto simp: getIoService_def Let_def)

lemma getIoServices_from:
  assumes "length (m_ios p) = n" and "0 < n" and "m_next p \<le> n"
  shows "\<exists>p'. getIoServices k p = Inr (map (\<lambda>j. (m_next p + j) mod n) [0..<k], p')"
  using assms
proof (induction k arbitrary: p)
  case 0
  then show ?case by simp
next
  case (Suc k)
  let ?q = "p\<lparr>m_next := m_next p mod n + 1\<rparr>"
  have step: "getIoService p = Inr (m_next p mod n, ?q)"
    using Suc.prems getIoService_step[of p] by auto
  have "m_next ?q \<le> n" using Suc.prems by (simp add: Suc_leI)
  then obtain p' where
    IH: "getIoServices k ?q = Inr (map (\<lambda>j. (m_next p mod n + 1 + j) mod n) [0..<k], p')"
    using Suc.IH[of ?q] Suc.prems by auto
  have shift: "(m_next p mod n + 1 + j) mod n = (m_next p + Suc j) mod n" for j
    using mod_add_left_eq[of "m_next p" n "Suc j"] by simp
  have "map (\<lambda>j. (m_next p + j) mod n) [0..<Suc k] =
      m_next p mod n # map (\<lambda>j. (m_next p mod n + 1 + j) mod n) [0..<k]"
    unfolding shift by (simp add: upt_conv_Cons map_Suc_upt[symmetric] del: upt_Suc)
  with step IH show ?case by simp
qed

subsection \<open>Properties\<close>

text \<open>
  Round robin: on a fresh pool of \<open>n > 0\<close> services, the \<open>k\<close>-th request (counting from 0) is
  served by service \<open>k mod n\<close>.
\<close>

theorem getIoService_round_robin:
  assumes "0 < n"
  shows "\<exists>p'. getIoServices k (IoServicePool_new n) = Inr (map (\<lambda>j. j mod n) [0..<k], p')"
  using getIoServices_from[of "IoServicePool_new n" n k] assms by (simp add: IoServicePool_new_eq)

theorem getIoService_round_robin_witness:
  "\<exists>p'. getIoServices 5 (IoServicePool_new 2) = Inr ([0, 1, 0, 1, 0], p')"
  using getIoService_round_robin[of 2 5] by (simp add: upt_rec)

text \<open>
  \<open>getIoService\<close> leaves the vector exactly when the pool is empty, that is when the server
  was configured with zero threads; otherwise it returns a valid index.
\<close>

theorem getIoService_faults_iff:
  "(getIoService p = Inl OutOfRange \<longleftrightarrow> m_ios p = []) \<and>
   (m_ios p = [] \<or> (\<exists>i p'. getIoService p = Inr (i, p') \<and> i < length (m_ios p)))"
  by (auto simp: getIoService_def Let_def)

end
