(* ===== verification/Tcp_Session.thy ===== *)
theory Tcp_Session
  imports Msg_Proto Io_Pool
begin

text \<open>
  One TCP connection: \<open>Src/Session.h\<close>, \<open>Src/TcpSession.h\<close> and \<open>Src/TcpSession.cpp\<close>.

  Sessions are shared objects, so they live in a heap indexed by address and every operation takes
  the world that contains the heap. Boost.Asio is the environment: an \<open>async_*\<close> call adds an entry
  to the session's outstanding reads, writes or connects, and the environment later completes an
  outstanding entry with an error code and data (\<open>complete_read\<close>, \<open>complete_write\<close>,
  \<open>complete_connect\<close>), which runs the lambda the source passed. Outstanding operations are lists, so
  that overlapping ones can be expressed. \<open>async_read_some\<close> may complete with fewer bytes than the
  buffer holds; \<open>async_write\<close> succeeds only after the whole buffer went out.

  A \<open>std::function\<close> member holds the name of a function or nothing; what a name does to the world
  is given by an \<open>env\<close>.
\<close>

subsection \<open>Data\<close>

datatype error_code = EcOk | EcEof | EcAborted | EcOther nat

datatype CloseReason = ActiveClose | Disconnected | Timeout

datatype SessState = SessReady | SessOpening | SessOpened | SessClosed

datatype read_op = RdHeader nat | RdBody nat

type_synonym hfun = nat

text \<open>The socket: whether it is open, its peer, the options set, and the bytes sent so far.\<close>

record tcp_socket =
  sock_open :: bool
  sock_peer :: "endpoint option"
  sock_reuse :: bool
  sock_nodelay :: bool
  sock_out :: bytes

definition fresh_socket :: tcp_socket where
  "fresh_socket = \<lparr>sock_open = False, sock_peer = None, sock_reuse = False, sock_nodelay = False,
     sock_out = []\<rparr>"

record TcpSession =
  s_socket :: tcp_socket
  s_id :: int
  s_state :: SessState
  s_remoteEndpoint :: endpoint
  s_msg :: Msg
  s_sendQue :: "Msg list"
  s_minReceive :: nat
  s_maxReceiveBufferSize :: nat
  s_tx :: "64 word"
  s_rx :: "64 word"
  s_openedHandler :: "hfun option"
  s_closedHandler :: "hfun option"
  s_messageHandler :: "hfun option"
  s_reading :: "read_op list"
  s_writing :: "bytes list"
  s_connecting :: nat

record net =
  heap :: "addr \<Rightarrow> TcpSession option"

record 'w env =
  run_opened :: "hfun \<Rightarrow> addr \<Rightarrow> 'w \<Rightarrow> 'w res"
  run_closed :: "hfun \<Rightarrow> addr \<Rightarrow> CloseReason \<Rightarrow> 'w \<Rightarrow> 'w res"
  run_message :: "hfun \<Rightarrow> addr \<Rightarrow> 'w \<Rightarrow> 'w res"

subsection \<open>The heap\<close>

definition with_session :: "addr \<Rightarrow> (TcpSession \<Rightarrow> 'b res) \<Rightarrow> 'a net_scheme \<Rightarrow> 'b res" where
  "with_session a f w = (case heap w a of None \<Rightarrow> Inl NullDeref | Some s \<Rightarrow> f s)"

definition put_session :: "addr \<Rightarrow> TcpSession \<Rightarrow> 'a net_scheme \<Rightarrow> 'a net_scheme" where
  "put_session a s w = w\<lparr>heap := (heap w)(a \<mapsto> s)\<rparr>"

definition upd_session ::
  "addr \<Rightarrow> (TcpSession \<Rightarrow> TcpSession res) \<Rightarrow> 'a net_scheme \<Rightarrow> 'a net_scheme res" where
  "upd_session a f w = with_session a (\<lambda>s. bind_res (f s) (\<lambda>s'. Inr (put_session a s' w))) w"

subsection \<open>Construction and queries\<close>

text \<open>
  Fields no constructor initialises (\<open>_tx\<close>, \<open>_rx\<close> and the bytes of \<open>_msg\<close>) get the
  indeterminate values the memory happens to hold, the arguments \<open>tx0\<close>, \<open>rx0\<close>, \<open>msg0\<close>.
  \<open>remote_endpoint()\<close> throws when the peer is already gone.
\<close>

definition TcpSession_server ::
  "tcp_socket \<Rightarrow> int \<Rightarrow> ServerConfig \<Rightarrow> Msg \<Rightarrow> 64 word \<Rightarrow> 64 word \<Rightarrow> TcpSession res" where
  "TcpSession_server sock i config msg0 tx0 rx0 =
     (case sock_peer sock of
        None \<Rightarrow> Inl SystemError
      | Some ep \<Rightarrow> Inr \<lparr>s_socket = sock\<lparr>sock_reuse := True, sock_nodelay := noDelay config\<rparr>,
          s_id = i, s_state = SessReady, s_remoteEndpoint = ep, s_msg = msg0, s_sendQue = [],
          s_minReceive = minReceive config,
          s_maxReceiveBufferSize = maxReceiveBufferSize config,
          s_tx = tx0, s_rx = rx0,
          s_openedHandler = None, s_closedHandler = None, s_messageHandler = None,
          s_reading = [], s_writing = [], s_connecting = 0\<rparr>)"

definition TcpSession_client ::
  "tcp_socket \<Rightarrow> ClientConfig \<Rightarrow> endpoint \<Rightarrow> Msg \<Rightarrow> 64 word \<Rightarrow> 64 word \<Rightarrow> TcpSession" where
  "TcpSession_client sock config ep msg0 tx0 rx0 =
     \<lparr>s_socket = sock, s_id = 0, s_state = SessReady, s_remoteEndpoint = ep, s_msg = msg0,
      s_sendQue = [], s_minReceive = cli_minReceive config,
      s_maxReceiveBufferSize = cli_maxReceiveBufferSize config,
      s_tx = tx0, s_rx = rx0,
      s_openedHandler = None, s_closedHandler = None, s_messageHandler = None,
      s_reading = [], s_writing = [], s_connecting = 0\<rparr>"

definition getID :: "TcpSession \<Rightarrow> int" where
  "getID s = s_id s"

definition getMsg :: "TcpSession \<Rightarrow> Msg" where
  "getMsg s = s_msg s"

definition getRemoteEndpoint :: "TcpSession \<Rightarrow> endpoint option" where
  "getRemoteEndpoint s = (if s_state s = SessClosed then None else Some (s_remoteEndpoint s))"

definition isOpen :: "TcpSession \<Rightarrow> bool" where
  "isOpen s = (if s_state s \<noteq> SessOpened then False else True)"

text \<open>\<open>close()\<close> closes the socket and nothing else; outstanding operations stay outstanding.\<close>

definition session_close :: "TcpSession \<Rightarrow> TcpSession" where
  "session_close s = s\<lparr>s_socket := (s_socket s)\<lparr>sock_open := False\<rparr>\<rparr>"

subsection \<open>Calling the handlers\<close>

definition fire_opened :: "'a net_scheme env \<Rightarrow> addr \<Rightarrow> 'a net_scheme \<Rightarrow> 'a net_scheme res" where
  "fire_opened env a w = with_session a (\<lambda>s. case s_openedHandler s of
      None \<Rightarrow> Inl BadFunctionCall | Some h \<Rightarrow> run_opened env h a w) w"

definition fire_message :: "'a net_scheme env \<Rightarrow> addr \<Rightarrow> 'a net_scheme \<Rightarrow> 'a net_scheme res" where
  "fire_message env a w = with_session a (\<lambda>s. case s_messageHandler s of
      None \<Rightarrow> Inl BadFunctionCall | Some h \<Rightarrow> run_message env h a w) w"

definition fire_closed ::
  "'a net_scheme env \<Rightarrow> addr \<Rightarrow> CloseReason \<Rightarrow> 'a net_scheme \<Rightarrow> 'a net_scheme res" where
  "fire_closed env a r w = with_session a (\<lambda>s. case s_closedHandler s of
      None \<Rightarrow> Inl BadFunctionCall | Some h \<Rightarrow> run_closed env h a r w) w"

definition close_reason :: "error_code \<Rightarrow> CloseReason" where
  "close_reason ec = (if ec = EcEof \<or> ec = EcAborted then Disconnected else ActiveClose)"

subsection \<open>Receiving\<close>

definition session_read :: "addr \<Rightarrow> nat \<Rightarrow> 'a net_scheme \<Rightarrow> 'a net_scheme res" where
  "session_read a size' w =
     upd_session a (\<lambda>s. Inr (s\<lparr>s_reading := s_reading s @ [RdHeader size']\<rparr>)) w"

definition handleReadHeader ::
  "'a net_scheme env \<Rightarrow> addr \<Rightarrow> error_code \<Rightarrow> 'a net_scheme \<Rightarrow> 'a net_scheme res" where
  "handleReadHeader env a error w =
     (if error \<noteq> EcOk then fire_closed env a (close_reason error) w
      else with_session a (\<lambda>s.
        if \<not> checkHeader (s_msg s) then session_read a hdrLength w
        else upd_session a (\<lambda>s. Inr (s\<lparr>s_reading := s_reading s @
               [RdBody (unat (word_of_int (msg_bodyLength (s_msg s)) :: 64 word))]\<rparr>)) w) w)"

definition handleReadBody ::
  "'a net_scheme env \<Rightarrow> addr \<Rightarrow> error_code \<Rightarrow> 'a net_scheme \<Rightarrow> 'a net_scheme res" where
  "handleReadBody env a ec w =
     (if ec \<noteq> EcOk then fire_closed env a (close_reason ec) w
      else bind_res (upd_session a (\<lambda>s. Inr (s\<lparr>s_rx := s_rx s + word_of_int (msg_length (s_msg s))\<rparr>)) w)
             (\<lambda>w1. bind_res (fire_message env a w1)
             (\<lambda>w2. session_read a hdrLength w2)))"

text \<open>
  Completion of the oldest outstanding read: the received bytes are in the buffer, then the lambda
  runs. The lambda of \<open>read()\<close> forwards success to \<open>handleReadHeader\<close> and only logs an error; the
  one of the body read forwards both.
\<close>

definition complete_read ::
  "'a net_scheme env \<Rightarrow> addr \<Rightarrow> error_code \<Rightarrow> bytes \<Rightarrow> 'a net_scheme \<Rightarrow> 'a net_scheme res" where
  "complete_read env a ec chunk w = with_session a (\<lambda>s. case s_reading s of
       [] \<Rightarrow> Inr w
     | RdHeader n # rs \<Rightarrow> bind_res (deposit 0 chunk (s_msg s)) (\<lambda>m.
         let w1 = put_session a (s\<lparr>s_msg := m, s_reading := rs\<rparr>) w
         in if ec = EcOk then handleReadHeader env a ec w1 else Inr w1)
     | RdBody n # rs \<Rightarrow> bind_res (deposit hdrLength chunk (s_msg s)) (\<lambda>m.
         handleReadBody env a ec (put_session a (s\<lparr>s_msg := m, s_reading := rs\<rparr>) w))) w"

subsection \<open>Sending\<close>

text \<open>\<open>async_write\<close> of the message at the front of the queue.\<close>

definition begin_write :: "TcpSession \<Rightarrow> TcpSession res" where
  "begin_write s = (case s_sendQue s of
       [] \<Rightarrow> Inl EmptyContainer
     | m # q \<Rightarrow> bind_res (wire_image m) (\<lambda>buf. Inr (s\<lparr>s_writing := s_writing s @ [buf]\<rparr>)))"

text \<open>\<open>send(const Msg&)\<close>; \<open>send(Msg&)\<close> has the same body.\<close>

definition session_send :: "Msg \<Rightarrow> TcpSession \<Rightarrow> TcpSession res" where
  "session_send m s =
     (let progress = s_sendQue s \<noteq> [];
          s1 = s\<lparr>s_sendQue := s_sendQue s @ [m]\<rparr>
      in if \<not> progress then begin_write s1 else Inr s1)"

definition session_send_mutable :: "Msg \<Rightarrow> TcpSession \<Rightarrow> TcpSession res" where
  "session_send_mutable m s =
     (let progress = s_sendQue s \<noteq> [];
          s1 = s\<lparr>s_sendQue := s_sendQue s @ [m]\<rparr>
      in if \<not> progress then begin_write s1 else Inr s1)"

text \<open>The success branch of \<open>handleWrite\<close>.\<close>

definition handleWrite_next :: "TcpSession \<Rightarrow> TcpSession res" where
  "handleWrite_next s = (case s_sendQue s of
       [] \<Rightarrow> Inl EmptyContainer
     | m # q \<Rightarrow>
         (let s1 = s\<lparr>s_tx := s_tx s + word_of_int (msg_length m), s_sendQue := q\<rparr>
          in if q \<noteq> [] then begin_write s1 else Inr s1))"

definition handleWrite ::
  "'a net_scheme env \<Rightarrow> addr \<Rightarrow> error_code \<Rightarrow> 'a net_scheme \<Rightarrow> 'a net_scheme res" where
  "handleWrite env a ec w =
     (if ec \<noteq> EcOk then fire_closed env a (close_reason ec) w
      else upd_session a handleWrite_next w)"

text \<open>
  Completion of the oldest outstanding write; on an error only \<open>k\<close> of its bytes went out.
\<close>

definition write_out :: "error_code \<Rightarrow> nat \<Rightarrow> bytes \<Rightarrow> bytes" where
  "write_out ec k buf = (if ec = EcOk then buf else take k buf)"

definition complete_write ::
  "'a net_scheme env \<Rightarrow> addr \<Rightarrow> error_code \<Rightarrow> nat \<Rightarrow> 'a net_scheme \<Rightarrow> 'a net_scheme res" where
  "complete_write env a ec k w = with_session a (\<lambda>s. case s_writing s of
       [] \<Rightarrow> Inr w
     | buf # ws \<Rightarrow>
         handleWrite env a ec
           (put_session a (s\<lparr>s_writing := ws,
              s_socket := (s_socket s)\<lparr>sock_out := sock_out (s_socket s) @ write_out ec k buf\<rparr>\<rparr>) w)) w"

subsection \<open>Opening\<close>

definition session_start :: "'a net_scheme env \<Rightarrow> addr \<Rightarrow> 'a net_scheme \<Rightarrow> 'a net_scheme res" where
  "session_start env a w =
     bind_res (upd_session a (\<lambda>s. Inr (s\<lparr>s_state := SessOpening\<rparr>)) w) (\<lambda>w1.
     bind_res (upd_session a (\<lambda>s. Inr (s\<lparr>s_state := SessOpened\<rparr>)) w1) (\<lambda>w2.
     bind_res (fire_opened env a w2) (\<lambda>w3.
     session_read a hdrLength w3)))"

definition session_connect :: "addr \<Rightarrow> 'a net_scheme \<Rightarrow> 'a net_scheme res" where
  "session_connect a w = upd_session a (\<lambda>s. Inr (s\<lparr>s_connecting := s_connecting s + 1\<rparr>)) w"

definition complete_connect ::
  "'a net_scheme env \<Rightarrow> addr \<Rightarrow> error_code \<Rightarrow> 'a net_scheme \<Rightarrow> 'a net_scheme res" where
  "complete_connect env a ec w = with_session a (\<lambda>s.
     if s_connecting s = 0 then Inr w
     else (let w1 = put_session a (s\<lparr>s_connecting := s_connecting s - 1\<rparr>) w
           in if ec = EcOk
              then bind_res (upd_session a (\<lambda>s. Inr (s\<lparr>s_socket := (s_socket s)
                     \<lparr>sock_open := True, sock_reuse := True, sock_nodelay := True\<rparr>\<rparr>)) w1)
                   (session_start env a)
              else Inr w1)) w"

text \<open>\<open>send(const uint8_t*, size_t)\<close> is an empty stub.\<close>

definition session_send_raw :: "bytes \<Rightarrow> nat \<Rightarrow> TcpSession \<Rightarrow> TcpSession" where
  "session_send_raw data size' s = s"

subsection \<open>The session invariant\<close>

text \<open>
  Message objects have their size, at most one read is outstanding, and an outstanding write is
  the only one and sends the message at the front of the queue.
\<close>

definition write_ok :: "TcpSession \<Rightarrow> bool" where
  "write_ok s \<longleftrightarrow> s_writing s = [] \<or>
     (\<exists>m q buf. s_sendQue s = m # q \<and> wire_image m = Inr buf \<and> s_writing s = [buf])"

definition sess_ok :: "TcpSession \<Rightarrow> bool" where
  "sess_ok s \<longleftrightarrow> wf_msg (s_msg s) \<and> (\<forall>m \<in> set (s_sendQue s). wf_msg m) \<and>
     length (s_reading s) \<le> 1 \<and> write_ok s"

definition same_identity :: "TcpSession \<Rightarrow> TcpSession \<Rightarrow> bool" where
  "same_identity s s' \<longleftrightarrow> s_id s' = s_id s \<and> s_openedHandler s' = s_openedHandler s \<and>
     s_closedHandler s' = s_closedHandler s \<and> s_messageHandler s' = s_messageHandler s"

definition same_reads :: "'a net_scheme \<Rightarrow> 'a net_scheme \<Rightarrow> bool" where
  "same_reads w w' \<longleftrightarrow> (\<forall>a s. heap w a = Some s \<longrightarrow>
     (\<exists>s'. heap w' a = Some s' \<and> s_reading s' = s_reading s \<and> same_identity s s'))"

lemma with_session_eq_Inr:
  "with_session a f w = Inr r \<longleftrightarrow> (\<exists>s. heap w a = Some s \<and> f s = Inr r)"
  by (auto simp: with_session_def split: option.splits)

lemma with_session_Some [simp]: "heap w a = Some s \<Longrightarrow> with_session a f w = f s"
  by (simp add: with_session_def)

lemma heap_put_session [simp]:
  "heap (put_session a s w) b = (if b = a then Some s else heap w b)"
  by (simp add: put_session_def)

lemma put_session_twice [simp]: "put_session a s (put_session a t w) = put_session a s w"
  by (simp add: put_session_def)

lemma upd_session_Some [simp]:
  "heap w a = Some s \<Longrightarrow> upd_session a f w = bind_res (f s) (\<lambda>s'. Inr (put_session a s' w))"
  by (simp add: upd_session_def)

lemma upd_session_eq_Inr:
  "upd_session a f w = Inr w' \<longleftrightarrow>
     (\<exists>s s'. heap w a = Some s \<and> f s = Inr s' \<and> w' = put_session a s' w)"
  by (auto simp: upd_session_def with_session_eq_Inr bind_res_eq_Inr)

lemmas session_inverts = with_session_eq_Inr upd_session_eq_Inr bind_res_eq_Inr

lemma same_identity_refl [simp]: "same_identity s s"
  by (simp add: same_identity_def)

lemma same_identity_trans: "same_identity s t \<Longrightarrow> same_identity t u \<Longrightarrow> same_identity s u"
  by (simp add: same_identity_def)

lemma same_reads_refl [simp]: "same_reads w w"
  by (simp add: same_reads_def)

lemma same_readsD:
  "same_reads w w' \<Longrightarrow> heap w a = Some s \<Longrightarrow>
     \<exists>s'. heap w' a = Some s' \<and> s_reading s' = s_reading s \<and> same_identity s s'"
  by (simp add: same_reads_def)

lemma same_reads_trans:
  assumes "same_reads u v" and "same_reads v w"
  shows "same_reads u w"
  unfolding same_reads_def
proof (intro allI impI)
  fix a s
  assume "heap u a = Some s"
  then obtain t where t: "heap v a = Some t" "s_reading t = s_reading s" "same_identity s t"
    using same_readsD[OF assms(1)] by blast
  then obtain r where "heap w a = Some r" "s_reading r = s_reading t" "same_identity t r"
    using same_readsD[OF assms(2)] by blast
  with t show "\<exists>s'. heap w a = Some s' \<and> s_reading s' = s_reading s \<and> same_identity s s'"
    by (auto intro: same_identity_trans)
qed

lemma begin_write_ok:
  assumes "begin_write s = Inr s'" and "s_writing s = []"
  shows "write_ok s' \<and> same_identity s s' \<and> s_msg s' = s_msg s \<and> s_reading s' = s_reading s \<and>
    s_sendQue s' = s_sendQue s"
  using assms
  by (auto simp: begin_write_def write_ok_def same_identity_def bind_res_eq_Inr split: list.splits)

lemma session_send_ok:
  assumes "session_send m s = Inr s'" and "sess_ok s" and "wf_msg m"
  shows "sess_ok s' \<and> same_identity s s' \<and> s_reading s' = s_reading s"
proof (cases "s_sendQue s = []")
  case True
  then have idle: "s_writing s = []" using assms(2) by (auto simp: sess_ok_def write_ok_def)
  let ?s1 = "s\<lparr>s_sendQue := [m]\<rparr>"
  have "begin_write ?s1 = Inr s'" using assms(1) True by (simp add: session_send_def)
  from begin_write_ok[OF this] idle show ?thesis
    using assms by (auto simp: sess_ok_def same_identity_def)
next
  case False
  then show ?thesis
    using assms by (auto simp: session_send_def sess_ok_def same_identity_def write_ok_def)
qed

lemma handleWrite_next_ok:
  assumes "handleWrite_next s = Inr s'" and "s_writing s = []" and "sess_ok s"
  shows "sess_ok s' \<and> same_identity s s'"
proof -
  from assms(1) obtain m q where q: "s_sendQue s = m # q"
    by (auto simp: handleWrite_next_def split: list.splits)
  let ?s1 = "s\<lparr>s_tx := s_tx s + word_of_int (msg_length m), s_sendQue := q\<rparr>"
  show ?thesis
  proof (cases "q = []")
    case True
    then show ?thesis
      using assms q by (auto simp: handleWrite_next_def sess_ok_def write_ok_def same_identity_def)
  next
    case False
    then have "begin_write ?s1 = Inr s'" using assms(1) q by (simp add: handleWrite_next_def)
    from begin_write_ok[OF this] show ?thesis
      using assms q by (auto simp: sess_ok_def same_identity_def)
  qed
qed

subsection \<open>What the owner of a session promises\<close>

text \<open>
  A session calls back into its owner, so its invariant can only be kept together with the owner's.
  The owner fixes an invariant \<open>Inv\<close> of the world that covers every session and does not depend on
  what a session changes in itself, and promises that its handlers keep \<open>Inv\<close> and start no reads.
  Then every completion of an asynchronous operation keeps \<open>Inv\<close>.
\<close>

locale session_host =
  fixes env :: "'a net_scheme env"
    and Inv :: "'a net_scheme \<Rightarrow> bool"
  assumes inv_session: "Inv w \<Longrightarrow> heap w a = Some s \<Longrightarrow> sess_ok s"
    and inv_put: "Inv w \<Longrightarrow> heap w a = Some s \<Longrightarrow> sess_ok s' \<Longrightarrow> same_identity s s' \<Longrightarrow>
      Inv (put_session a s' w)"
    and opened_inv: "Inv w \<Longrightarrow> run_opened env h a w = Inr w' \<Longrightarrow> Inv w' \<and> same_reads w w'"
    and closed_inv: "Inv w \<Longrightarrow> run_closed env h a r w = Inr w' \<Longrightarrow> Inv w' \<and> same_reads w w'"
    and message_inv: "Inv w \<Longrightarrow> run_message env h a w = Inr w' \<Longrightarrow> Inv w' \<and> same_reads w w'"
begin

lemma fire_closed_inv: "Inv w \<Longrightarrow> fire_closed env a r w = Inr w' \<Longrightarrow> Inv w'"
  by (auto simp: fire_closed_def with_session_eq_Inr dest: closed_inv split: option.splits)

lemma session_read_inv:
  assumes "Inv w" and "session_read a n w = Inr w'" and "heap w a = Some s" and "s_reading s = []"
  shows "Inv w'"
proof -
  have "w' = put_session a (s\<lparr>s_reading := [RdHeader n]\<rparr>) w"
    using assms by (simp add: session_read_def)
  moreover have "sess_ok (s\<lparr>s_reading := [RdHeader n]\<rparr>)"
    using inv_session[OF assms(1,3)] by (simp add: sess_ok_def write_ok_def)
  ultimately show ?thesis
    using inv_put[OF assms(1,3)] by (simp add: same_identity_def)
qed

lemma handleReadHeader_inv:
  assumes "Inv w" and "handleReadHeader env a ec w = Inr w'"
    and s: "heap w a = Some s" "s_reading s = []"
  shows "Inv w'"
proof (cases "ec = EcOk \<and> checkHeader (s_msg s)")
  case True
  let ?n = "unat (word_of_int (msg_bodyLength (s_msg s)) :: 64 word)"
  have "w' = put_session a (s\<lparr>s_reading := [RdBody ?n]\<rparr>) w"
    using assms(2) s True by (simp add: handleReadHeader_def)
  moreover have "sess_ok (s\<lparr>s_reading := [RdBody ?n]\<rparr>)"
    using inv_session[OF assms(1) s(1)] by (simp add: sess_ok_def write_ok_def)
  ultimately show ?thesis
    using inv_put[OF assms(1) s(1)] by (simp add: same_identity_def)
next
  case False
  show ?thesis
  proof (cases "ec = EcOk")
    case True
    with False have "session_read a 8 w = Inr w'"
      using assms(2) s by (simp add: handleReadHeader_def)
    then show ?thesis using session_read_inv assms(1) s by blast
  next
    case False
    then show ?thesis using assms fire_closed_inv by (simp add: handleReadHeader_def)
  qed
qed

lemma handleReadBody_inv:
  assumes "Inv w" and "handleReadBody env a ec w = Inr w'"
    and s: "heap w a = Some s" "s_reading s = []"
  shows "Inv w'"
proof (cases "ec = EcOk")
  case True
  let ?s1 = "s\<lparr>s_rx := s_rx s + word_of_int (msg_length (s_msg s))\<rparr>"
  let ?w1 = "put_session a ?s1 w"
  from True assms(2) s obtain w2
    where f: "fire_message env a ?w1 = Inr w2" and r: "session_read a 8 w2 = Inr w'"
    by (auto simp: handleReadBody_def bind_res_eq_Inr)
  have "sess_ok ?s1" using inv_session[OF assms(1) s(1)] by (simp add: sess_ok_def write_ok_def)
  then have "Inv ?w1" using inv_put[OF assms(1) s(1)] by (simp add: same_identity_def)
  with f have "Inv w2 \<and> same_reads ?w1 w2"
    by (auto simp: fire_message_def split: option.splits dest: message_inv)
  moreover obtain s2 where "heap w2 a = Some s2" "s_reading s2 = []"
    using calculation s(2) same_readsD[of ?w1 w2 a ?s1] by auto
  ultimately show ?thesis using session_read_inv r by blast
next
  case False
  then show ?thesis using assms fire_closed_inv by (simp add: handleReadBody_def)
qed

lemma complete_read_inv:
  assumes "Inv w" and "complete_read env a ec chunk w = Inr w'"
  shows "Inv w'"
proof -
  from assms(2) obtain s where s: "heap w a = Some s"
    by (auto simp: complete_read_def with_session_eq_Inr)
  have ok: "sess_ok s" using inv_session[OF assms(1) s] .
  show ?thesis
  proof (cases "s_reading s")
    case Nil
    then show ?thesis using assms s by (simp add: complete_read_def)
  next
    case (Cons r rs)
    with ok have rs: "rs = []" by (simp add: sess_ok_def)
    have put: "Inv (put_session a (s\<lparr>s_msg := m, s_reading := []\<rparr>) w)"
      if "deposit off chunk (s_msg s) = Inr m" for off m
      using ok deposit_wf[of "s_msg s" off chunk m] that
      by (intro inv_put[OF assms(1) s]) (auto simp: sess_ok_def write_ok_def same_identity_def)
    show ?thesis
    proof (cases r)
      case (RdHeader n)
      with assms(2) s Cons rs obtain m where m: "deposit 0 chunk (s_msg s) = Inr m"
        and h: "(if ec = EcOk
          then handleReadHeader env a ec (put_session a (s\<lparr>s_msg := m, s_reading := []\<rparr>) w)
          else Inr (put_session a (s\<lparr>s_msg := m, s_reading := []\<rparr>) w)) = Inr w'"
        by (auto simp: complete_read_def bind_res_eq_Inr Let_def)
      show ?thesis
        using h put[OF m] handleReadHeader_inv[OF put[OF m], of a ec w' "s\<lparr>s_msg := m, s_reading := []\<rparr>"]
        by (auto split: if_splits)
    next
      case (RdBody n)
      with assms(2) s Cons rs obtain m where m: "deposit 8 chunk (s_msg s) = Inr m"
        and h: "handleReadBody env a ec (put_session a (s\<lparr>s_msg := m, s_reading := []\<rparr>) w) = Inr w'"
        by (auto simp: complete_read_def bind_res_eq_Inr)
      show ?thesis using handleReadBody_inv[OF put[OF m] h] by simp
    qed
  qed
qed

lemma complete_write_inv:
  assumes "Inv w" and "complete_write env a ec k w = Inr w'"
  shows "Inv w'"
proof -
  from assms(2) obtain s where s: "heap w a = Some s"
    by (auto simp: complete_write_def with_session_eq_Inr)
  have ok: "sess_ok s" using inv_session[OF assms(1) s] .
  show ?thesis
  proof (cases "s_writing s")
    case Nil
    then show ?thesis using assms s by (simp add: complete_write_def)
  next
    case (Cons buf ws)
    with ok have ws: "ws = []" by (auto simp: sess_ok_def write_ok_def)
    let ?s1 = "s\<lparr>s_writing := [],
      s_socket := (s_socket s)\<lparr>sock_out := sock_out (s_socket s) @ write_out ec k buf\<rparr>\<rparr>"
    have ok1: "sess_ok ?s1" using ok by (simp add: sess_ok_def write_ok_def)
    then have inv1: "Inv (put_session a ?s1 w)"
      using inv_put[OF assms(1) s] by (simp add: same_identity_def)
    have h: "handleWrite env a ec (put_session a ?s1 w) = Inr w'"
      using assms(2) s Cons ws by (simp add: complete_write_def)
    show ?thesis
    proof (cases "ec = EcOk")
      case True
      with h obtain s2 where s2: "handleWrite_next ?s1 = Inr s2" "w' = put_session a s2 w"
        by (auto simp: handleWrite_def bind_res_eq_Inr)
      with handleWrite_next_ok[OF s2(1)] ok1 have "sess_ok s2" "same_identity s s2"
        by (auto simp: same_identity_def)
      then show ?thesis using inv_put[OF assms(1) s] s2(2) by simp
    next
      case False
      then show ?thesis using h inv1 fire_closed_inv by (simp add: handleWrite_def)
    qed
  qed
qed

lemma session_start_inv:
  assumes "Inv w" and "session_start env a w = Inr w'"
    and s: "heap w a = Some s" "s_reading s = []"
  shows "Inv w'"
proof -
  let ?s2 = "s\<lparr>s_state := SessOpened\<rparr>"
  let ?w2 = "put_session a ?s2 w"
  from assms(2) s obtain w3
    where f: "fire_opened env a ?w2 = Inr w3" and r: "session_read a 8 w3 = Inr w'"
    by (auto simp: session_start_def bind_res_eq_Inr)
  have "sess_ok ?s2" using inv_session[OF assms(1) s(1)] by (simp add: sess_ok_def write_ok_def)
  then have "Inv ?w2" using inv_put[OF assms(1) s(1)] by (simp add: same_identity_def)
  with f have "Inv w3 \<and> same_reads ?w2 w3"
    by (auto simp: fire_opened_def split: option.splits dest: opened_inv)
  moreover obtain s3 where "heap w3 a = Some s3" "s_reading s3 = []"
    using calculation s(2) same_readsD[of ?w2 w3 a ?s2] by auto
  ultimately show ?thesis using session_read_inv r by blast
qed

end

subsection \<open>What the owner keeps\<close>

text \<open>
  A second contract on top of the first: a relation \<open>R\<close> between worlds that holds across every
  handler and every change a session makes to itself then holds across every completion.
\<close>

locale session_rel = session_host env Inv
  for env :: "'a net_scheme env" and Inv :: "'a net_scheme \<Rightarrow> bool" +
  fixes R :: "'a net_scheme \<Rightarrow> 'a net_scheme \<Rightarrow> bool"
  assumes rel_trans: "R u v \<Longrightarrow> R v w \<Longrightarrow> R u w"
    and rel_put: "heap w a = Some s \<Longrightarrow> same_identity s s' \<Longrightarrow> R w (put_session a s' w)"
    and opened_rel: "Inv w \<Longrightarrow> run_opened env h a w = Inr w' \<Longrightarrow> R w w'"
    and closed_rel: "Inv w \<Longrightarrow> run_closed env h a r w = Inr w' \<Longrightarrow> R w w'"
    and message_rel: "Inv w \<Longrightarrow> run_message env h a w = Inr w' \<Longrightarrow> R w w'"
begin

lemma rel_refl_put: "heap w a = Some s \<Longrightarrow> R w w"
  using rel_put[of w a s s] by (simp add: put_session_def fun_upd_idem)

lemma fire_closed_rel: "Inv w \<Longrightarrow> fire_closed env a r w = Inr w' \<Longrightarrow> R w w'"
  by (auto simp: fire_closed_def with_session_eq_Inr dest: closed_rel split: option.splits)

lemma session_read_rel: "session_read a n w = Inr w' \<Longrightarrow> R w w'"
  by (auto simp: session_read_def upd_session_eq_Inr same_identity_def intro!: rel_put)

lemma handleReadHeader_rel:
  assumes "Inv w" and "handleReadHeader env a ec w = Inr w'"
  shows "R w w'"
proof (cases "ec = EcOk")
  case True
  then show ?thesis
    using assms(2) session_read_rel
    by (auto simp: handleReadHeader_def session_inverts same_identity_def intro!: rel_put
        split: if_splits)
next
  case False
  then show ?thesis using assms fire_closed_rel by (simp add: handleReadHeader_def)
qed

lemma handleReadBody_rel:
  assumes "Inv w" and "handleReadBody env a ec w = Inr w'"
  shows "R w w'"
proof (cases "ec = EcOk")
  case True
  with assms(2) obtain s w2 where s: "heap w a = Some s"
    and f: "fire_message env a (put_session a (s\<lparr>s_rx := s_rx s + word_of_int (msg_length (s_msg s))\<rparr>) w)
      = Inr w2" and r: "session_read a 8 w2 = Inr w'"
    by (auto simp: handleReadBody_def session_inverts)
  let ?w1 = "put_session a (s\<lparr>s_rx := s_rx s + word_of_int (msg_length (s_msg s))\<rparr>) w"
  have "Inv ?w1"
    using inv_put[OF assms(1) s] inv_session[OF assms(1) s]
    by (simp add: sess_ok_def write_ok_def same_identity_def)
  with f have "R ?w1 w2"
    by (auto simp: fire_message_def split: option.splits dest: message_rel)
  moreover have "R w ?w1" using s by (intro rel_put) (simp_all add: same_identity_def)
  ultimately show ?thesis using session_read_rel[OF r] rel_trans by blast
next
  case False
  then show ?thesis using assms fire_closed_rel by (simp add: handleReadBody_def)
qed

lemma complete_read_rel:
  assumes "Inv w" and "complete_read env a ec chunk w = Inr w'"
  shows "R w w'"
proof -
  from assms(2) obtain s where s: "heap w a = Some s"
    by (auto simp: complete_read_def with_session_eq_Inr)
  have ok: "sess_ok s" using inv_session[OF assms(1) s] .
  show ?thesis
  proof (cases "s_reading s")
    case Nil
    then show ?thesis using assms s rel_refl_put by (simp add: complete_read_def)
  next
    case (Cons r rs)
    let ?w1 = "\<lambda>m. put_session a (s\<lparr>s_msg := m, s_reading := rs\<rparr>) w"
    have to: "R w (?w1 m)" for m
      using s by (intro rel_put) (simp_all add: same_identity_def)
    have inv1: "Inv (?w1 m)" if "deposit off chunk (s_msg s) = Inr m" for off m
      using ok deposit_wf[of "s_msg s" off chunk m] that Cons
      by (intro inv_put[OF assms(1) s]) (auto simp: sess_ok_def write_ok_def same_identity_def)
    show ?thesis
    proof (cases r)
      case (RdHeader n)
      with assms(2) s Cons obtain m where m: "deposit 0 chunk (s_msg s) = Inr m"
        and h: "(if ec = EcOk then handleReadHeader env a ec (?w1 m) else Inr (?w1 m)) = Inr w'"
        by (auto simp: complete_read_def bind_res_eq_Inr Let_def)
      show ?thesis
        using h to rel_trans[OF to handleReadHeader_rel[OF inv1[OF m]]] by (auto split: if_splits)
    next
      case (RdBody n)
      with assms(2) s Cons obtain m where m: "deposit 8 chunk (s_msg s) = Inr m"
        and h: "handleReadBody env a ec (?w1 m) = Inr w'"
        by (auto simp: complete_read_def bind_res_eq_Inr)
      show ?thesis using rel_trans[OF to handleReadBody_rel[OF inv1[OF m] h]] .
    qed
  qed
qed

lemma complete_write_rel:
  assumes "Inv w" and "complete_write env a ec k w = Inr w'"
  shows "R w w'"
proof -
  from assms(2) obtain s where s: "heap w a = Some s"
    by (auto simp: complete_write_def with_session_eq_Inr)
  have ok: "sess_ok s" using inv_session[OF assms(1) s] .
  show ?thesis
  proof (cases "s_writing s")
    case Nil
    then show ?thesis using assms s rel_refl_put by (simp add: complete_write_def)
  next
    case (Cons buf ws)
    let ?s1 = "s\<lparr>s_writing := ws,
      s_socket := (s_socket s)\<lparr>sock_out := sock_out (s_socket s) @ write_out ec k buf\<rparr>\<rparr>"
    have id1: "same_identity s ?s1" by (simp add: same_identity_def)
    have "sess_ok ?s1" using ok Cons by (auto simp: sess_ok_def write_ok_def)
    then have inv1: "Inv (put_session a ?s1 w)" using inv_put[OF assms(1) s] id1 by blast
    have h: "handleWrite env a ec (put_session a ?s1 w) = Inr w'"
      using assms(2) s Cons by (simp add: complete_write_def)
    have to: "R w (put_session a ?s1 w)" using rel_put[OF s id1] .
    show ?thesis
    proof (cases "ec = EcOk")
      case True
      with h obtain s2 where s2: "handleWrite_next ?s1 = Inr s2" "w' = put_session a s2 w"
        by (auto simp: handleWrite_def bind_res_eq_Inr)
      have "ws = []" using ok Cons by (auto simp: sess_ok_def write_ok_def)
      with handleWrite_next_ok[OF s2(1)] \<open>sess_ok ?s1\<close> id1 have "same_identity s s2"
        using same_identity_trans by auto
      then show ?thesis using rel_put[OF s] s2(2) by simp
    next
      case False
      then show ?thesis using h rel_trans[OF to fire_closed_rel[OF inv1]] by (simp add: handleWrite_def)
    qed
  qed
qed

lemma session_start_rel:
  assumes "Inv w" and "session_start env a w = Inr w'"
  shows "R w w'"
proof -
  from assms(2) obtain s where s: "heap w a = Some s"
    by (auto simp: session_start_def session_inverts)
  let ?s2 = "s\<lparr>s_state := SessOpened\<rparr>"
  let ?w2 = "put_session a ?s2 w"
  from assms(2) s obtain w3 where f: "fire_opened env a ?w2 = Inr w3"
    and r: "session_read a 8 w3 = Inr w'"
    by (auto simp: session_start_def bind_res_eq_Inr)
  have id2: "same_identity s ?s2" by (simp add: same_identity_def)
  have "Inv ?w2"
    using inv_put[OF assms(1) s _ id2] inv_session[OF assms(1) s]
    by (simp add: sess_ok_def write_ok_def)
  with f have "R ?w2 w3" by (auto simp: fire_opened_def split: option.splits dest: opened_rel)
  then show ?thesis using rel_put[OF s id2] session_read_rel[OF r] rel_trans by blast
qed

end

subsection \<open>The send queue against its specification\<close>

text \<open>
  Specification: the connection is a byte stream; sending appends the image of the message, and
  completions of writes do not change the stream. The abstraction of a session is what already
  went out followed by the images of the queued messages.
\<close>

definition valid_msg :: "Msg \<Rightarrow> bool" where
  "valid_msg m \<longleftrightarrow> wf_msg m \<and> 0 \<le> msg_bodyLength m \<and> msg_bodyLength m \<le> 1024"

definition msg_wire :: "Msg \<Rightarrow> bytes" where
  "msg_wire m = header_bytes (msg_hdr m) @ take (nat (msg_bodyLength m)) (msg_body m)"

definition stream_of :: "TcpSession \<Rightarrow> bytes" where
  "stream_of s = sock_out (s_socket s) @ concat (map msg_wire (s_sendQue s))"

datatype tx_op = TxSend Msg | TxDone

fun tx_step :: "tx_op \<Rightarrow> TcpSession \<Rightarrow> TcpSession res" where
  "tx_step (TxSend m) s = session_send m s"
| "tx_step TxDone s = (case s_writing s of
       [] \<Rightarrow> Inr s
     | buf # ws \<Rightarrow> handleWrite_next (s\<lparr>s_writing := ws,
         s_socket := (s_socket s)\<lparr>sock_out := sock_out (s_socket s) @ buf\<rparr>\<rparr>))"

fun tx_spec :: "tx_op \<Rightarrow> bytes" where
  "tx_spec (TxSend m) = msg_wire m"
| "tx_spec TxDone = []"

fun tx_valid :: "tx_op \<Rightarrow> bool" where
  "tx_valid (TxSend m) = valid_msg m"
| "tx_valid TxDone = True"

definition tx_inv :: "TcpSession \<Rightarrow> bool" where
  "tx_inv s \<longleftrightarrow> (\<forall>m \<in> set (s_sendQue s). valid_msg m) \<and>
     s_writing s = map msg_wire (take 1 (s_sendQue s))"

definition tx_gap :: "TcpSession \<Rightarrow> 64 word" where
  "tx_gap s = s_tx s - of_nat (length (sock_out (s_socket s)))"

lemma wire_image_msg_wire: "valid_msg m \<Longrightarrow> wire_image m = Inr (msg_wire m)"
  by (simp add: valid_msg_def msg_wire_def wire_image_valid)

lemma length_msg_wire: "valid_msg m \<Longrightarrow> int (length (msg_wire m)) = msg_length m"
  by (auto simp: valid_msg_def msg_wire_def wf_msg_def msg_length_def msg_bodyLength_def)

lemma complete_write_tx_step:
  assumes "heap w a = Some s" and "s_writing s \<noteq> []"
  shows "complete_write env a EcOk k w = upd_session a (tx_step TxDone) w"
  using assms by (auto simp: complete_write_def handleWrite_def write_out_def neq_Nil_conv)

lemma session_send_step:
  assumes "tx_inv s" and "valid_msg m"
  shows "\<exists>s'. session_send m s = Inr s' \<and> tx_inv s' \<and> stream_of s' = stream_of s @ msg_wire m \<and>
    tx_gap s' = tx_gap s"
  using assms
  by (cases "s_sendQue s")
    (auto simp: session_send_def begin_write_def wire_image_msg_wire tx_inv_def stream_of_def
      tx_gap_def)

lemma tx_done_step:
  assumes "tx_inv s"
  shows "\<exists>s'. tx_step TxDone s = Inr s' \<and> tx_inv s' \<and> stream_of s' = stream_of s \<and>
    tx_gap s' = tx_gap s \<and> s_sendQue s' = tl (s_sendQue s)"
proof (cases "s_sendQue s")
  case Nil
  then show ?thesis using assms by (auto simp: tx_inv_def)
next
  case (Cons m q)
  with assms have v: "valid_msg m" "\<forall>x \<in> set q. valid_msg x" and w: "s_writing s = [msg_wire m]"
    by (auto simp: tx_inv_def)
  have "(word_of_int (msg_length m) :: 64 word) = of_nat (length (msg_wire m))"
    unfolding length_msg_wire[OF v(1), symmetric] by simp
  with Cons v w show ?thesis
    by (cases q) (auto simp: handleWrite_next_def begin_write_def wire_image_msg_wire tx_inv_def
        stream_of_def tx_gap_def)
qed

lemma tx_step_refines:
  assumes "tx_inv s" and "tx_valid op"
  shows "\<exists>s'. tx_step op s = Inr s' \<and> tx_inv s' \<and> stream_of s' = stream_of s @ tx_spec op \<and>
    tx_gap s' = tx_gap s"
  using assms session_send_step tx_done_step by (cases op) fastforce+

lemma tx_run_refines:
  assumes "tx_inv s" and "\<forall>op \<in> set ops. tx_valid op"
  shows "\<exists>s'. fold_res tx_step ops s = Inr s' \<and> tx_inv s' \<and>
    stream_of s' = stream_of s @ concat (map tx_spec ops) \<and> tx_gap s' = tx_gap s"
  using assms
proof (induction ops arbitrary: s)
  case Nil
  then show ?case by simp
next
  case (Cons op ops)
  then obtain s1 where s1: "tx_step op s = Inr s1" "tx_inv s1"
    "stream_of s1 = stream_of s @ tx_spec op" "tx_gap s1 = tx_gap s"
    using tx_step_refines[of s op] by auto
  obtain s' where "fold_res tx_step ops s1 = Inr s'" "tx_inv s'"
    "stream_of s' = stream_of s1 @ concat (map tx_spec ops)" "tx_gap s' = tx_gap s1"
    using Cons.IH[OF s1(2)] Cons.prems by auto
  with s1 show ?case by simp
qed

lemma tx_drain:
  assumes "tx_inv s"
  shows "\<exists>s'. fold_res tx_step (replicate (length (s_sendQue s)) TxDone) s = Inr s' \<and>
    s_sendQue s' = [] \<and> sock_out (s_socket s') = stream_of s"
  using assms
proof (induction "length (s_sendQue s)" arbitrary: s)
  case 0
  then show ?case by (simp add: stream_of_def)
next
  case (Suc n)
  obtain s1 where s1: "tx_step TxDone s = Inr s1" "tx_inv s1" "stream_of s1 = stream_of s"
    "s_sendQue s1 = tl (s_sendQue s)"
    using tx_done_step[OF Suc.prems] by blast
  have len: "length (s_sendQue s) = Suc (length (s_sendQue s1))"
    using s1(4) Suc.hyps(2) by (cases "s_sendQue s") auto
  have "n = length (s_sendQue s1)" using Suc.hyps(2) len by simp
  from Suc.hyps(1)[OF this s1(2)] show ?case
    unfolding len s1(3)[symmetric] by (simp add: s1(1) del: tx_step.simps)
qed

text \<open>
  Sending one message to a set of sessions: exactly theirs grow, by the image, and their queues stay
  intact; every other session is untouched.
\<close>

definition streams_grow :: "addr set \<Rightarrow> bytes \<Rightarrow> 'a net_scheme \<Rightarrow> 'a net_scheme \<Rightarrow> bool" where
  "streams_grow B bs w w' \<longleftrightarrow> (\<forall>b. if b \<in> B
     then (\<exists>t t'. heap w b = Some t \<and> heap w' b = Some t' \<and> stream_of t' = stream_of t @ bs \<and> tx_inv t')
     else heap w' b = heap w b)"

lemma streams_grow_none [simp]: "streams_grow {} bs w w"
  by (simp add: streams_grow_def)

lemma streams_grow_heap: "heap v = heap w \<Longrightarrow> streams_grow B bs v w' = streams_grow B bs w w'"
  by (simp add: streams_grow_def)

lemma streams_grow_step:
  assumes "streams_grow B bs (put_session b t' w) w'" and "heap w b = Some t"
    and "stream_of t' = stream_of t @ bs" and "tx_inv t'" and "b \<notin> B"
  shows "streams_grow (insert b B) bs w w'"
  unfolding streams_grow_def
proof
  fix c
  show "if c \<in> insert b B
    then (\<exists>t t'. heap w c = Some t \<and> heap w' c = Some t' \<and> stream_of t' = stream_of t @ bs \<and> tx_inv t')
    else heap w' c = heap w c"
    using assms(1)[unfolded streams_grow_def, rule_format, of c] assms(2-)
    by (cases "c = b"; cases "c \<in> B") simp_all
qed

text \<open>
  The same, exactly: each of the sessions ran \<open>send\<close> once with the message.
\<close>

definition each_sent :: "addr set \<Rightarrow> Msg \<Rightarrow> 'a net_scheme \<Rightarrow> 'a net_scheme \<Rightarrow> bool" where
  "each_sent B m w w' \<longleftrightarrow> (\<forall>b. if b \<in> B
     then (\<exists>t t'. heap w b = Some t \<and> session_send m t = Inr t' \<and> heap w' b = Some t')
     else heap w' b = heap w b)"

lemma each_sent_none [simp]: "each_sent {} m w w"
  by (simp add: each_sent_def)

lemma each_sent_heap: "heap v = heap w \<Longrightarrow> each_sent B m v w' = each_sent B m w w'"
  by (simp add: each_sent_def)

lemma each_sent_step:
  assumes "each_sent B m (put_session b t' w) w'" and "heap w b = Some t" and "session_send m t = Inr t'"
    and "b \<notin> B"
  shows "each_sent (insert b B) m w w'"
  unfolding each_sent_def
proof
  fix c
  show "if c \<in> insert b B
    then (\<exists>t t'. heap w c = Some t \<and> session_send m t = Inr t' \<and> heap w' c = Some t')
    else heap w' c = heap w c"
    using assms(1)[unfolded each_sent_def, rule_format, of c] assms(2-)
    by (cases "c = b"; cases "c \<in> B") simp_all
qed

lemma each_sent_grows:
  assumes "each_sent B m w w'" and "valid_msg m" and "\<forall>b \<in> B. \<exists>t. heap w b = Some t \<and> tx_inv t"
  shows "streams_grow B (msg_wire m) w w'"
  unfolding streams_grow_def
proof
  fix b
  show "if b \<in> B
    then (\<exists>t t'. heap w b = Some t \<and> heap w' b = Some t' \<and> stream_of t' = stream_of t @ msg_wire m \<and> tx_inv t')
    else heap w' b = heap w b"
  proof (cases "b \<in> B")
    case True
    then obtain t where t: "heap w b = Some t" "tx_inv t" using assms(3) by blast
    then show ?thesis
      using True assms(1)[unfolded each_sent_def, rule_format, of b] session_send_step[OF t(2) assms(2)] by auto
  next
    case False
    then show ?thesis using assms(1)[unfolded each_sent_def, rule_format, of b] by simp
  qed
qed

subsection \<open>Receiving one message\<close>

text \<open>The session after header and body of \<open>m\<close> arrived, just before its handler is called.\<close>

definition received :: "Msg \<Rightarrow> TcpSession \<Rightarrow> TcpSession" where
  "received m s =
     s\<lparr>s_msg := \<lparr>msg_hdr = msg_hdr m,
         msg_body = overlay 0 (take (nat (msg_bodyLength m)) (msg_body m)) (msg_body (s_msg s))\<rparr>,
       s_reading := [], s_rx := s_rx s + word_of_int (msg_length m)\<rparr>"

lemma complete_header:
  assumes s: "heap w a = Some s" "s_reading s = [RdHeader n]"
    and "checkHeader m"
  shows "complete_read env a EcOk (header_bytes (msg_hdr m)) w = Inr (put_session a
    (s\<lparr>s_msg := (s_msg s)\<lparr>msg_hdr := msg_hdr m\<rparr>,
       s_reading := [RdBody (unat (word_of_int (msg_bodyLength m) :: 64 word))]\<rparr>) w)"
  using assms
  by (simp add: complete_read_def deposit_header handleReadHeader_def checkHeader_iff
      msg_bodyLength_def)

lemma complete_body:
  assumes s: "heap w a = Some s" "s_reading s = [RdBody n]"
    and "length body \<le> 1024"
  shows "complete_read env a EcOk body w = handleReadBody env a EcOk (put_session a
    (s\<lparr>s_msg := (s_msg s)\<lparr>msg_body := overlay 0 body (msg_body (s_msg s))\<rparr>, s_reading := []\<rparr>) w)"
  using assms by (simp add: complete_read_def deposit_body)

lemma receive_eq:
  assumes s: "heap w a = Some s" "s_reading s = [RdHeader n]" "s_messageHandler s = Some h"
    and m: "checkHeader m" "valid_msg m"
  shows "bind_res (complete_read env a EcOk (header_bytes (msg_hdr m)) w)
      (complete_read env a EcOk (take (nat (msg_bodyLength m)) (msg_body m))) =
    bind_res (run_message env h a (put_session a (received m s) w)) (session_read a hdrLength)"
proof -
  let ?b = "take (nat (msg_bodyLength m)) (msg_body m)"
  let ?n = "unat (word_of_int (msg_bodyLength m) :: 64 word)"
  let ?s1 = "s\<lparr>s_msg := (s_msg s)\<lparr>msg_hdr := msg_hdr m\<rparr>, s_reading := [RdBody ?n]\<rparr>"
  have len: "length ?b \<le> 1024" using m(2) by (simp add: valid_msg_def wf_msg_def)
  have "complete_read env a EcOk ?b (put_session a ?s1 w) =
      handleReadBody env a EcOk (put_session a (?s1\<lparr>s_msg := (s_msg ?s1)
        \<lparr>msg_body := overlay 0 ?b (msg_body (s_msg ?s1))\<rparr>, s_reading := []\<rparr>) w)"
    using complete_body[OF _ _ len, of "put_session a ?s1 w" a ?s1 ?n] by simp
  moreover have "handleReadBody env a EcOk (put_session a (?s1\<lparr>s_msg := (s_msg ?s1)
        \<lparr>msg_body := overlay 0 ?b (msg_body (s_msg ?s1))\<rparr>, s_reading := []\<rparr>) w) =
      bind_res (run_message env h a (put_session a (received m s) w)) (session_read a hdrLength)"
    using s(3) by (cases "s_msg s")
      (simp add: handleReadBody_def fire_message_def received_def msg_length_def)
  ultimately show ?thesis using complete_header[OF s(1,2) m(1)] by simp
qed

subsection \<open>Concrete objects for the witnesses\<close>

definition zero_msg :: Msg where
  "zero_msg = \<lparr>msg_hdr = \<lparr>hdr_version = 0, hdr_result = 0, hdr_bodyLength = 0, hdr_msgId = 0\<rparr>,
     msg_body = replicate 1024 0\<rparr>"

definition hi_msg :: Msg where
  "hi_msg = \<lparr>msg_hdr = \<lparr>hdr_version = 1, hdr_result = 0, hdr_bodyLength = 2, hdr_msgId = 3\<rparr>,
     msg_body = [72, 105] @ replicate 1022 0\<rparr>"

definition idle_session :: TcpSession where
  "idle_session = TcpSession_client fresh_socket ClientConfig_default (''127.0.0.1'', 20000)
     zero_msg 0 0"

definition counting_env :: "net env" where
  "counting_env = \<lparr>run_opened = (\<lambda>h a w. Inr w), run_closed = (\<lambda>h a r w. Inr w),
     run_message = (\<lambda>h a w. Inr w)\<rparr>"

lemma hi_msg_valid: "valid_msg hi_msg" "checkHeader hi_msg"
  by (simp_all add: hi_msg_def valid_msg_def wf_msg_def msg_bodyLength_def checkHeader_iff)

lemma idle_session_simps [simp]:
  "s_sendQue idle_session = []" "s_writing idle_session = []" "s_reading idle_session = []"
  "sock_out (s_socket idle_session) = []" "s_msg idle_session = zero_msg"
  "s_messageHandler idle_session = None" "s_state idle_session = SessReady"
  by (simp_all add: idle_session_def TcpSession_client_def fresh_socket_def)

lemma tx_inv_idle: "tx_inv idle_session"
  by (simp add: tx_inv_def)

subsection \<open>Properties\<close>

text \<open>
  C8. The send queue implements a byte stream. From a session whose queue is consistent, any
  sequence of \<open>send\<close> calls with valid messages and of write completions runs without failure;
  what went out followed by the queued images is the old stream followed by the images of the sent
  messages in order; one write is outstanding exactly while messages are queued, and it sends the
  front; the counter \<open>_tx\<close> advances by the number of bytes that went out.
\<close>

theorem send_queue_refines_stream:
  assumes "tx_inv s" and "\<forall>op \<in> set ops. tx_valid op"
  shows "\<exists>s'. fold_res tx_step ops s = Inr s' \<and>
    stream_of s' = stream_of s @ concat (map tx_spec ops) \<and>
    s_writing s' = map msg_wire (take 1 (s_sendQue s')) \<and>
    s_tx s' - of_nat (length (sock_out (s_socket s'))) =
      s_tx s - of_nat (length (sock_out (s_socket s)))"
  using tx_run_refines[OF assms] by (auto simp: tx_inv_def tx_gap_def)

theorem send_queue_refines_stream_witness:
  "\<exists>s'. fold_res tx_step [TxSend hi_msg, TxSend hi_msg, TxDone] idle_session = Inr s' \<and>
    stream_of s' = msg_wire hi_msg @ msg_wire hi_msg"
  using send_queue_refines_stream[OF tx_inv_idle, of "[TxSend hi_msg, TxSend hi_msg, TxDone]"]
  by (auto simp: hi_msg_valid stream_of_def)

text \<open>
  C24. The queue drains: as many write completions as there are queued messages empty the queue,
  and then exactly the stream has gone out.
\<close>

theorem send_queue_drains:
  assumes "tx_inv s"
  shows "\<exists>s'. fold_res tx_step (replicate (length (s_sendQue s)) TxDone) s = Inr s' \<and>
    s_sendQue s' = [] \<and> sock_out (s_socket s') = stream_of s"
  using tx_drain[OF assms] .

theorem send_queue_drains_witness:
  "\<exists>s'. fold_res tx_step (replicate (length (s_sendQue idle_session)) TxDone) idle_session = Inr s' \<and>
    s_sendQue s' = [] \<and> sock_out (s_socket s') = stream_of idle_session"
  using send_queue_drains[OF tx_inv_idle] .

text \<open>
  C9. Receiving: when a session waits for a header and the header and then the announced body of a
  valid message arrive complete, the message handler is called exactly once, on the session
  holding that header and body (over stale bytes) with \<open>_rx\<close> advanced by the message length, and
  afterwards the session waits for the next header.
\<close>

theorem receive_delivers_message:
  assumes "heap w a = Some s" and "s_reading s = [RdHeader n]" and "s_messageHandler s = Some h"
    and "checkHeader m" and "valid_msg m"
  shows "bind_res (complete_read env a EcOk (header_bytes (msg_hdr m)) w)
      (complete_read env a EcOk (take (nat (msg_bodyLength m)) (msg_body m))) =
    bind_res (run_message env h a (put_session a (received m s) w)) (session_read a hdrLength)"
  using receive_eq[OF assms] .

theorem receive_delivers_message_witness:
  "bind_res (complete_read counting_env 7 EcOk (header_bytes (msg_hdr hi_msg))
       \<lparr>heap = (\<lambda>_. None)(7 \<mapsto> idle_session\<lparr>s_reading := [RdHeader 8], s_messageHandler := Some 0\<rparr>)\<rparr>)
     (complete_read counting_env 7 EcOk (take (nat (msg_bodyLength hi_msg)) (msg_body hi_msg))) =
   session_read 7 8 (put_session 7
     (received hi_msg (idle_session\<lparr>s_reading := [RdHeader 8], s_messageHandler := Some 0\<rparr>))
       \<lparr>heap = (\<lambda>_. None)(7 \<mapsto> idle_session\<lparr>s_reading := [RdHeader 8], s_messageHandler := Some 0\<rparr>)\<rparr>)"
  using receive_delivers_message
    [of "\<lparr>heap = (\<lambda>_. None)(7 \<mapsto> idle_session\<lparr>s_reading := [RdHeader 8], s_messageHandler := Some 0\<rparr>)\<rparr>"
      7 "idle_session\<lparr>s_reading := [RdHeader 8], s_messageHandler := Some 0\<rparr>" 8 0 hi_msg counting_env]
  by (simp add: hi_msg_valid counting_env_def)

text \<open>
  C25. A header read that completes short is taken for a whole header: the missing bytes are the
  ones the previous header left in the object, and the next outstanding read is chosen from that
  mixture, so the rest of the real header is read as something else.
\<close>

theorem short_header_read_uses_stale_bytes:
  assumes "heap w a = Some s" and "s_reading s = [RdHeader 8]" and "length chunk < 8"
  shows "complete_read env a EcOk chunk w = handleReadHeader env a EcOk (put_session a
    (s\<lparr>s_msg := (s_msg s)\<lparr>msg_hdr :=
         header_of_bytes (chunk @ drop (length chunk) (header_bytes (msg_hdr (s_msg s))))\<rparr>,
       s_reading := []\<rparr>) w)"
  using assms
  by (cases "s_msg s") (simp add: complete_read_def deposit_def overlay_def msg_of_bytes_def msg_bytes_def)

theorem short_header_read_uses_stale_bytes_witness:
  "\<exists>w'. complete_read counting_env 7 EcOk [1]
       \<lparr>heap = (\<lambda>_. None)(7 \<mapsto> idle_session\<lparr>s_reading := [RdHeader 8]\<rparr>)\<rparr> = Inr w' \<and>
     map_option s_reading (heap w' 7) = Some [RdBody 0]"
  using short_header_read_uses_stale_bytes
    [of "\<lparr>heap = (\<lambda>_. None)(7 \<mapsto> idle_session\<lparr>s_reading := [RdHeader 8]\<rparr>)\<rparr>" 7
       "idle_session\<lparr>s_reading := [RdHeader 8]\<rparr>" "[1]" counting_env]
  by (simp add: handleReadHeader_def zero_msg_def header_bytes_def le16_def le32_def checkHeader_def
      msg_bodyLength_def rd16_def)

text \<open>
  An error on a header read, the normal way a disconnect shows, is swallowed: whatever the
  error and the handlers, the session only loses its outstanding read; no handler runs, so the
  owner never learns that the peer is gone.
\<close>

theorem header_read_error_swallowed:
  assumes "heap w a = Some s" and "s_reading s = RdHeader n # rs" and "ec \<noteq> EcOk"
  shows "complete_read env a ec [] w = Inr (put_session a (s\<lparr>s_reading := rs\<rparr>) w)"
  using assms by (cases s) (simp add: complete_read_def deposit_def)

theorem header_read_error_swallowed_witness:
  "complete_read counting_env 7 EcEof []
     \<lparr>heap = (\<lambda>_. None)(7 \<mapsto> idle_session\<lparr>s_reading := [RdHeader 8]\<rparr>)\<rparr> =
   Inr (put_session 7 (idle_session\<lparr>s_reading := []\<rparr>)
     \<lparr>heap = (\<lambda>_. None)(7 \<mapsto> idle_session\<lparr>s_reading := [RdHeader 8]\<rparr>)\<rparr>)"
  using header_read_error_swallowed
    [of "\<lparr>heap = (\<lambda>_. None)(7 \<mapsto> idle_session\<lparr>s_reading := [RdHeader 8]\<rparr>)\<rparr>" 7
       "idle_session\<lparr>s_reading := [RdHeader 8]\<rparr>" 8 "[]" EcEof counting_env]
  by simp

text \<open>
  An error on a body read or on a write does reach the owner: the closed handler is called
  with \<open>Disconnected\<close> for end of file and aborted operations and with \<open>ActiveClose\<close> for every
  other error, the failed operation is no longer outstanding, and the queue is not popped.
\<close>

theorem body_and_write_errors_reported:
  assumes "heap w a = Some s" and "s_closedHandler s = Some h" and "ec \<noteq> EcOk"
  shows "(\<forall>n rs. s_reading s = RdBody n # rs \<longrightarrow> complete_read env a ec [] w =
        run_closed env h a (if ec = EcEof \<or> ec = EcAborted then Disconnected else ActiveClose)
          (put_session a (s\<lparr>s_reading := rs\<rparr>) w)) \<and>
    (\<forall>buf ws. s_writing s = buf # ws \<longrightarrow> complete_write env a ec k w =
        run_closed env h a (if ec = EcEof \<or> ec = EcAborted then Disconnected else ActiveClose)
          (put_session a (s\<lparr>s_writing := ws,
             s_socket := (s_socket s)\<lparr>sock_out := sock_out (s_socket s) @ take k buf\<rparr>\<rparr>) w))"
  using assms
  by (cases s) (simp add: complete_read_def complete_write_def handleReadBody_def handleWrite_def
      fire_closed_def close_reason_def write_out_def deposit_def)

theorem body_and_write_errors_reported_witness:
  "complete_read counting_env 7 EcEof []
     \<lparr>heap = (\<lambda>_. None)(7 \<mapsto> idle_session\<lparr>s_reading := [RdBody 2], s_closedHandler := Some 0\<rparr>)\<rparr> =
   Inr (put_session 7 (idle_session\<lparr>s_closedHandler := Some 0, s_reading := []\<rparr>)
     \<lparr>heap = (\<lambda>_. None)(7 \<mapsto> idle_session\<lparr>s_reading := [RdBody 2], s_closedHandler := Some 0\<rparr>)\<rparr>)"
  using body_and_write_errors_reported
    [of "\<lparr>heap = (\<lambda>_. None)(7 \<mapsto> idle_session\<lparr>s_reading := [RdBody 2], s_closedHandler := Some 0\<rparr>)\<rparr>" 7
       "idle_session\<lparr>s_reading := [RdBody 2], s_closedHandler := Some 0\<rparr>" 0 EcEof counting_env]
  by (simp add: counting_env_def)

text \<open>
  C22. A peer can overflow the message object: a header with version 1 and a negative length is
  accepted and arms a body read of more than \<open>2 ^ 63\<close> bytes, and any completion of that read with
  more than 1024 bytes writes past the object.
\<close>

theorem negative_length_overflows:
  assumes "heap w a = Some s" and "s_reading s = [RdHeader 8]"
    and "hdr_version (msg_hdr m) = 1" and "msg_bodyLength m < 0" and "1024 < length chunk"
  shows "\<exists>w1 s1 n. complete_read env a EcOk (header_bytes (msg_hdr m)) w = Inr w1 \<and>
    heap w1 a = Some s1 \<and> s_reading s1 = [RdBody n] \<and> 2 ^ 63 < n \<and>
    complete_read env a EcOk chunk w1 = Inl BufferOverflow"
proof -
  let ?n = "unat (word_of_int (msg_bodyLength m) :: 64 word)"
  have c: "checkHeader m" using assms(3,4) by (simp add: checkHeader_iff)
  have "?n = nat (2 ^ 64 + msg_bodyLength m)"
    using assms(4) sint16_range(1)[of "hdr_bodyLength (msg_hdr m)"]
    by (intro unat_size_neg) (auto simp: msg_bodyLength_def)
  then have "2 ^ 63 < ?n"
    using sint16_range(1)[of "hdr_bodyLength (msg_hdr m)"] by (simp add: msg_bodyLength_def)
  then show ?thesis
    using complete_header[OF assms(1,2) c] assms(5) by (simp add: complete_read_def deposit_def)
qed

theorem negative_length_overflows_witness:
  "\<exists>w1 s1 n. complete_read counting_env 7 EcOk
      (header_bytes \<lparr>hdr_version = 1, hdr_result = 0, hdr_bodyLength = 0xFFFF, hdr_msgId = 3\<rparr>)
       \<lparr>heap = (\<lambda>_. None)(7 \<mapsto> idle_session\<lparr>s_reading := [RdHeader 8]\<rparr>)\<rparr> = Inr w1 \<and>
    heap w1 7 = Some s1 \<and> s_reading s1 = [RdBody n] \<and> 2 ^ 63 < n \<and>
    complete_read counting_env 7 EcOk (replicate 1025 0) w1 = Inl BufferOverflow"
  using negative_length_overflows
    [of "\<lparr>heap = (\<lambda>_. None)(7 \<mapsto> idle_session\<lparr>s_reading := [RdHeader 8]\<rparr>)\<rparr>" 7
       "idle_session\<lparr>s_reading := [RdHeader 8]\<rparr>"
       "\<lparr>msg_hdr = \<lparr>hdr_version = 1, hdr_result = 0, hdr_bodyLength = 0xFFFF, hdr_msgId = 3\<rparr>,
         msg_body = []\<rparr>" "replicate 1025 0" counting_env]
  by (simp add: msg_bodyLength_def)

end
