(* ===== verification/Std_Map.thy ===== *)
theory Std_Map
  imports Torinet_Prelude
begin

text \<open>
  \<open>std::map\<close> as the program uses it: the session registry of \<open>TcpServer\<close>, the rooms and
  characters of \<open>ChatServer\<close> and the command table of the clients. A map is the list of its
  entries in key order, which is also the order its iterators visit them. The locale
  \<open>ordered_registry\<close> is the interface the clients reason with; it is interpreted on the
  operations below.
\<close>

type_synonym ('k, 'v) smap = "('k \<times> 'v) list"

definition smap_inv :: "('k::linorder, 'v) smap \<Rightarrow> bool" where
  "smap_inv m \<longleftrightarrow> sorted_wrt (<) (map fst m)"

fun map_find :: "'k::linorder \<Rightarrow> ('k, 'v) smap \<Rightarrow> 'v option" where
  "map_find k [] = None"
| "map_find k ((k', v) # m) =
     (if k < k' then None else if k = k' then Some v else map_find k m)"

text \<open>\<open>emplace\<close> and \<open>insert\<close> leave an existing entry alone.\<close>

fun map_emplace :: "'k::linorder \<Rightarrow> 'v \<Rightarrow> ('k, 'v) smap \<Rightarrow> ('k, 'v) smap" where
  "map_emplace k v [] = [(k, v)]"
| "map_emplace k v ((k', v') # m) =
     (if k < k' then (k, v) # (k', v') # m
      else if k = k' then (k', v') # m
      else (k', v') # map_emplace k v m)"

text \<open>\<open>m[k] = v\<close> overwrites.\<close>

fun map_assign :: "'k::linorder \<Rightarrow> 'v \<Rightarrow> ('k, 'v) smap \<Rightarrow> ('k, 'v) smap" where
  "map_assign k v [] = [(k, v)]"
| "map_assign k v ((k', v') # m) =
     (if k < k' then (k, v) # (k', v') # m
      else if k = k' then (k, v) # m
      else (k', v') # map_assign k v m)"

fun map_erase :: "'k::linorder \<Rightarrow> ('k, 'v) smap \<Rightarrow> ('k, 'v) smap" where
  "map_erase k [] = []"
| "map_erase k ((k', v) # m) =
     (if k < k' then (k', v) # m else if k = k' then m else (k', v) # map_erase k m)"

definition map_keys :: "('k, 'v) smap \<Rightarrow> 'k set" where
  "map_keys m = fst ` set m"

subsection \<open>The interface\<close>

locale ordered_registry =
  fixes inv :: "'m \<Rightarrow> bool"
    and find :: "'k::linorder \<Rightarrow> 'm \<Rightarrow> 'v option"
    and emplace :: "'k \<Rightarrow> 'v \<Rightarrow> 'm \<Rightarrow> 'm"
    and assign :: "'k \<Rightarrow> 'v \<Rightarrow> 'm \<Rightarrow> 'm"
    and erase :: "'k \<Rightarrow> 'm \<Rightarrow> 'm"
    and items :: "'m \<Rightarrow> ('k \<times> 'v) list"
  assumes find_emplace: "inv m \<Longrightarrow>
      find j (emplace k v m) = (if j = k \<and> find k m = None then Some v else find j m)"
    and find_assign: "inv m \<Longrightarrow> find j (assign k v m) = (if j = k then Some v else find j m)"
    and find_erase: "inv m \<Longrightarrow> find j (erase k m) = (if j = k then None else find j m)"
    and inv_emplace: "inv m \<Longrightarrow> inv (emplace k v m)"
    and inv_assign: "inv m \<Longrightarrow> inv (assign k v m)"
    and inv_erase: "inv m \<Longrightarrow> inv (erase k m)"
    and items_ordered: "inv m \<Longrightarrow> sorted_wrt (<) (map fst (items m))"
    and items_find: "inv m \<Longrightarrow> (k, v) \<in> set (items m) \<longleftrightarrow> find k m = Some v"
begin

lemma items_distinct: "inv m \<Longrightarrow> distinct (map fst (items m))"
  using items_ordered strict_sorted_iff by blast

lemma keys_find: "inv m \<Longrightarrow> k \<in> fst ` set (items m) \<longleftrightarrow> find k m \<noteq> None"
  using items_find by force

lemma keys_emplace: "inv m \<Longrightarrow> fst ` set (items (emplace k v m)) = insert k (fst ` set (items m))"
  by (rule set_eqI) (auto simp only: keys_find inv_emplace find_emplace insert_iff split: if_splits)

lemma keys_erase: "inv m \<Longrightarrow> fst ` set (items (erase k m)) = fst ` set (items m) - {k}"
  by (rule set_eqI) (simp add: keys_find inv_erase find_erase)

lemma size_card: "inv m \<Longrightarrow> length (items m) = card (fst ` set (items m))"
  using items_distinct distinct_card by (metis length_map list.set_map)

text \<open>Two counting facts for registries whose keys come from a fixed finite pool.\<close>

lemma size_within_pool:
  "inv m \<Longrightarrow> finite K \<Longrightarrow> fst ` set (items m) \<subseteq> K \<Longrightarrow> length (items m) \<le> card K"
  by (simp add: size_card card_mono)

lemma size_covers_pool:
  "inv m \<Longrightarrow> K \<subseteq> fst ` set (items m) \<Longrightarrow> card K \<le> length (items m)"
  by (simp add: size_card card_mono)

lemma emplace_fresh_size:
  "inv m \<Longrightarrow> find k m = None \<Longrightarrow> length (items (emplace k v m)) = Suc (length (items m))"
  using keys_find[of m k] by (simp add: size_card inv_emplace keys_emplace card_insert_if)

lemma emplace_present_same:
  "inv m \<Longrightarrow> find k m \<noteq> None \<Longrightarrow> find j (emplace k v m) = find j m"
  by (auto simp: find_emplace)

end

subsection \<open>The entry list implements it\<close>

lemma smap_inv_Nil [simp]: "smap_inv []"
  by (simp add: smap_inv_def)

lemma smap_inv_Cons:
  "smap_inv ((k, v) # m) \<longleftrightarrow> (\<forall>x \<in> map_keys m. k < x) \<and> smap_inv m"
  by (auto simp: smap_inv_def map_keys_def)

lemma map_keys_simps [simp]:
  "map_keys [] = {}" "map_keys ((k, v) # m) = insert k (map_keys m)"
  by (auto simp: map_keys_def)

lemma map_find_None: "\<forall>x \<in> map_keys m. k < x \<Longrightarrow> map_find k m = None"
  by (cases m) auto

lemma map_find_iff: "smap_inv m \<Longrightarrow> (k, v) \<in> set m \<longleftrightarrow> map_find k m = Some v"
proof (induction m)
  case (Cons p m)
  obtain j u where p: "p = (j, u)" by fastforce
  with Cons.prems have lt: "\<forall>x \<in> map_keys m. j < x" and inv: "smap_inv m"
    by (auto simp: smap_inv_Cons)
  have "k \<le> j \<Longrightarrow> (k, v) \<notin> set m"
    using lt by (force simp: map_keys_def)
  with Cons.IH[OF inv] p show ?case by auto
qed simp

lemma keys_map_emplace: "map_keys (map_emplace k v m) = insert k (map_keys m)"
  by (induction k v m rule: map_emplace.induct) auto

lemma keys_map_assign: "map_keys (map_assign k v m) = insert k (map_keys m)"
  by (induction k v m rule: map_assign.induct) auto

lemma keys_map_erase: "map_keys (map_erase k m) \<subseteq> map_keys m"
  by (induction k m rule: map_erase.induct) auto

lemma smap_inv_map_emplace: "smap_inv m \<Longrightarrow> smap_inv (map_emplace k v m)"
  by (induction k v m rule: map_emplace.induct) (auto simp: smap_inv_Cons keys_map_emplace)

lemma smap_inv_map_assign: "smap_inv m \<Longrightarrow> smap_inv (map_assign k v m)"
  by (induction k v m rule: map_assign.induct) (auto simp: smap_inv_Cons keys_map_assign)

lemma smap_inv_map_erase: "smap_inv m \<Longrightarrow> smap_inv (map_erase k m)"
  by (induction k m rule: map_erase.induct)
    (use keys_map_erase in \<open>fastforce simp: smap_inv_Cons\<close>)+

lemma map_find_emplace:
  "smap_inv m \<Longrightarrow> map_find j (map_emplace k v m) =
     (if j = k \<and> map_find k m = None then Some v else map_find j m)"
  by (induction k v m rule: map_emplace.induct) (auto simp: smap_inv_Cons map_find_None)

lemma map_find_assign:
  "smap_inv m \<Longrightarrow> map_find j (map_assign k v m) = (if j = k then Some v else map_find j m)"
  by (induction k v m rule: map_assign.induct) (auto simp: smap_inv_Cons map_find_None)

lemma map_find_erase:
  "smap_inv m \<Longrightarrow> map_find j (map_erase k m) = (if j = k then None else map_find j m)"
proof (induction k m rule: map_erase.induct)
  case (2 k k' v m)
  then have "j \<le> k' \<Longrightarrow> map_find j m = None"
    by (intro map_find_None) (auto simp: smap_inv_Cons)
  with 2 show ?case by (auto simp: smap_inv_Cons)
qed simp

interpretation sm: ordered_registry smap_inv map_find map_emplace map_assign map_erase "\<lambda>m. m"
  by unfold_locales
    (auto simp: map_find_emplace map_find_assign map_find_erase smap_inv_map_emplace
      smap_inv_map_assign smap_inv_map_erase map_find_iff, simp add: smap_inv_def)

lemmas smap_facts = sm.keys_emplace[folded map_keys_def] sm.keys_erase[folded map_keys_def]
  smap_inv_map_emplace smap_inv_map_erase

end
