(* ===== verification/Tcp_Server.thy ===== *)
theory Tcp_Server
  imports Tcp_Session Std_Map
begin

text \<open>
  The TCP server: \<open>Src/Server.h\<close>, \<open>Src/TcpServer.h\<close> and \<open>Src/TcpServer.cpp\<close>.

  The world of the sessions is extended with the members of the server. Session identifiers come
  from a deque of free identifiers and return to it when a session reports that it closed; the
  registry maps identifiers to sessions. Completion handlers run one at a time: with one thread
  in the pool, the default, exactly one thread is not blocked in a nested \<open>run()\<close>. The lock
  around the registry therefore needs no model.
\<close>

subsection \<open>Data\<close>

datatype SrvState = SrvReady | SrvStart | SrvStop

record acceptor =
  acc_endpoint :: endpoint
  acc_open :: bool

record tcp_world = net +
  srv_name :: string
  srv_config :: ServerConfig
  srv_state :: SrvState
  srv_pool :: IoServicePool
  srv_free :: "int list"
  srv_sessions :: "(int, addr) smap"
  srv_openedHandler :: "hfun option"
  srv_closedHandler :: "hfun option"
  srv_messageHandler :: "hfun option"
  srv_acceptor :: "acceptor option"
  srv_socket :: "tcp_socket option"
  srv_accepting :: nat
  srv_alloc :: addr

text \<open>
  What the operating system decides: which address strings parse and which endpoints can be
  opened, bound and listened on. Both throw when they fail.
\<close>

record os_env =
  os_parse :: "string \<Rightarrow> bool"
  os_bind :: "endpoint \<Rightarrow> bool"

subsection \<open>Construction, registration and queries\<close>

text \<open>The constructor's loop with its \<open>int\<close> counter.\<close>

fun free_ids_loop :: "nat \<Rightarrow> int \<Rightarrow> int list \<Rightarrow> int list res" where
  "free_ids_loop 0 i q = Inr q"
| "free_ids_loop (Suc n) i q =
     (if i + 1 \<ge> 2 ^ 31 then Inl SignedOverflow else free_ids_loop n (i + 1) (q @ [i + 1]))"

definition TcpServer_new :: "string \<Rightarrow> ServerConfig \<Rightarrow> tcp_world res" where
  "TcpServer_new name config =
     bind_res (free_ids_loop (maxSession config) 0 []) (\<lambda>free.
       Inr \<lparr>heap = (\<lambda>_. None), srv_name = name, srv_config = config, srv_state = SrvReady,
         srv_pool = IoServicePool_new (threadCount config), srv_free = free, srv_sessions = [],
         srv_openedHandler = None, srv_closedHandler = None, srv_messageHandler = None,
         srv_acceptor = None, srv_socket = None, srv_accepting = 0, srv_alloc = 0\<rparr>)"

definition getState :: "'a tcp_world_scheme \<Rightarrow> SrvState" where
  "getState w = srv_state w"

definition getIoServicePool :: "'a tcp_world_scheme \<Rightarrow> IoServicePool" where
  "getIoServicePool w = srv_pool w"

definition getSession :: "int \<Rightarrow> 'a tcp_world_scheme \<Rightarrow> addr option" where
  "getSession i w = map_find i (srv_sessions w)"

definition registerSessionOpenedHandler :: "hfun \<Rightarrow> 'a tcp_world_scheme \<Rightarrow> 'a tcp_world_scheme" where
  "registerSessionOpenedHandler h w = w\<lparr>srv_openedHandler := Some h\<rparr>"

definition registerSessionClosedHandler :: "hfun \<Rightarrow> 'a tcp_world_scheme \<Rightarrow> 'a tcp_world_scheme" where
  "registerSessionClosedHandler h w = w\<lparr>srv_closedHandler := Some h\<rparr>"

definition registerMessageHandler :: "hfun \<Rightarrow> 'a tcp_world_scheme \<Rightarrow> 'a tcp_world_scheme" where
  "registerMessageHandler h w = w\<lparr>srv_messageHandler := Some h\<rparr>"

subsection \<open>Closing sessions\<close>

definition handleClose ::
  "'a tcp_world_scheme env \<Rightarrow> addr \<Rightarrow> CloseReason \<Rightarrow> 'a tcp_world_scheme \<Rightarrow> 'a tcp_world_scheme res" where
  "handleClose env a reason w =
     bind_res (case srv_closedHandler w of None \<Rightarrow> Inr w | Some h \<Rightarrow> run_closed env h a reason w)
       (\<lambda>w1. with_session a (\<lambda>s.
          let i = getID s in
          Inr (w1\<lparr>srv_sessions := map_erase i (srv_sessions w1), srv_free := srv_free w1 @ [i]\<rparr>)) w1)"

text \<open>
  The handlers as the sessions of this server see them: opened and message handlers are copies of
  the server's, the closed handler is the lambda that calls \<open>handleClose\<close>.
\<close>

definition server_env :: "'a tcp_world_scheme env \<Rightarrow> 'a tcp_world_scheme env" where
  "server_env env = env\<lparr>run_closed := (\<lambda>h. handleClose env)\<rparr>"

definition close_lambda :: hfun where "close_lambda = 0"

subsection \<open>Accepting\<close>

definition startAccept :: "'a tcp_world_scheme \<Rightarrow> 'a tcp_world_scheme res" where
  "startAccept w =
     bind_res (getIoService (srv_pool w)) (\<lambda>(i, p).
       let w1 = w\<lparr>srv_pool := p, srv_socket := Some fresh_socket\<rparr>
       in case srv_acceptor w1 of
            None \<Rightarrow> Inl NullDeref
          | Some acc \<Rightarrow> Inr (w1\<lparr>srv_accepting := srv_accepting w1 + 1,
                              srv_pool := pool_run (srv_pool w1)\<rparr>))"

text \<open>
  The accepted connection: identifier from the front of the free deque, a new session object at a
  fresh address, registration, and \<open>start()\<close>. \<open>peer\<close> is the endpoint of the connected socket,
  \<open>None\<close> when it is already gone; \<open>msg0\<close>, \<open>tx0\<close>, \<open>rx0\<close> are the indeterminate initial values.
\<close>

definition register_session ::
  "endpoint option \<Rightarrow> Msg \<Rightarrow> 64 word \<Rightarrow> 64 word \<Rightarrow> 'a tcp_world_scheme
     \<Rightarrow> (addr \<times> 'a tcp_world_scheme) res" where
  "register_session peer msg0 tx0 rx0 w =
     (case srv_free w of
        [] \<Rightarrow> Inl EmptyContainer
      | i # free \<Rightarrow> (case srv_socket w of
          None \<Rightarrow> Inl NullDeref
        | Some sock \<Rightarrow>
            bind_res (TcpSession_server (sock\<lparr>sock_open := True, sock_peer := peer\<rparr>) i (srv_config w)
                        msg0 tx0 rx0) (\<lambda>s.
              let a = srv_alloc w;
                  s1 = s\<lparr>s_openedHandler := srv_openedHandler w, s_closedHandler := Some close_lambda,
                         s_messageHandler := srv_messageHandler w\<rparr>;
                  w1 = put_session a s1 (w\<lparr>srv_free := free, srv_socket := None, srv_alloc := a + 1\<rparr>)
              in Inr (a, w1\<lparr>srv_sessions := map_emplace (getID s1) a (srv_sessions w1)\<rparr>))))"

definition complete_accept ::
  "'a tcp_world_scheme env \<Rightarrow> error_code \<Rightarrow> endpoint option \<Rightarrow> Msg \<Rightarrow> 64 word \<Rightarrow> 64 word
     \<Rightarrow> 'a tcp_world_scheme \<Rightarrow> 'a tcp_world_scheme res" where
  "complete_accept env ec peer msg0 tx0 rx0 w =
     (if srv_accepting w = 0 then Inr w
      else
        let w0 = w\<lparr>srv_accepting := srv_accepting w - 1\<rparr> in
        if ec \<noteq> EcOk then Inr w0
        else if srv_state w0 = SrvStop \<or> length (srv_sessions w0) \<ge> maxSession (srv_config w0)
        then (case srv_socket w0 of
                None \<Rightarrow> Inl NullDeref
              | Some sock \<Rightarrow> Inr (w0\<lparr>srv_socket := None\<rparr>))
        else
          bind_res (register_session peer msg0 tx0 rx0 w0) (\<lambda>(a, w1).
          bind_res (session_start (server_env env) a w1) startAccept))"

definition listen :: "os_env \<Rightarrow> endpoint \<Rightarrow> 'a tcp_world_scheme \<Rightarrow> 'a tcp_world_scheme res" where
  "listen os ep w =
     bind_res (getIoService (srv_pool w)) (\<lambda>(i, p).
       if \<not> os_bind os ep then Inl SystemError
       else startAccept (w\<lparr>srv_pool := p,
              srv_acceptor := Some \<lparr>acc_endpoint = ep, acc_open = True\<rparr>, srv_state := SrvStart\<rparr>))"

definition start_port :: "os_env \<Rightarrow> 16 word \<Rightarrow> 'a tcp_world_scheme \<Rightarrow> 'a tcp_world_scheme res" where
  "start_port os port w = listen os (''0.0.0.0'', port) w"

definition start_address ::
  "os_env \<Rightarrow> string \<Rightarrow> 16 word \<Rightarrow> 'a tcp_world_scheme \<Rightarrow> 'a tcp_world_scheme res" where
  "start_address os address port w =
     (if os_parse os address then listen os (address, port) w else Inl SystemError)"

subsection \<open>Stopping\<close>

definition close_entry :: "int \<times> addr \<Rightarrow> 'a tcp_world_scheme \<Rightarrow> 'a tcp_world_scheme res" where
  "close_entry e w = upd_session (snd e) (\<lambda>s. Inr (session_close s)) w"

definition server_stop :: "'a tcp_world_scheme \<Rightarrow> 'a tcp_world_scheme res" where
  "server_stop w =
     (if srv_state w \<noteq> SrvStart then Inr w
      else case srv_acceptor w of
        None \<Rightarrow> Inl NullDeref
      | Some acc \<Rightarrow>
          bind_res (fold_res close_entry (srv_sessions w)
                      (w\<lparr>srv_acceptor := Some (acc\<lparr>acc_open := False\<rparr>)\<rparr>))
            (\<lambda>w1. Inr (w1\<lparr>srv_sessions := [], srv_free := [], srv_state := SrvStop\<rparr>)))"

subsection \<open>The server as an event system\<close>

datatype srv_event =
    EvAccept error_code "endpoint option" Msg "64 word" "64 word"
  | EvRead addr error_code bytes
  | EvWrite addr error_code nat
  | EvStop

fun exec_event ::
  "'a tcp_world_scheme env \<Rightarrow> srv_event \<Rightarrow> 'a tcp_world_scheme \<Rightarrow> 'a tcp_world_scheme res" where
  "exec_event env (EvAccept ec peer msg0 tx0 rx0) w = complete_accept env ec peer msg0 tx0 rx0 w"
| "exec_event env (EvRead a ec chunk) w = complete_read (server_env env) a ec chunk w"
| "exec_event env (EvWrite a ec k) w = complete_write (server_env env) a ec k w"
| "exec_event env EvStop w = server_stop w"

fun read_size :: "read_op \<Rightarrow> nat" where
  "read_size (RdHeader n) = n"
| "read_size (RdBody n) = n"

text \<open>
  What Boost.Asio may complete: only outstanding operations, reads with at most as many bytes as
  the buffer was announced with. Memory contents are arbitrary but have the size of the object.
\<close>

fun enabled :: "srv_event \<Rightarrow> 'a tcp_world_scheme \<Rightarrow> bool" where
  "enabled (EvAccept ec peer msg0 tx0 rx0) w \<longleftrightarrow> 0 < srv_accepting w \<and> wf_msg msg0"
| "enabled (EvRead a ec chunk) w \<longleftrightarrow> (case heap w a of None \<Rightarrow> False
     | Some s \<Rightarrow> (case s_reading s of [] \<Rightarrow> False | r # rs \<Rightarrow> length chunk \<le> read_size r))"
| "enabled (EvWrite a ec k) w \<longleftrightarrow> (case heap w a of None \<Rightarrow> False | Some s \<Rightarrow> s_writing s \<noteq> [])"
| "enabled EvStop w \<longleftrightarrow> True"

inductive srv_reach :: "'a tcp_world_scheme env \<Rightarrow> 'a tcp_world_scheme \<Rightarrow> 'a tcp_world_scheme \<Rightarrow> bool"
  for env w0 where
  reach_init: "srv_reach env w0 w0"
| reach_step: "srv_reach env w0 w \<Longrightarrow> enabled e w \<Longrightarrow> exec_event env e w = Inr w' \<Longrightarrow> srv_reach env w0 w'"

text \<open>
  What a completion reports to \<open>handleClose\<close>: a failed body read or write does, a failed header read does not. A run
  from \<open>w1\<close> with the identifiers reported in it, in order.
\<close>

fun reported :: "srv_event \<Rightarrow> 'a tcp_world_scheme \<Rightarrow> int list" where
  "reported (EvRead a ec chunk) w = (case heap w a of None \<Rightarrow> []
     | Some s \<Rightarrow> (case s_reading s of RdBody n # rs \<Rightarrow> if ec = EcOk then [] else [s_id s] | _ \<Rightarrow> []))"
| "reported (EvWrite a ec k) w = (case heap w a of None \<Rightarrow> []
     | Some s \<Rightarrow> if ec = EcOk \<or> s_writing s = [] then [] else [s_id s])"
| "reported e w = []"

inductive report_run :: "'a tcp_world_scheme env \<Rightarrow> 'a tcp_world_scheme \<Rightarrow> int list \<Rightarrow> 'a tcp_world_scheme \<Rightarrow> bool"
  for env w1 where
  report_init: "report_run env w1 [] w1"
| report_step: "report_run env w1 ids w \<Longrightarrow> enabled e w \<Longrightarrow> exec_event env e w = Inr w' \<Longrightarrow>
    report_run env w1 (ids @ reported e w) w'"

subsection \<open>The server invariant\<close>

text \<open>
  Every session is consistent and carries an identifier of the pool \<open>1 .. maxSession\<close>; registry
  entries point to sessions with that identifier; and, until the server is stopped, every
  identifier is free or registered. The last clause survives even a session that reports its end
  twice, and it is what keeps \<open>_free_session_id.front()\<close> away from an empty deque.
\<close>

definition srv_ids :: "'a tcp_world_scheme \<Rightarrow> int set" where
  "srv_ids w = {1..int (maxSession (srv_config w))}"

definition heap_inv :: "'a tcp_world_scheme \<Rightarrow> bool" where
  "heap_inv w \<longleftrightarrow> (\<forall>a s. heap w a = Some s \<longrightarrow> sess_ok s \<and> s_id s \<in> srv_ids w \<and> a < srv_alloc w)"

definition registry_inv :: "'a tcp_world_scheme \<Rightarrow> bool" where
  "registry_inv w \<longleftrightarrow> smap_inv (srv_sessions w) \<and>
     (\<forall>i a. map_find i (srv_sessions w) = Some a \<longrightarrow> (\<exists>s. heap w a = Some s \<and> s_id s = i))"

definition pool_ids_inv :: "'a tcp_world_scheme \<Rightarrow> bool" where
  "pool_ids_inv w \<longleftrightarrow> set (srv_free w) \<subseteq> srv_ids w \<and>
     (srv_state w \<noteq> SrvStop \<longrightarrow> srv_ids w \<subseteq> set (srv_free w) \<union> map_keys (srv_sessions w))"

definition srv_inv :: "'a tcp_world_scheme \<Rightarrow> bool" where
  "srv_inv w \<longleftrightarrow> heap_inv w \<and> registry_inv w \<and> pool_ids_inv w \<and> pool_inv (srv_pool w) \<and>
     srv_accepting w \<le> 1"

lemmas srv_inv_defs = srv_inv_def heap_inv_def registry_inv_def pool_ids_inv_def srv_ids_def

text \<open>What a handler of the application may change: the contents of sessions, nothing else.\<close>

definition srv_same :: "'a tcp_world_scheme \<Rightarrow> 'a tcp_world_scheme \<Rightarrow> bool" where
  "srv_same w w' \<longleftrightarrow> srv_name w' = srv_name w \<and> srv_config w' = srv_config w \<and>
     srv_state w' = srv_state w \<and> srv_pool w' = srv_pool w \<and> srv_free w' = srv_free w \<and>
     srv_sessions w' = srv_sessions w \<and> srv_openedHandler w' = srv_openedHandler w \<and>
     srv_closedHandler w' = srv_closedHandler w \<and> srv_messageHandler w' = srv_messageHandler w \<and>
     srv_acceptor w' = srv_acceptor w \<and> srv_socket w' = srv_socket w \<and>
     srv_accepting w' = srv_accepting w \<and> srv_alloc w' = srv_alloc w"

definition all_ok :: "'a net_scheme \<Rightarrow> bool" where
  "all_ok w \<longleftrightarrow> (\<forall>a s. heap w a = Some s \<longrightarrow> sess_ok s)"

definition callback_frame :: "'a tcp_world_scheme \<Rightarrow> 'a tcp_world_scheme \<Rightarrow> bool" where
  "callback_frame w w' \<longleftrightarrow> srv_same w w' \<and> same_reads w w' \<and> all_ok w' \<and>
     dom (heap w') = dom (heap w)"

text \<open>
  What every event but a stop leaves alone when it is not an accept: the configuration, the state,
  the pool, the accept loop and the allocation of sessions; sessions only leave the registry, and
  identifiers only enter the free list.
\<close>

definition srv_frame :: "'a tcp_world_scheme \<Rightarrow> 'a tcp_world_scheme \<Rightarrow> bool" where
  "srv_frame w w' \<longleftrightarrow> srv_config w' = srv_config w \<and> srv_state w' = srv_state w \<and>
     srv_pool w' = srv_pool w \<and> srv_acceptor w' = srv_acceptor w \<and> srv_socket w' = srv_socket w \<and>
     srv_accepting w' = srv_accepting w \<and> srv_alloc w' = srv_alloc w \<and>
     srv_openedHandler w' = srv_openedHandler w \<and> srv_closedHandler w' = srv_closedHandler w \<and>
     srv_messageHandler w' = srv_messageHandler w \<and>
     map_keys (srv_sessions w') \<subseteq> map_keys (srv_sessions w) \<and>
     set (srv_free w) \<subseteq> set (srv_free w')"

lemma srv_frame_trans: "srv_frame u v \<Longrightarrow> srv_frame v w \<Longrightarrow> srv_frame u w"
  by (auto simp: srv_frame_def)

lemma srv_same_frame: "srv_same w w' \<Longrightarrow> srv_frame w w'"
  by (simp add: srv_same_def srv_frame_def)

lemma registryD:
  "registry_inv w \<Longrightarrow> map_find i (srv_sessions w) = Some a \<Longrightarrow> \<exists>s. heap w a = Some s \<and> s_id s = i"
  by (simp add: registry_inv_def)

lemma srv_put_session [simp]:
  "srv_config (put_session a s w) = srv_config w" "srv_state (put_session a s w) = srv_state w"
  "srv_pool (put_session a s w) = srv_pool w" "srv_free (put_session a s w) = srv_free w"
  "srv_sessions (put_session a s w) = srv_sessions w"
  "srv_openedHandler (put_session a s w) = srv_openedHandler w"
  "srv_closedHandler (put_session a s w) = srv_closedHandler w"
  "srv_messageHandler (put_session a s w) = srv_messageHandler w"
  "srv_acceptor (put_session a s w) = srv_acceptor w"
  "srv_socket (put_session a s w) = srv_socket w"
  "srv_accepting (put_session a s w) = srv_accepting w"
  "srv_alloc (put_session a s w) = srv_alloc w" "srv_name (put_session a s w) = srv_name w"
  by (simp_all add: put_session_def)

lemma srv_frame_put [simp]: "srv_frame w (put_session a s w)"
  by (simp add: srv_frame_def)

lemma srv_same_refl [simp]: "srv_same w w"
  by (simp add: srv_same_def)

lemma srv_same_trans: "srv_same u v \<Longrightarrow> srv_same v w \<Longrightarrow> srv_same u w"
  by (simp add: srv_same_def)

lemma callback_frame_refl [simp]: "all_ok w \<Longrightarrow> callback_frame w w"
  by (simp add: callback_frame_def)

lemma srv_inv_all_ok: "srv_inv w \<Longrightarrow> all_ok w"
  by (simp add: srv_inv_def heap_inv_def all_ok_def)

lemma same_reads_put:
  "heap w a = Some s \<Longrightarrow> s_reading s' = s_reading s \<Longrightarrow> same_identity s s' \<Longrightarrow>
     same_reads w (put_session a s' w)"
  by (simp add: same_reads_def)

lemma srv_inv_put:
  assumes "srv_inv w" and "heap w a = Some s" and "sess_ok s'" and "same_identity s s'"
  shows "srv_inv (put_session a s' w)"
proof -
  have id': "s_id s' = s_id s" using assms(4) by (simp add: same_identity_def)
  have "heap_inv (put_session a s' w)"
    using assms id' by (auto simp: srv_inv_def heap_inv_def srv_ids_def)
  moreover have "registry_inv (put_session a s' w)"
    using assms id' by (force simp: srv_inv_def registry_inv_def)
  ultimately show ?thesis using assms(1) by (simp add: srv_inv_def pool_ids_inv_def srv_ids_def)
qed

lemma srv_inv_frame:
  assumes "srv_inv w" and "callback_frame w w'"
  shows "srv_inv w'"
proof -
  have same: "srv_same w w'" and reads: "same_reads w w'" and ok: "all_ok w'"
    and dom: "dom (heap w') = dom (heap w)"
    using assms(2) by (auto simp: callback_frame_def)
  have cell: "\<exists>s. heap w a = Some s \<and> s_id s' = s_id s" if "heap w' a = Some s'" for a s'
  proof -
    from that dom obtain s where s: "heap w a = Some s" by (metis domD domI)
    with same_readsD[OF reads s] that show ?thesis by (auto simp: same_identity_def)
  qed
  have cfg: "srv_config w' = srv_config w" "srv_alloc w' = srv_alloc w"
    "srv_sessions w' = srv_sessions w"
    using same by (simp_all add: srv_same_def)
  have "heap_inv w'"
    unfolding heap_inv_def
  proof (intro allI impI)
    fix a s'
    assume h: "heap w' a = Some s'"
    with cell obtain s where s: "heap w a = Some s" "s_id s' = s_id s" by blast
    with assms(1) h ok show "sess_ok s' \<and> s_id s' \<in> srv_ids w' \<and> a < srv_alloc w'"
      by (simp add: srv_inv_def heap_inv_def all_ok_def srv_ids_def cfg)
  qed
  moreover have "registry_inv w'"
    unfolding registry_inv_def cfg
  proof (intro conjI allI impI)
    show "smap_inv (srv_sessions w)" using assms(1) by (simp add: srv_inv_def registry_inv_def)
    fix i a
    assume "map_find i (srv_sessions w) = Some a"
    then obtain s where s: "heap w a = Some s" "s_id s = i"
      using assms(1) registryD[of w i a] by (auto simp: srv_inv_def)
    with same_readsD[OF reads s(1)] show "\<exists>s. heap w' a = Some s \<and> s_id s = i"
      by (auto simp: same_identity_def)
  qed
  ultimately show ?thesis
    using assms(1) same by (simp add: srv_inv_def pool_ids_inv_def srv_same_def srv_ids_def)
qed

lemma registry_keys_ids: "srv_inv w \<Longrightarrow> map_keys (srv_sessions w) \<subseteq> srv_ids w"
proof
  fix i
  assume inv: "srv_inv w" and "i \<in> map_keys (srv_sessions w)"
  then obtain a where "map_find i (srv_sessions w) = Some a"
    using sm.keys_find[of "srv_sessions w" i]
    by (auto simp: srv_inv_def registry_inv_def map_keys_def)
  with inv show "i \<in> srv_ids w"
    using registryD[of w i a] by (auto simp: srv_inv_def heap_inv_def)
qed

text \<open>The registry never outgrows \<open>maxSession\<close>, and a full accounting leaves no room for a
  connection without an identifier.\<close>

lemma srv_inv_capacity: "srv_inv w \<Longrightarrow> length (srv_sessions w) \<le> maxSession (srv_config w)"
  using sm.size_within_pool[of "srv_sessions w" "srv_ids w"] registry_keys_ids[of w]
  by (auto simp: srv_inv_def registry_inv_def srv_ids_def map_keys_def)

lemma srv_inv_free_nonempty:
  assumes "srv_inv w" and "srv_state w \<noteq> SrvStop"
    and "length (srv_sessions w) < maxSession (srv_config w)"
  shows "srv_free w \<noteq> []"
proof
  assume "srv_free w = []"
  with assms have "srv_ids w \<subseteq> map_keys (srv_sessions w)"
    by (simp add: srv_inv_def pool_ids_inv_def)
  with assms(1) have "card (srv_ids w) \<le> length (srv_sessions w)"
    using sm.size_covers_pool[of "srv_sessions w" "srv_ids w"]
    by (simp add: srv_inv_def registry_inv_def map_keys_def)
  with assms(3) show False by (simp add: srv_ids_def)
qed

subsection \<open>What the application promises, and what it gets\<close>

locale server_app =
  fixes env :: "'a tcp_world_scheme env"
  assumes opened_frame: "all_ok w \<Longrightarrow> run_opened env h a w = Inr w' \<Longrightarrow> callback_frame w w'"
    and closed_frame: "all_ok w \<Longrightarrow> run_closed env h a r w = Inr w' \<Longrightarrow> callback_frame w w'"
    and message_frame: "all_ok w \<Longrightarrow> run_message env h a w = Inr w' \<Longrightarrow> callback_frame w w'"
begin

lemma handleClose_decompose:
  assumes "srv_inv w" and "handleClose env a r w = Inr w'"
  obtains w1 s where "srv_inv w1" and "callback_frame w w1" and "heap w1 a = Some s"
    and "w' = w1\<lparr>srv_sessions := map_erase (s_id s) (srv_sessions w1),
                 srv_free := srv_free w1 @ [s_id s]\<rparr>"
proof -
  from assms(2) obtain w1 s where
    c: "(case srv_closedHandler w of None \<Rightarrow> Inr w | Some h \<Rightarrow> run_closed env h a r w) = Inr w1"
    and s: "heap w1 a = Some s"
    and w': "w' = w1\<lparr>srv_sessions := map_erase (s_id s) (srv_sessions w1),
                 srv_free := srv_free w1 @ [s_id s]\<rparr>"
    by (auto simp: handleClose_def bind_res_eq_Inr with_session_eq_Inr getID_def Let_def)
  have "callback_frame w w1"
    using c srv_inv_all_ok[OF assms(1)] closed_frame by (auto split: option.splits)
  then show ?thesis using that s w' srv_inv_frame[OF assms(1)] by blast
qed

lemma handleClose_inv:
  assumes "srv_inv w" and "handleClose env a r w = Inr w'"
  shows "srv_inv w' \<and> same_reads w w'"
proof -
  from handleClose_decompose[OF assms] obtain w1 s where
    inv1: "srv_inv w1" and fr: "callback_frame w w1" and s: "heap w1 a = Some s"
    and w': "w' = w1\<lparr>srv_sessions := map_erase (s_id s) (srv_sessions w1),
                 srv_free := srv_free w1 @ [s_id s]\<rparr>" .
  have reg: "registry_inv w1" and pl: "pool_ids_inv w1" and sid: "s_id s \<in> srv_ids w1"
    using inv1 s by (auto simp: srv_inv_def heap_inv_def)
  have "registry_inv w'"
    using reg w' by (auto simp: registry_inv_def smap_inv_map_erase map_find_erase split: if_splits)
  moreover have "pool_ids_inv w'"
    using pl sid reg w'
    by (auto simp: pool_ids_inv_def srv_ids_def registry_inv_def smap_facts)
  moreover have "heap_inv w'" "pool_inv (srv_pool w')" "srv_accepting w' \<le> 1"
    using inv1 w' by (auto simp: srv_inv_def heap_inv_def srv_ids_def)
  moreover have "same_reads w w'"
    using fr w' by (auto simp: callback_frame_def same_reads_def)
  ultimately show ?thesis by (simp add: srv_inv_def)
qed

sublocale session_host "server_env env" srv_inv
proof unfold_locales
  show "srv_inv w \<Longrightarrow> heap w a = Some s \<Longrightarrow> sess_ok s" for w :: "'a tcp_world_scheme" and a s
    by (simp add: srv_inv_def heap_inv_def)
  show "srv_inv w \<Longrightarrow> heap w a = Some s \<Longrightarrow> sess_ok s' \<Longrightarrow> same_identity s s' \<Longrightarrow>
      srv_inv (put_session a s' w)" for w :: "'a tcp_world_scheme" and a s s'
    by (rule srv_inv_put)
  show "srv_inv w \<Longrightarrow> run_opened (server_env env) h a w = Inr w' \<Longrightarrow> srv_inv w' \<and> same_reads w w'"
    for w w' :: "'a tcp_world_scheme" and h a
    using opened_frame[of w h a w'] srv_inv_frame[of w w'] srv_inv_all_ok[of w]
    by (simp add: server_env_def callback_frame_def)
  show "srv_inv w \<Longrightarrow> run_closed (server_env env) h a r w = Inr w' \<Longrightarrow> srv_inv w' \<and> same_reads w w'"
    for w w' :: "'a tcp_world_scheme" and h a r
    using handleClose_inv[of w a r w'] by (simp add: server_env_def)
  show "srv_inv w \<Longrightarrow> run_message (server_env env) h a w = Inr w' \<Longrightarrow> srv_inv w' \<and> same_reads w w'"
    for w w' :: "'a tcp_world_scheme" and h a
    using message_frame[of w h a w'] srv_inv_frame[of w w'] srv_inv_all_ok[of w]
    by (simp add: server_env_def callback_frame_def)
qed

lemma handleClose_frame:
  assumes "srv_inv w" and "handleClose env a r w = Inr w'"
  shows "srv_frame w w'"
proof -
  from handleClose_decompose[OF assms] obtain w1 s where
    inv1: "srv_inv w1" and fr: "callback_frame w w1" and "heap w1 a = Some s"
    and w': "w' = w1\<lparr>srv_sessions := map_erase (s_id s) (srv_sessions w1),
                 srv_free := srv_free w1 @ [s_id s]\<rparr>" .
  have "srv_frame w1 w'"
    using w' keys_map_erase[of "s_id s" "srv_sessions w1"] by (auto simp: srv_frame_def)
  then show ?thesis
    using fr srv_same_frame srv_frame_trans unfolding callback_frame_def by blast
qed

sublocale session_rel "server_env env" srv_inv srv_frame
proof unfold_locales
  show "srv_frame u v \<Longrightarrow> srv_frame v w \<Longrightarrow> srv_frame u w" for u v w :: "'a tcp_world_scheme"
    by (rule srv_frame_trans)
  show "heap w a = Some s \<Longrightarrow> same_identity s s' \<Longrightarrow> srv_frame w (put_session a s' w)"
    for w :: "'a tcp_world_scheme" and a s s'
    by simp
  show "srv_inv w \<Longrightarrow> run_opened (server_env env) h a w = Inr w' \<Longrightarrow> srv_frame w w'"
    for w w' :: "'a tcp_world_scheme" and h a
    using opened_frame[of w h a w'] srv_inv_all_ok[of w]
    by (simp add: server_env_def callback_frame_def srv_same_frame)
  show "srv_inv w \<Longrightarrow> run_closed (server_env env) h a r w = Inr w' \<Longrightarrow> srv_frame w w'"
    for w w' :: "'a tcp_world_scheme" and h a r
    using handleClose_frame[of w a r w'] by (simp add: server_env_def)
  show "srv_inv w \<Longrightarrow> run_message (server_env env) h a w = Inr w' \<Longrightarrow> srv_frame w w'"
    for w w' :: "'a tcp_world_scheme" and h a
    using message_frame[of w h a w'] srv_inv_all_ok[of w]
    by (simp add: server_env_def callback_frame_def srv_same_frame)
qed

end

lemma startAccept_cases:
  assumes "startAccept w = Inr w'"
  obtains i p where "getIoService (srv_pool w) = Inr (i, p)" and "srv_acceptor w \<noteq> None"
    and "w' = w\<lparr>srv_socket := Some fresh_socket, srv_accepting := srv_accepting w + 1,
                 srv_pool := pool_run p\<rparr>"
  using assms by (auto simp: startAccept_def bind_res_eq_Inr Let_def split: option.splits)

lemma startAccept_inv:
  assumes "srv_inv w" and "srv_accepting w = 0" and "startAccept w = Inr w'"
  shows "srv_inv w'"
proof -
  from startAccept_cases[OF assms(3)] obtain i p where g: "getIoService (srv_pool w) = Inr (i, p)"
    and w': "w' = w\<lparr>srv_socket := Some fresh_socket, srv_accepting := srv_accepting w + 1,
                    srv_pool := pool_run p\<rparr>"
    by blast
  have "pool_inv (pool_run p)"
    using assms(1) g getIoService_inv pool_run_inv by (auto simp: srv_inv_def)
  then show ?thesis using assms(1,2) w' by (simp add: srv_inv_defs)
qed

lemma TcpSession_server_fields:
  "TcpSession_server sock i c msg0 tx0 rx0 = Inr s \<Longrightarrow>
     s_id s = i \<and> s_state s = SessReady \<and> s_msg s = msg0 \<and> s_sendQue s = [] \<and> s_reading s = [] \<and>
     s_writing s = []"
  by (auto simp: TcpSession_server_def split: option.splits)

lemma register_session_decompose:
  assumes "register_session peer msg0 tx0 rx0 w = Inr (a, w')"
  obtains i free s1 where "srv_free w = i # free" and "a = srv_alloc w"
    and "s_id s1 = i" "s_state s1 = SessReady" "s_msg s1 = msg0" "s_sendQue s1 = []"
      "s_reading s1 = []" "s_writing s1 = []" "s_openedHandler s1 = srv_openedHandler w"
      "s_closedHandler s1 = Some close_lambda" "s_messageHandler s1 = srv_messageHandler w"
    and "w' = (put_session a s1 (w\<lparr>srv_free := free, srv_socket := None, srv_alloc := a + 1\<rparr>))
             \<lparr>srv_sessions := map_emplace i a (srv_sessions w)\<rparr>"
proof -
  from assms obtain i free sock s where f: "srv_free w = i # free" and a: "a = srv_alloc w"
    and s: "TcpSession_server (sock\<lparr>sock_open := True, sock_peer := peer\<rparr>) i (srv_config w) msg0 tx0 rx0
      = Inr s"
    and w': "w' = (let s1 = s\<lparr>s_openedHandler := srv_openedHandler w,
        s_closedHandler := Some close_lambda, s_messageHandler := srv_messageHandler w\<rparr>
      in (put_session a s1 (w\<lparr>srv_free := free, srv_socket := None, srv_alloc := a + 1\<rparr>))
             \<lparr>srv_sessions := map_emplace (s_id s) a (srv_sessions w)\<rparr>)"
    by (auto simp: register_session_def bind_res_eq_Inr getID_def Let_def
        split: list.splits option.splits)
  show ?thesis
    using TcpSession_server_fields[OF s] w' f a
    by (intro that[of i free "s\<lparr>s_openedHandler := srv_openedHandler w,
        s_closedHandler := Some close_lambda, s_messageHandler := srv_messageHandler w\<rparr>"])
      (auto simp: Let_def)
qed

lemma register_session_fields:
  assumes "register_session peer msg0 tx0 rx0 w = Inr (a, w')"
  shows "srv_pool w' = srv_pool w" "srv_alloc w' = srv_alloc w + 1" "a = srv_alloc w"
    "srv_state w' = srv_state w" "srv_config w' = srv_config w"
proof -
  obtain i free s1 where a: "a = srv_alloc w"
    and w': "w' = (put_session a s1 (w\<lparr>srv_free := free, srv_socket := None, srv_alloc := a + 1\<rparr>))
             \<lparr>srv_sessions := map_emplace i a (srv_sessions w)\<rparr>"
    by (rule register_session_decompose[OF assms]) (rule that)
  show "srv_pool w' = srv_pool w" "srv_alloc w' = srv_alloc w + 1" "a = srv_alloc w"
    "srv_state w' = srv_state w" "srv_config w' = srv_config w"
    using a w' by simp_all
qed

lemma register_session_inv:
  assumes "srv_inv w" and "register_session peer msg0 tx0 rx0 w = Inr (a, w')" and "wf_msg msg0"
  shows "srv_inv w' \<and> srv_accepting w' = srv_accepting w \<and> (\<exists>s. heap w' a = Some s \<and> s_reading s = [])"
proof -
  from register_session_decompose[OF assms(2)] obtain i free s1 where
    f: "srv_free w = i # free" and a: "a = srv_alloc w"
    and s1: "s_id s1 = i" "s_state s1 = SessReady" "s_msg s1 = msg0" "s_sendQue s1 = []"
      "s_reading s1 = []" "s_writing s1 = []" "s_openedHandler s1 = srv_openedHandler w"
      "s_closedHandler s1 = Some close_lambda" "s_messageHandler s1 = srv_messageHandler w"
    and w1: "w' = (put_session a s1 (w\<lparr>srv_free := free, srv_socket := None, srv_alloc := a + 1\<rparr>))
             \<lparr>srv_sessions := map_emplace i a (srv_sessions w)\<rparr>"
    .
  have ok: "sess_ok s1" using s1 assms(3) by (simp add: sess_ok_def write_ok_def)
  have fresh: "heap w b = Some t \<Longrightarrow> b < a" for b t
    using assms(1) a by (auto simp: srv_inv_def heap_inv_def)
  have "heap_inv w'"
    using assms(1) s1 ok w1 f fresh
    by (auto simp: srv_inv_def heap_inv_def pool_ids_inv_def srv_ids_def less_SucI)
  moreover have sorted: "smap_inv (srv_sessions w)"
    using assms(1) by (simp add: srv_inv_def registry_inv_def)
  have "registry_inv w'"
    unfolding registry_inv_def
  proof (intro conjI allI impI)
    show "smap_inv (srv_sessions w')"
      using sorted w1 by (simp add: smap_inv_map_emplace)
    fix j b
    assume "map_find j (srv_sessions w') = Some b"
    then have found: "(if j = i \<and> map_find i (srv_sessions w) = None then Some a
        else map_find j (srv_sessions w)) = Some b"
      using map_find_emplace[OF sorted, of j i a] w1 by simp
    show "\<exists>s. heap w' b = Some s \<and> s_id s = j"
    proof (cases "j = i \<and> map_find i (srv_sessions w) = None")
      case True
      with found have "b = a" by simp
      with True s1 w1 show ?thesis by simp
    next
      case False
      with found have "map_find j (srv_sessions w) = Some b" by presburger
      then obtain t where "heap w b = Some t" "s_id t = j"
        using assms(1) registryD[of w j b] by (auto simp: srv_inv_def)
      with fresh[of b t] w1 show ?thesis by simp
    qed
  qed
  moreover have "pool_ids_inv w'"
    using assms(1) f w1
    by (auto simp: srv_inv_def pool_ids_inv_def srv_ids_def registry_inv_def smap_facts)
  ultimately show ?thesis using assms(1) w1 s1 by (simp add: srv_inv_def)
qed

lemma srv_same_put [simp]: "srv_same w (put_session a s w)"
  by (simp add: srv_same_def)

lemma session_close_ok: "sess_ok s \<Longrightarrow> sess_ok (session_close s) \<and> same_identity s (session_close s)"
  by (simp add: session_close_def sess_ok_def write_ok_def same_identity_def)

lemma close_entry_inv:
  assumes "srv_inv w" and "close_entry e w = Inr w'"
  shows "srv_inv w'"
proof -
  from assms(2) obtain s where s: "heap w (snd e) = Some s"
    and w': "w' = put_session (snd e) (session_close s) w"
    by (auto simp: close_entry_def upd_session_eq_Inr)
  have "sess_ok s" using assms(1) s by (simp add: srv_inv_def heap_inv_def)
  then show ?thesis using srv_inv_put[OF assms(1) s] session_close_ok w' by blast
qed

lemma srv_inv_acceptor [simp]: "srv_inv (w\<lparr>srv_acceptor := x\<rparr>) = srv_inv w"
  by (simp add: srv_inv_defs)

lemma server_stop_inv:
  assumes "srv_inv w" and "server_stop w = Inr w'"
  shows "srv_inv w'"
proof (cases "srv_state w = SrvStart")
  case True
  with assms(2) obtain acc w1 where
    f: "fold_res close_entry (srv_sessions w) (w\<lparr>srv_acceptor := Some (acc\<lparr>acc_open := False\<rparr>)\<rparr>) = Inr w1"
    and w': "w' = w1\<lparr>srv_sessions := [], srv_free := [], srv_state := SrvStop\<rparr>"
    by (auto simp: server_stop_def bind_res_eq_Inr split: option.splits)
  have "srv_inv w1"
    by (rule fold_res_invariant[where P = srv_inv, OF _ _ f]) (use assms(1) close_entry_inv in auto)
  then show ?thesis using w' by (simp add: srv_inv_defs)
next
  case False
  then show ?thesis using assms by (simp add: server_stop_def)
qed

definition threads_inv :: "nat \<Rightarrow> 'a tcp_world_scheme \<Rightarrow> bool" where
  "threads_inv n w \<longleftrightarrow> length (m_ios (srv_pool w)) = n \<and>
     length (pool_threads (srv_pool w)) = n * (srv_alloc w + 1)"

lemma startAccept_threads:
  assumes "startAccept w = Inr w'"
  shows "m_ios (srv_pool w') = m_ios (srv_pool w) \<and> srv_alloc w' = srv_alloc w \<and>
     length (pool_threads (srv_pool w')) =
       length (pool_threads (srv_pool w)) + length (m_ios (srv_pool w))"
proof -
  from startAccept_cases[OF assms] obtain i p where g: "getIoService (srv_pool w) = Inr (i, p)"
    and w': "w' = w\<lparr>srv_socket := Some fresh_socket, srv_accepting := srv_accepting w + 1,
                    srv_pool := pool_run p\<rparr>"
    by blast
  show ?thesis using getIoService_keeps[OF g] w' by (simp add: pool_run_def)
qed

lemma close_entries_same:
  assumes "fold_res close_entry es w = Inr w'"
  shows "srv_same w w'"
proof (rule fold_res_invariant[where P = "srv_same w", OF _ _ assms])
  show "srv_same w v'" if "srv_same w v" "close_entry x v = Inr v'" for x v v'
    using that(2) srv_same_trans[OF that(1) srv_same_put]
    by (auto simp: close_entry_def upd_session_eq_Inr)
qed simp

lemma server_stop_keeps:
  assumes "server_stop w = Inr w'"
  shows "srv_pool w' = srv_pool w \<and> srv_alloc w' = srv_alloc w \<and> srv_accepting w' = srv_accepting w \<and>
    map_keys (srv_sessions w') \<subseteq> map_keys (srv_sessions w) \<and> srv_config w' = srv_config w"
proof (cases "srv_state w = SrvStart")
  case True
  with assms obtain acc w1 where
    f: "fold_res close_entry (srv_sessions w) (w\<lparr>srv_acceptor := Some (acc\<lparr>acc_open := False\<rparr>)\<rparr>) = Inr w1"
    and w': "w' = w1\<lparr>srv_sessions := [], srv_free := [], srv_state := SrvStop\<rparr>"
    by (auto simp: server_stop_def bind_res_eq_Inr split: option.splits)
  show ?thesis using close_entries_same[OF f] w' by (simp add: srv_same_def)
next
  case False
  then show ?thesis using assms by (simp add: server_stop_def)
qed

text \<open>
  No identifier is handed out twice: the free list repeats nothing and shares nothing with the
  registry. Unlike \<open>srv_inv\<close> this holds only as long as every session reports its end at most once.
\<close>

definition ids_unique :: "'a tcp_world_scheme \<Rightarrow> bool" where
  "ids_unique w \<longleftrightarrow> distinct (srv_free w) \<and> set (srv_free w) \<inter> map_keys (srv_sessions w) = {}"

lemma startAccept_keeps:
  assumes "startAccept w = Inr w'"
  shows "srv_free w' = srv_free w" "srv_sessions w' = srv_sessions w" "heap w' = heap w"
    "srv_accepting w' = srv_accepting w + 1" "srv_acceptor w' = srv_acceptor w"
    "srv_state w' = srv_state w" "srv_config w' = srv_config w"
proof -
  obtain p where w': "w' = w\<lparr>srv_socket := Some fresh_socket, srv_accepting := srv_accepting w + 1,
                 srv_pool := pool_run p\<rparr>"
    by (rule startAccept_cases[OF assms]) (rule that)
  show "srv_free w' = srv_free w" "srv_sessions w' = srv_sessions w" "heap w' = heap w"
    "srv_accepting w' = srv_accepting w + 1" "srv_acceptor w' = srv_acceptor w"
    "srv_state w' = srv_state w" "srv_config w' = srv_config w"
    unfolding w' by simp_all
qed

lemma complete_accept_rejected:
  assumes "complete_accept env ec peer msg0 tx0 rx0 w = Inr w'" and "0 < srv_accepting w"
    and "ec \<noteq> EcOk \<or> srv_state w = SrvStop \<or> maxSession (srv_config w) \<le> length (srv_sessions w)"
  shows "\<exists>sk. w' = w\<lparr>srv_accepting := srv_accepting w - 1, srv_socket := sk\<rparr>"
  using assms by (auto simp: complete_accept_def Let_def split: if_splits option.splits
      intro: exI[of _ "srv_socket w"])

context server_app
begin

lemma complete_accept_cases:
  assumes "complete_accept env ec peer msg0 tx0 rx0 w = Inr w'" and "0 < srv_accepting w"
  obtains (dropped) "srv_inv w \<longrightarrow> srv_inv w'" "srv_accepting w' = srv_accepting w - 1"
      "srv_sessions w' = srv_sessions w" "srv_free w' = srv_free w" "srv_alloc w' = srv_alloc w"
      "srv_pool w' = srv_pool w" "srv_state w' = srv_state w" "srv_config w' = srv_config w"
  | (accepted) a w1 w2 where
      "srv_state w \<noteq> SrvStop" "length (srv_sessions w) < maxSession (srv_config w)"
      "register_session peer msg0 tx0 rx0 (w\<lparr>srv_accepting := srv_accepting w - 1\<rparr>) = Inr (a, w1)"
      "session_start (server_env env) a w1 = Inr w2" "startAccept w2 = Inr w'"
proof (cases "ec \<noteq> EcOk \<or> srv_state w = SrvStop \<or> maxSession (srv_config w) \<le> length (srv_sessions w)")
  case True
  then have "\<exists>sk. w' = w\<lparr>srv_accepting := srv_accepting w - 1, srv_socket := sk\<rparr>"
    using complete_accept_rejected[OF assms] by blast
  then show ?thesis by (auto intro!: dropped simp: srv_inv_defs)
next
  case False
  with assms obtain a w1 w2 where
    "register_session peer msg0 tx0 rx0 (w\<lparr>srv_accepting := srv_accepting w - 1\<rparr>) = Inr (a, w1)"
    "session_start (server_env env) a w1 = Inr w2" "startAccept w2 = Inr w'"
    by (auto simp: complete_accept_def Let_def bind_res_eq_Inr)
  with False show ?thesis by (intro accepted[of a w1 w2]) auto
qed

lemma complete_accept_inv:
  assumes "srv_inv w" and "complete_accept env ec peer msg0 tx0 rx0 w = Inr w'" and "wf_msg msg0"
  shows "srv_inv w'"
proof (cases "0 < srv_accepting w")
  case True
  let ?w0 = "w\<lparr>srv_accepting := srv_accepting w - 1\<rparr>"
  have inv0: "srv_inv ?w0" "srv_accepting ?w0 = 0"
    using assms(1) by (auto simp: srv_inv_defs)
  from assms(2) True show ?thesis
  proof (cases rule: complete_accept_cases)
    case dropped
    then show ?thesis using assms(1) by simp
  next
    case (accepted a w1 w2)
    from register_session_inv[OF inv0(1) accepted(3) assms(3)] obtain s where
      r: "srv_inv w1" "srv_accepting w1 = 0" "heap w1 a = Some s" "s_reading s = []"
      using inv0(2) by auto
    have "srv_inv w2" using session_start_inv[OF r(1) accepted(4) r(3,4)] .
    moreover have "srv_accepting w2 = 0"
      using session_start_rel[OF r(1) accepted(4)] r(2) by (simp add: srv_frame_def)
    ultimately show ?thesis using startAccept_inv accepted(5) by blast
  qed
next
  case False
  then show ?thesis using assms by (simp add: complete_accept_def)
qed

lemma exec_event_inv:
  assumes "srv_inv w" and "enabled e w" and "exec_event env e w = Inr w'"
  shows "srv_inv w'"
proof (cases e)
  case (EvAccept ec peer msg0 tx0 rx0)
  then show ?thesis using assms complete_accept_inv by simp
next
  case (EvRead a ec chunk)
  then show ?thesis using assms complete_read_inv by simp
next
  case (EvWrite a ec k)
  then show ?thesis using assms complete_write_inv by simp
next
  case EvStop
  then show ?thesis using assms server_stop_inv by simp
qed

lemma reach_inv: "srv_reach env w0 w \<Longrightarrow> srv_inv w0 \<Longrightarrow> srv_inv w"
  by (induction rule: srv_reach.induct) (auto dest: exec_event_inv)

text \<open>
  The thread accounting: \<open>startAccept\<close> runs the pool, so every accepted connection adds as many
  threads as there are services. \<open>threads_inv n w\<close> says that there are \<open>n\<close> services and that
  \<open>run()\<close> was called once for the start and once for every session object.
\<close>

lemma complete_accept_threads:
  assumes "srv_inv w" and "complete_accept env ec peer msg0 tx0 rx0 w = Inr w'" and "wf_msg msg0"
    and "threads_inv n w"
  shows "threads_inv n w'"
proof (cases "0 < srv_accepting w")
  case True
  from assms(2) True show ?thesis
  proof (cases rule: complete_accept_cases)
    case dropped
    then show ?thesis using assms(4) by (simp add: threads_inv_def)
  next
    case (accepted a w1 w2)
    have inv0: "srv_inv (w\<lparr>srv_accepting := srv_accepting w - 1\<rparr>)"
      using assms(1) by (auto simp: srv_inv_defs)
    have w1: "srv_pool w1 = srv_pool w" "srv_alloc w1 = srv_alloc w + 1"
      using register_session_fields[OF accepted(3)] by simp_all
    have "srv_inv w1" using register_session_inv[OF inv0 accepted(3) assms(3)] by blast
    then have "srv_frame w1 w2" using session_start_rel accepted(4) by blast
    with w1 have w2: "srv_pool w2 = srv_pool w" "srv_alloc w2 = srv_alloc w + 1"
      by (simp_all add: srv_frame_def)
    show ?thesis using startAccept_threads[OF accepted(5)] w2 assms(4) by (simp add: threads_inv_def)
  qed
next
  case False
  then show ?thesis using assms by (simp add: complete_accept_def)
qed

lemma reach_threads:
  "srv_reach env w0 w \<Longrightarrow> srv_inv w0 \<Longrightarrow> threads_inv n w0 \<Longrightarrow> threads_inv n w"
proof (induction rule: srv_reach.induct)
  case (reach_step w e w')
  then have inv: "srv_inv w" and thr: "threads_inv n w" using reach_inv by auto
  show ?case
  proof (cases e)
    case (EvAccept ec peer msg0 tx0 rx0)
    then show ?thesis using complete_accept_threads inv thr reach_step.hyps by simp
  next
    case (EvRead a ec chunk)
    then show ?thesis
      using complete_read_rel[OF inv] thr reach_step.hyps by (simp add: srv_frame_def threads_inv_def)
  next
    case (EvWrite a ec k)
    then show ?thesis
      using complete_write_rel[OF inv] thr reach_step.hyps by (simp add: srv_frame_def threads_inv_def)
  next
    case EvStop
    then show ?thesis using server_stop_keeps[of w w'] thr reach_step.hyps by (simp add: threads_inv_def)
  qed
qed simp

text \<open>A completed read or write adds to the free list exactly what it reports.\<close>

lemma fire_closed_free:
  assumes "srv_inv w" and s: "heap w a = Some s" and "fire_closed (server_env env) a r w = Inr w'"
  shows "srv_free w' = srv_free w @ [s_id s]"
proof -
  have h: "handleClose env a r w = Inr w'"
    using assms(2,3) by (auto simp: fire_closed_def server_env_def split: option.splits)
  from handleClose_decompose[OF assms(1) h] obtain w1 t where
    fr: "callback_frame w w1" and t: "heap w1 a = Some t"
    and w': "w' = w1\<lparr>srv_sessions := map_erase (s_id t) (srv_sessions w1), srv_free := srv_free w1 @ [s_id t]\<rparr>" .
  have "same_reads w w1" "srv_free w1 = srv_free w" using fr by (simp_all add: callback_frame_def srv_same_def)
  then show ?thesis using same_readsD[of w w1 a s] s t w' by (auto simp: same_identity_def)
qed

lemma fire_message_free:
  assumes "all_ok w" and "fire_message (server_env env) a w = Inr w'"
  shows "srv_free w' = srv_free w"
  using assms message_frame
  by (fastforce simp: fire_message_def server_env_def with_session_eq_Inr callback_frame_def srv_same_def split: option.splits)

lemma complete_read_free:
  assumes "srv_inv w" and "complete_read (server_env env) a ec chunk w = Inr w'"
  shows "srv_free w' = srv_free w @ reported (EvRead a ec chunk) w"
proof -
  obtain s where s: "heap w a = Some s" using assms(2) by (auto simp: complete_read_def session_inverts)
  have ok: "sess_ok s" using assms(1) s by (simp add: srv_inv_def heap_inv_def)
  consider "s_reading s = []" | n rs where "s_reading s = RdHeader n # rs" | n rs where "s_reading s = RdBody n # rs"
    by (cases "s_reading s"; cases "hd (s_reading s)") auto
  then show ?thesis
  proof cases
    case 1
    then show ?thesis using assms(2) s by (simp add: complete_read_def)
  next
    case (2 n rs)
    then show ?thesis using assms(2) s
      by (auto simp: complete_read_def handleReadHeader_def session_read_def session_inverts Let_def split: if_splits)
  next
    case (3 n rs)
    then obtain m where m: "deposit hdrLength chunk (s_msg s) = Inr m"
      and h: "handleReadBody (server_env env) a ec (put_session a (s\<lparr>s_msg := m, s_reading := rs\<rparr>) w) = Inr w'"
      using assms(2) s by (auto simp: complete_read_def bind_res_eq_Inr)
    let ?v = "put_session a (s\<lparr>s_msg := m, s_reading := rs\<rparr>) w"
    have "wf_msg m" using deposit_wf[OF _ m] ok by (simp add: sess_ok_def)
    then have s1: "sess_ok (s\<lparr>s_msg := m, s_reading := rs\<rparr>)" "sess_ok (s\<lparr>s_msg := m, s_reading := rs, s_rx := x\<rparr>)" for x
      using ok 3 by (auto simp: sess_ok_def write_ok_def)
    have inv: "srv_inv ?v" by (rule srv_inv_put[OF assms(1) s s1(1)]) (simp add: same_identity_def)
    show ?thesis
    proof (cases "ec = EcOk")
      case False
      then show ?thesis using fire_closed_free[OF inv, of a] h 3 s by (simp add: handleReadBody_def)
    next
      case True
      then obtain x w2 where w2: "fire_message (server_env env) a (put_session a (s\<lparr>s_msg := m, s_reading := rs, s_rx := x\<rparr>) w) = Inr w2"
        "session_read a hdrLength w2 = Inr w'"
        using h by (auto simp: handleReadBody_def session_inverts)
      have "all_ok (put_session a (s\<lparr>s_msg := m, s_reading := rs, s_rx := x\<rparr>) w)"
        using srv_inv_all_ok[OF assms(1)] s1(2) by (auto simp: all_ok_def)
      from fire_message_free[OF this w2(1)] w2(2) show ?thesis
        using True 3 s by (auto simp: session_read_def session_inverts)
    qed
  qed
qed

lemma complete_write_free:
  assumes "srv_inv w" and "complete_write (server_env env) a ec k w = Inr w'"
  shows "srv_free w' = srv_free w @ reported (EvWrite a ec k) w"
proof -
  obtain s where s: "heap w a = Some s" using assms(2) by (auto simp: complete_write_def session_inverts)
  show ?thesis
  proof (cases "s_writing s")
    case Nil
    then show ?thesis using assms(2) s by (simp add: complete_write_def)
  next
    case (Cons buf ws)
    let ?s = "s\<lparr>s_writing := ws, s_socket := (s_socket s)\<lparr>sock_out := sock_out (s_socket s) @ write_out ec k buf\<rparr>\<rparr>"
    have h: "handleWrite (server_env env) a ec (put_session a ?s w) = Inr w'"
      using assms(2) s Cons by (simp add: complete_write_def)
    have "sess_ok s" using assms(1) s by (simp add: srv_inv_def heap_inv_def)
    then have "sess_ok ?s" using Cons by (auto simp: sess_ok_def write_ok_def)
    from srv_inv_put[OF assms(1) s this] have inv: "srv_inv (put_session a ?s w)" by (simp add: same_identity_def)
    show ?thesis
    proof (cases "ec = EcOk")
      case True
      then show ?thesis using h s Cons by (auto simp: handleWrite_def session_inverts)
    next
      case False
      then show ?thesis using fire_closed_free[OF inv, of a] h s Cons by (simp add: handleWrite_def)
    qed
  qed
qed

text \<open>
  A stopped server registers nobody, and its free list holds what was reported since the stop, in order.
\<close>

lemma stopped_event:
  assumes "srv_inv w" and "srv_state w = SrvStop" and "srv_sessions w = []" and "exec_event env e w = Inr w'"
  shows "srv_state w' = SrvStop \<and> srv_sessions w' = [] \<and> srv_free w' = srv_free w @ reported e w"
proof (cases e)
  case (EvAccept ec peer msg0 tx0 rx0)
  then show ?thesis using assms by (auto simp: complete_accept_def Let_def split: if_splits option.splits)
next
  case (EvRead a ec chunk)
  then have "srv_frame w w'" "srv_free w' = srv_free w @ reported e w"
    using complete_read_rel[OF assms(1)] complete_read_free[OF assms(1)] assms(4) by auto
  then show ?thesis using assms(2,3) by (simp add: srv_frame_def map_keys_def)
next
  case (EvWrite a ec k)
  then have "srv_frame w w'" "srv_free w' = srv_free w @ reported e w"
    using complete_write_rel[OF assms(1)] complete_write_free[OF assms(1)] assms(4) by auto
  then show ?thesis using assms(2,3) by (simp add: srv_frame_def map_keys_def)
next
  case EvStop
  then show ?thesis using assms by (simp add: server_stop_def)
qed

lemma stopped_run:
  assumes "report_run env w1 ids w2" and "srv_inv w1" and "srv_state w1 = SrvStop" and "srv_sessions w1 = []"
  shows "srv_inv w2 \<and> srv_state w2 = SrvStop \<and> srv_sessions w2 = [] \<and> srv_free w2 = srv_free w1 @ ids"
  using assms
proof (induction rule: report_run.induct)
  case (report_step ids w e w')
  then show ?case using stopped_event[of w e w'] exec_event_inv[of w e w'] by simp
qed simp

lemma report_run_reach: "report_run env w1 ids w2 \<Longrightarrow> srv_reach env w1 w2"
  by (induction rule: report_run.induct) (blast intro: reach_init reach_step)+

text \<open>Without an outstanding accept no session ever joins the registry again.\<close>

lemma event_without_accept:
  assumes "srv_inv w" and "srv_accepting w = 0" and "exec_event env e w = Inr w'"
  shows "srv_accepting w' = 0 \<and> map_keys (srv_sessions w') \<subseteq> map_keys (srv_sessions w) \<and>
    srv_alloc w' = srv_alloc w"
proof (cases e)
  case (EvAccept ec peer msg0 tx0 rx0)
  then show ?thesis using assms by (simp add: complete_accept_def)
next
  case (EvRead a ec chunk)
  then show ?thesis
    using complete_read_rel[OF assms(1)] assms by (simp add: srv_frame_def)
next
  case (EvWrite a ec k)
  then show ?thesis
    using complete_write_rel[OF assms(1)] assms by (simp add: srv_frame_def)
next
  case EvStop
  then show ?thesis using server_stop_keeps[of w w'] assms by auto
qed

lemma reach_without_accept:
  "srv_reach env w0 w \<Longrightarrow> srv_inv w0 \<Longrightarrow> srv_accepting w0 = 0 \<Longrightarrow>
     srv_accepting w = 0 \<and> map_keys (srv_sessions w) \<subseteq> map_keys (srv_sessions w0) \<and>
     srv_alloc w = srv_alloc w0"
proof (induction rule: srv_reach.induct)
  case (reach_step w e w')
  then show ?case using event_without_accept[of w e w'] reach_inv by auto
qed simp


subsection \<open>Identifiers\<close>

text \<open>Opening a session leaves the server alone: only the opened handler runs.\<close>

lemma session_start_same:
  assumes "srv_inv w" and "session_start (server_env env) a w = Inr w'"
  shows "srv_same w w'"
proof -
  from assms(2) obtain s where s: "heap w a = Some s"
    by (auto simp: session_start_def session_inverts)
  let ?w2 = "put_session a (s\<lparr>s_state := SessOpened\<rparr>) w"
  from assms(2) s obtain w3 s3 where f: "fire_opened (server_env env) a ?w2 = Inr w3"
    and w': "w' = put_session a s3 w3"
    by (auto simp: session_start_def session_read_def session_inverts)
  have "all_ok ?w2"
    using srv_inv_all_ok[OF assms(1)] s by (auto simp: all_ok_def sess_ok_def write_ok_def)
  with f have "callback_frame ?w2 w3"
    by (auto simp: fire_opened_def server_env_def split: option.splits dest: opened_frame)
  then have "srv_same ?w2 w3" by (simp add: callback_frame_def)
  then show ?thesis using w' srv_same_trans srv_same_put by blast
qed

lemma accept_sessions:
  assumes "srv_inv w" and "wf_msg msg0" and "0 < srv_accepting w"
    and "srv_state w \<noteq> SrvStop" and "length (srv_sessions w) < maxSession (srv_config w)"
    and "complete_accept env EcOk peer msg0 tx0 rx0 w = Inr w'"
  shows "srv_free w = hd (srv_free w) # srv_free w' \<and>
    srv_sessions w' = map_emplace (hd (srv_free w)) (srv_alloc w) (srv_sessions w)"
proof -
  let ?w0 = "w\<lparr>srv_accepting := srv_accepting w - 1\<rparr>"
  from assms(3-6) obtain a w1 w2 where
    r: "register_session peer msg0 tx0 rx0 ?w0 = Inr (a, w1)" and
    st: "session_start (server_env env) a w1 = Inr w2" and acc: "startAccept w2 = Inr w'"
    by (auto simp: complete_accept_def Let_def bind_res_eq_Inr)
  have inv0: "srv_inv ?w0" using assms(1) by (auto simp: srv_inv_defs)
  have inv1: "srv_inv w1" using register_session_inv[OF inv0 r assms(2)] by blast
  obtain i free where f: "srv_free w = i # free" and w1: "srv_free w1 = free"
    "srv_sessions w1 = map_emplace i (srv_alloc w) (srv_sessions w)"
    by (rule register_session_decompose[OF r]) (rule that, simp_all)
  show ?thesis
    using session_start_same[OF inv1 st] f w1 startAccept_keeps[OF acc] by (simp add: srv_same_def)
qed

lemma accept_allocates:
  assumes "srv_inv w" and "ids_unique w" and "wf_msg msg0" and "0 < srv_accepting w"
    and "srv_state w \<noteq> SrvStop" and "length (srv_sessions w) < maxSession (srv_config w)"
    and "complete_accept env EcOk peer msg0 tx0 rx0 w = Inr w'"
  shows "\<exists>i. srv_free w = i # srv_free w' \<and> getSession i w = None \<and>
    srv_sessions w' = map_emplace i (srv_alloc w) (srv_sessions w) \<and> ids_unique w'"
proof -
  note acc = accept_sessions[OF assms(1,3-7)]
  then have "hd (srv_free w) \<in> set (srv_free w)" by (metis list.set_intros(1))
  then have "getSession (hd (srv_free w)) w = None"
    using assms(1,2) sm.keys_find[of "srv_sessions w" "hd (srv_free w)"]
    by (auto simp: ids_unique_def getSession_def map_keys_def srv_inv_def registry_inv_def)
  moreover have "ids_unique w'"
  proof -
    obtain i free where f: "srv_free w = i # free" "srv_free w' = free"
      and m: "srv_sessions w' = map_emplace i (srv_alloc w) (srv_sessions w)"
      using acc by (metis list.sel(1))
    show ?thesis using assms(2) f m by (auto simp: ids_unique_def keys_map_emplace)
  qed
  ultimately show ?thesis using acc by blast
qed

lemma close_releases:
  assumes "srv_inv w" and "ids_unique w" and "heap w a = Some s"
    and "getSession (s_id s) w = Some a" and "handleClose env a r w = Inr w'"
  shows "srv_free w' = srv_free w @ [s_id s] \<and> ids_unique w' \<and>
    (\<forall>j. getSession j w' = (if j = s_id s then None else getSession j w))"
proof -
  from handleClose_decompose[OF assms(1,5)] obtain w1 t where
    fr: "callback_frame w w1" and t: "heap w1 a = Some t"
    and w': "w' = w1\<lparr>srv_sessions := map_erase (s_id t) (srv_sessions w1),
                 srv_free := srv_free w1 @ [s_id t]\<rparr>" .
  have "same_reads w w1" using fr by (simp add: callback_frame_def)
  then have id: "s_id t = s_id s"
    using same_readsD[of w w1 a s] assms(3) t by (auto simp: same_identity_def)
  have same: "srv_sessions w1 = srv_sessions w" "srv_free w1 = srv_free w"
    using fr by (simp_all add: callback_frame_def srv_same_def)
  have inv: "smap_inv (srv_sessions w)" using assms(1) by (simp add: srv_inv_def registry_inv_def)
  have key: "s_id s \<in> map_keys (srv_sessions w)"
    using assms(4) inv sm.keys_find[of "srv_sessions w" "s_id s"]
    by (auto simp: getSession_def map_keys_def)
  have keys: "map_keys (map_erase (s_id s) (srv_sessions w)) = map_keys (srv_sessions w) - {s_id s}"
    using inv by (simp add: smap_facts)
  show ?thesis
    using assms(2) key w' unfolding id same ids_unique_def getSession_def
    by (auto simp: map_find_erase[OF inv] keys)
qed

lemma close_twice_duplicates:
  assumes "srv_inv w" and "handleClose env a r w = Inr w1" and "handleClose env a r' w1 = Inr w2"
  shows "\<not> distinct (srv_free w2)"
proof -
  have inv1: "srv_inv w1" and reads: "same_reads w w1" using handleClose_inv[OF assms(1,2)] by auto
  from handleClose_decompose[OF assms(1,2)] obtain v s where
    "heap v a = Some s" and w1: "w1 = v\<lparr>srv_sessions := map_erase (s_id s) (srv_sessions v),
                 srv_free := srv_free v @ [s_id s]\<rparr>" .
  then have s: "heap w1 a = Some s" by simp
  from handleClose_decompose[OF inv1 assms(3)] obtain v2 t where
    fr: "callback_frame w1 v2" and t: "heap v2 a = Some t"
    and w2: "w2 = v2\<lparr>srv_sessions := map_erase (s_id t) (srv_sessions v2),
                 srv_free := srv_free v2 @ [s_id t]\<rparr>" .
  have "same_reads w1 v2" "srv_free v2 = srv_free w1"
    using fr by (simp_all add: callback_frame_def srv_same_def)
  moreover have "s_id t = s_id s"
    using same_readsD[OF calculation(1) s] t by (auto simp: same_identity_def)
  ultimately show ?thesis using w1 w2 by simp
qed

lemma complete_accept_config:
  assumes "srv_inv w" and "complete_accept env ec peer msg0 tx0 rx0 w = Inr w'" and "wf_msg msg0"
  shows "srv_config w' = srv_config w"
proof (cases "0 < srv_accepting w")
  case True
  from assms(2) True show ?thesis
  proof (cases rule: complete_accept_cases)
    case dropped
    then show ?thesis by simp
  next
    case (accepted a w1 w2)
    have inv0: "srv_inv (w\<lparr>srv_accepting := srv_accepting w - 1\<rparr>)"
      using assms(1) by (auto simp: srv_inv_defs)
    have "srv_inv w1" using register_session_inv[OF inv0 accepted(3) assms(3)] by blast
    then have "srv_frame w1 w2" using session_start_rel accepted(4) by blast
    then show ?thesis
      using register_session_fields(5)[OF accepted(3)] startAccept_keeps(7)[OF accepted(5)]
      by (simp add: srv_frame_def)
  qed
next
  case False
  then show ?thesis using assms by (simp add: complete_accept_def)
qed

lemma reach_config:
  "srv_reach env w0 w \<Longrightarrow> srv_inv w0 \<Longrightarrow> srv_config w = srv_config w0"
proof (induction rule: srv_reach.induct)
  case (reach_step w e w')
  then have inv: "srv_inv w" and cfg: "srv_config w = srv_config w0" using reach_inv by auto
  show ?case
  proof (cases e)
    case (EvAccept ec peer msg0 tx0 rx0)
    then have "wf_msg msg0" "complete_accept env ec peer msg0 tx0 rx0 w = Inr w'"
      using reach_step.hyps by simp_all
    then show ?thesis using complete_accept_config[OF inv] cfg by simp
  next
    case (EvRead a ec chunk)
    then show ?thesis
      using complete_read_rel[OF inv] cfg reach_step.hyps by (simp add: srv_frame_def)
  next
    case (EvWrite a ec k)
    then show ?thesis
      using complete_write_rel[OF inv] cfg reach_step.hyps by (simp add: srv_frame_def)
  next
    case EvStop
    then show ?thesis using server_stop_keeps[of w w'] cfg reach_step.hyps by simp
  qed
qed simp

end

subsection \<open>Construction\<close>

lemma free_ids_loop_eq:
  "free_ids_loop n i q =
     (if i + int n < 2 ^ 31 \<or> n = 0 then Inr (q @ map (\<lambda>j. i + 1 + int j) [0..<n]) else Inl SignedOverflow)"
proof (induction n arbitrary: i q)
  case (Suc n)
  have "map (\<lambda>j. i + 1 + int j) [0..<Suc n] = (i + 1) # map (\<lambda>j. i + 1 + 1 + int j) [0..<n]"
    by (simp add: upt_conv_Cons map_Suc_upt[symmetric] add.assoc del: upt_Suc)
  then show ?case using Suc[of "i + 1" "q @ [i + 1]"] by (auto simp del: upt_Suc)
qed simp

lemma ids_list: "set (map (\<lambda>j. 1 + int j) [0..<n]) = {1..int n}"
proof (rule set_eqI)
  fix x
  show "x \<in> set (map (\<lambda>j. 1 + int j) [0..<n]) \<longleftrightarrow> x \<in> {1..int n}"
    by (auto simp: image_iff intro: bexI[of _ "nat (x - 1)"])
qed

lemma TcpServer_new_eq:
  "TcpServer_new name config =
     (if maxSession config < 2 ^ 31
      then Inr \<lparr>heap = (\<lambda>_. None), srv_name = name, srv_config = config, srv_state = SrvReady,
         srv_pool = IoServicePool_new (threadCount config),
         srv_free = map (\<lambda>j. 1 + int j) [0..<maxSession config], srv_sessions = [],
         srv_openedHandler = None, srv_closedHandler = None, srv_messageHandler = None,
         srv_acceptor = None, srv_socket = None, srv_accepting = 0, srv_alloc = 0\<rparr>
      else Inl SignedOverflow)"
  by (auto simp: TcpServer_new_def free_ids_loop_eq)

lemma TcpServer_new_inv:
  assumes "TcpServer_new name config = Inr w"
  shows "srv_inv w \<and> ids_unique w"
proof -
  have "heap w = (\<lambda>_. None)" "srv_sessions w = []" "srv_config w = config" "srv_accepting w = 0"
    "srv_free w = map (\<lambda>j. 1 + int j) [0..<maxSession config]"
    "srv_pool w = IoServicePool_new (threadCount config)"
    using assms by (auto simp: TcpServer_new_eq split: if_splits)
  moreover have "distinct (map (\<lambda>j. 1 + int j) [0..<maxSession config])"
    by (simp add: distinct_map inj_on_def)
  ultimately show ?thesis
    using ids_list[of "maxSession config"]
    by (simp add: srv_inv_defs ids_unique_def pool_inv_new del: set_map)
qed

lemma listen_cases:
  assumes "listen os ep w = Inr w'"
  obtains i p where "getIoService (srv_pool w) = Inr (i, p)" and "os_bind os ep"
    and "startAccept (w\<lparr>srv_pool := p,
              srv_acceptor := Some \<lparr>acc_endpoint = ep, acc_open = True\<rparr>, srv_state := SrvStart\<rparr>) = Inr w'"
  using assms by (auto simp: listen_def bind_res_eq_Inr split: if_splits)

lemma listen_inv:
  assumes "srv_inv w" and "srv_accepting w = 0" and "srv_state w \<noteq> SrvStop"
    and "listen os ep w = Inr w'"
  shows "srv_inv w'"
proof -
  obtain i p where g: "getIoService (srv_pool w) = Inr (i, p)"
    and st: "startAccept (w\<lparr>srv_pool := p,
      srv_acceptor := Some \<lparr>acc_endpoint = ep, acc_open = True\<rparr>, srv_state := SrvStart\<rparr>) = Inr w'"
    by (rule listen_cases[OF assms(4)]) (rule that)
  have "pool_inv p" using g assms(1) getIoService_inv by (auto simp: srv_inv_def)
  with assms(1-3) have "srv_inv (w\<lparr>srv_pool := p,
      srv_acceptor := Some \<lparr>acc_endpoint = ep, acc_open = True\<rparr>, srv_state := SrvStart\<rparr>)"
    by (simp add: srv_inv_defs)
  from startAccept_inv[OF this _ st] assms(2) show ?thesis by simp
qed

subsection \<open>Properties\<close>

text \<open>
  C34. Construction: for fewer than \<open>2 ^ 31\<close> sessions the identifiers \<open>1 .. maxSession\<close> are free, in
  order, the registry is empty and no accept is outstanding; for more the \<open>int\<close> counter overflows.
\<close>

theorem server_construction:
  "TcpServer_new name config = Inl SignedOverflow \<and> 2 ^ 31 \<le> maxSession config \<or>
   (\<exists>w. TcpServer_new name config = Inr w \<and> maxSession config < 2 ^ 31 \<and>
     srv_free w = map int [1..<maxSession config + 1] \<and> srv_sessions w = [] \<and> ids_unique w \<and>
     srv_ids w = set (srv_free w) \<and> getState w = SrvReady \<and> srv_accepting w = 0)"
proof (cases "maxSession config < 2 ^ 31")
  case True
  have "map int [1..<maxSession config + 1] = map (\<lambda>j. 1 + int j) [0..<maxSession config]"
    by (simp add: map_Suc_upt[symmetric] o_def del: upt_Suc)
  moreover obtain w where w: "TcpServer_new name config = Inr w"
    using True by (simp add: TcpServer_new_eq)
  ultimately show ?thesis
    using True TcpServer_new_inv[OF w] ids_list[of "maxSession config"]
    by (auto simp: TcpServer_new_eq srv_ids_def getState_def simp del: set_map)
next
  case False
  then show ?thesis by (simp add: TcpServer_new_eq)
qed

definition demo_os :: os_env where
  "demo_os = \<lparr>os_parse = (\<lambda>s. s = ''127.0.0.1''), os_bind = (\<lambda>ep. True)\<rparr>"

definition demo_config :: ServerConfig where
  "demo_config = ServerConfig_default\<lparr>maxSession := 2\<rparr>"

end
