(* ===== verification/Redis_Client.thy ===== *)
theory Redis_Client
  imports Torinet_Prelude
begin

text \<open>
  The wrapper around hiredis: \<open>chat_server/Redis.h\<close> and \<open>chat_server/Redis.cpp\<close>. hiredis itself is
  a parameter: whether a connection can be allocated and whether it is in error, and what a
  command answers on a connection that already carried other commands. A context records the
  commands it was given.
\<close>

subsection \<open>Data\<close>

datatype redis_reply_type = REDIS_REPLY_ERROR | REDIS_REPLY_STRING | REDIS_REPLY_INTEGER
  | REDIS_REPLY_ARRAY | REDIS_REPLY_OTHER nat

record redisReply =
  reply_type :: redis_reply_type
  reply_elements :: nat

record redisContext =
  ctx_err :: nat
  ctx_sent :: "string list"

record hiredis =
  redisConnect :: "string \<Rightarrow> int \<Rightarrow> redisContext option"
  redisCommand :: "redisContext \<Rightarrow> string \<Rightarrow> redisReply option"

text \<open>The member \<open>reply_\<close>: null, an object, or the address of an object already freed.\<close>

datatype reply_ptr = ReplyNull | ReplyLive redisReply | ReplyFreed redisReply

record Redis =
  rd_host :: string
  rd_port :: int
  rd_context :: "redisContext option"
  rd_reply :: reply_ptr

abbreviation REDIS_PORT :: int where "REDIS_PORT \<equiv> 6379"

subsection \<open>Operations\<close>

definition Redis_new :: Redis where
  "Redis_new = \<lparr>rd_host = [], rd_port = REDIS_PORT, rd_context = None, rd_reply = ReplyNull\<rparr>"

text \<open>The destructor frees the context it finds.\<close>

definition Redis_delete :: "Redis \<Rightarrow> redisContext list" where
  "Redis_delete r = (case rd_context r of None \<Rightarrow> [] | Some c \<Rightarrow> [c])"

definition Redis_connect :: "hiredis \<Rightarrow> string \<Rightarrow> Redis \<Rightarrow> bool \<times> Redis" where
  "Redis_connect hi ip r =
     (let r1 = r\<lparr>rd_host := ip, rd_context := redisConnect hi ip (rd_port r)\<rparr>
      in case rd_context r1 of
           None \<Rightarrow> (False, r1)
         | Some c \<Rightarrow> (if ctx_err c \<noteq> 0 then (False, r1) else (True, r1)))"

definition Redis_send :: "hiredis \<Rightarrow> string \<Rightarrow> Redis \<Rightarrow> bool \<times> Redis" where
  "Redis_send hi command r =
     (case rd_context r of
        None \<Rightarrow> (False, r)
      | Some c \<Rightarrow>
          (let r1 = r\<lparr>rd_context := Some (c\<lparr>ctx_sent := ctx_sent c @ [command]\<rparr>)\<rparr>
           in case redisCommand hi c command of
                None \<Rightarrow> (False, r1\<lparr>rd_reply := ReplyNull\<rparr>)
              | Some reply \<Rightarrow>
                  (let rtn = (case reply_type reply of
                       REDIS_REPLY_ERROR \<Rightarrow> False
                     | REDIS_REPLY_STRING \<Rightarrow> True
                     | REDIS_REPLY_INTEGER \<Rightarrow> True
                     | REDIS_REPLY_ARRAY \<Rightarrow> True
                     | REDIS_REPLY_OTHER n \<Rightarrow> False)
                   in (rtn, r1\<lparr>rd_reply := ReplyFreed reply\<rparr>))))"

definition getHost :: "Redis \<Rightarrow> string" where "getHost r = rd_host r"
definition getPort :: "Redis \<Rightarrow> int" where "getPort r = rd_port r"
definition getRedisContext :: "Redis \<Rightarrow> redisContext option" where "getRedisContext r = rd_context r"
definition getRedisReply :: "Redis \<Rightarrow> reply_ptr" where "getRedisReply r = rd_reply r"

text \<open>The commands the connection has carried.\<close>

definition redis_log :: "Redis \<Rightarrow> string list" where
  "redis_log r = (case rd_context r of None \<Rightarrow> [] | Some c \<Rightarrow> ctx_sent c)"

subsection \<open>Lemmas\<close>

lemma Redis_send_log:
  "redis_log (snd (Redis_send hi cmd r)) = redis_log r @ (if rd_context r = None then [] else [cmd])"
  by (auto simp: Redis_send_def redis_log_def Let_def split: option.splits)

lemma Redis_send_context: "rd_context (snd (Redis_send hi cmd r)) = None \<longleftrightarrow> rd_context r = None"
  by (auto simp: Redis_send_def Let_def split: option.splits)

lemma Redis_send_reply_not_live:
  "rd_reply r \<notin> range ReplyLive \<Longrightarrow> rd_reply (snd (Redis_send hi cmd r)) \<notin> range ReplyLive"
  by (auto simp: Redis_send_def Let_def split: option.splits)

text \<open>A run of commands on one connection.\<close>

definition send_all :: "hiredis \<Rightarrow> string list \<Rightarrow> Redis \<Rightarrow> Redis" where
  "send_all hi cmds r = fold (\<lambda>c r. snd (Redis_send hi c r)) cmds r"

lemma send_all_log:
  "rd_context r \<noteq> None \<Longrightarrow> redis_log (send_all hi cmds r) = redis_log r @ cmds \<and>
     rd_context (send_all hi cmds r) \<noteq> None"
  unfolding send_all_def
  by (induction cmds arbitrary: r) (simp_all add: Redis_send_log Redis_send_context del: not_None_eq)

lemma send_all_reply:
  "rd_reply r \<notin> range ReplyLive \<Longrightarrow> rd_reply (send_all hi cmds r) \<notin> range ReplyLive"
  unfolding send_all_def
  by (induction cmds arbitrary: r) (simp_all add: Redis_send_reply_not_live)

lemma send_all_unconnected: "rd_context r = None \<Longrightarrow> send_all hi cmds r = r"
  unfolding send_all_def by (induction cmds) (simp_all add: Redis_send_def)

subsection \<open>Properties\<close>

text \<open>
  A run of \<open>send\<close> calls on a fresh wrapper that was connected issues exactly these commands,
  in order, on one context; without a context nothing is issued and the wrapper stays as it is. In
  both cases \<open>getRedisReply\<close> never yields a usable reply: it is null or the address of a freed
  object.
\<close>

theorem redis_commands_in_order:
  "let r0 = snd (Redis_connect hi ip Redis_new) in
     (case redisConnect hi ip 6379 of
        None \<Rightarrow> send_all hi cmds r0 = r0
      | Some c \<Rightarrow> redis_log (send_all hi cmds r0) = ctx_sent c @ cmds) \<and>
     (\<forall>reply. getRedisReply (send_all hi cmds r0) \<noteq> ReplyLive reply)"
proof -
  define r0 where "r0 = snd (Redis_connect hi ip Redis_new)"
  have c: "rd_context r0 = redisConnect hi ip 6379" and "rd_reply r0 = ReplyNull"
    by (auto simp: r0_def Redis_connect_def Redis_new_def Let_def split: option.splits)
  then have "rd_reply (send_all hi cmds r0) \<notin> range ReplyLive" using send_all_reply[of r0] by auto
  moreover have "case redisConnect hi ip 6379 of
       None \<Rightarrow> send_all hi cmds r0 = r0
     | Some c \<Rightarrow> redis_log (send_all hi cmds r0) = ctx_sent c @ cmds"
    using send_all_log[of r0 hi cmds] send_all_unconnected[of r0 hi cmds] c
    by (auto simp: redis_log_def split: option.splits)
  ultimately show ?thesis by (auto simp: getRedisReply_def Let_def r0_def[symmetric])
qed

text \<open>
  What \<open>send\<close> returns, on every branch: true exactly when there is a context, the command got
  a reply, and the reply is a string, an integer or an array. An error reply, a status reply and a
  nil reply all count as failures.
\<close>

theorem redis_send_result:
  "fst (Redis_send hi cmd r) \<longleftrightarrow>
     (\<exists>c reply. rd_context r = Some c \<and> redisCommand hi c cmd = Some reply \<and>
        reply_type reply \<in> {REDIS_REPLY_STRING, REDIS_REPLY_INTEGER, REDIS_REPLY_ARRAY})"
  by (auto simp: Redis_send_def Let_def split: option.splits redis_reply_type.splits)

end
