(* ===== verification/Chat_Server.thy ===== *)
theory Chat_Server
  imports Tcp_Server Redis_Client
begin

text \<open>
  The chat application: \<open>chat_server/ChatServer.h\<close> and \<open>chat_server/ChatServer.cpp\<close>. The world of
  the TCP server is extended with the members of \<open>ChatServer\<close>; its three handlers are the
  environment the sessions call into. Logging is not modelled, but what it reads is.
\<close>

subsection \<open>Data\<close>

record Character =
  chr_id :: string
  chr_name :: string
  chr_session :: addr
  chr_room :: "addr option"

record Room =
  room_characters :: "addr set"
  room_master :: addr
  room_cnt :: int
  room_id :: int

text \<open>\<open>ios_\<close> is a reference to one service of the pool, here its index.\<close>

record chat_world = tcp_world +
  chat_ios :: nat
  chat_rooms :: "(int, addr) smap"
  chat_characters :: "(int, addr) smap"
  chat_redis :: Redis

subsection \<open>Construction, start and stop\<close>

definition ChatServer_new :: "string \<Rightarrow> ServerConfig \<Rightarrow> chat_world res" where
  "ChatServer_new name config =
     bind_res (TcpServer_new name config) (\<lambda>w.
     bind_res (getIoService (getIoServicePool w)) (\<lambda>(i, p).
       Inr (tcp_world.extend (w\<lparr>srv_pool := p\<rparr>)
         \<lparr>chat_ios = i, chat_rooms = [], chat_characters = [], chat_redis = Redis_new\<rparr>)))"

definition opened_name :: hfun where "opened_name = 1"
definition closed_name :: hfun where "closed_name = 2"
definition message_name :: hfun where "message_name = 3"

text \<open>The port is an \<open>int\<close>, narrowed to \<open>uint16_t\<close> by the call of \<open>TcpServer::start\<close>.\<close>

definition chat_start ::
  "hiredis \<Rightarrow> os_env \<Rightarrow> string \<Rightarrow> int \<Rightarrow> chat_world \<Rightarrow> chat_world res" where
  "chat_start hi os ip port w =
     (let (ok, r) = Redis_connect hi ip (chat_redis w); w1 = w\<lparr>chat_redis := r\<rparr>
      in if ok = False then Inr w1
         else start_address os ip (word_of_int port)
                (registerMessageHandler message_name
                  (registerSessionClosedHandler closed_name
                    (registerSessionOpenedHandler opened_name w1))))"

definition chat_stop :: "chat_world \<Rightarrow> chat_world" where
  "chat_stop w = w\<lparr>srv_pool := (srv_pool w)\<lparr>m_ios :=
     (m_ios (srv_pool w))[chat_ios w := (m_ios (srv_pool w) ! chat_ios w)\<lparr>ios_stopped := True\<rparr>]\<rparr>\<rparr>"

subsection \<open>Handlers\<close>

definition openedHandler :: "addr \<Rightarrow> chat_world \<Rightarrow> chat_world res" where
  "openedHandler a w = with_session a (\<lambda>s. Inr w) w"

definition closedHandler :: "addr \<Rightarrow> CloseReason \<Rightarrow> chat_world \<Rightarrow> chat_world res" where
  "closedHandler a reason w = with_session a (\<lambda>s. Inr w) w"

definition redis_send :: "hiredis \<Rightarrow> string \<Rightarrow> chat_world \<Rightarrow> chat_world" where
  "redis_send hi cmd w = w\<lparr>chat_redis := snd (Redis_send hi cmd (chat_redis w))\<rparr>"

text \<open>
  The body is cast to \<open>RqCreateUser\<close> and its \<open>id\<close> read as a C string; the result is only logged.
\<close>

definition zadd_cmd :: "int \<Rightarrow> string" where
  "zadd_cmd i = ''zadd user:ranking 0 session_'' @ to_string i"

definition rqCreateUser :: "hiredis \<Rightarrow> addr \<Rightarrow> chat_world \<Rightarrow> chat_world res" where
  "rqCreateUser hi a w = with_session a (\<lambda>s.
     bind_res (strlen (msg_body (getMsg s))) (\<lambda>n.
       Inr (redis_send hi (zadd_cmd (getID s)) w))) w"

definition zincrby_cmd :: "int \<Rightarrow> int \<Rightarrow> string" where
  "zincrby_cmd n i = ''zincrby user:ranking '' @ to_string n @ '' session_'' @ to_string i"

text \<open>One iteration of the broadcast loop.\<close>

definition broadcast_entry :: "addr \<Rightarrow> int \<times> addr \<Rightarrow> chat_world \<Rightarrow> chat_world res" where
  "broadcast_entry a e w =
     (if a = snd e then Inr w
      else with_session a (\<lambda>s. upd_session (snd e) (session_send_mutable (getMsg s)) w) w)"

definition nfMessage :: "hiredis \<Rightarrow> addr \<Rightarrow> chat_world \<Rightarrow> chat_world res" where
  "nfMessage hi a w = with_session a (\<lambda>s.
     bind_res (strlen (msg_body (getMsg s))) (\<lambda>n.
       let w1 = redis_send hi (zincrby_cmd (int n) (getID s)) w
       in fold_res (broadcast_entry a) (srv_sessions w1) w1)) w"

definition messageHandler :: "hiredis \<Rightarrow> addr \<Rightarrow> chat_world \<Rightarrow> chat_world res" where
  "messageHandler hi a w = with_session a (\<lambda>s.
     let id = sint (hdr_msgId (msg_hdr (getMsg s)))
     in if id = MsgId_val RQ_CREATE_USER then rqCreateUser hi a w
        else if id = MsgId_val NF_MESSAGE then nfMessage hi a w
        else Inr w) w"

definition getCharacter :: "int \<Rightarrow> chat_world \<Rightarrow> addr option" where
  "getCharacter i w = map_find i (chat_characters w)"

text \<open>The three lambdas \<open>start\<close> registers.\<close>

definition chat_env :: "hiredis \<Rightarrow> chat_world env" where
  "chat_env hi = \<lparr>
     run_opened = (\<lambda>h a w. if h = opened_name then openedHandler a w else Inl BadFunctionCall),
     run_closed = (\<lambda>h a r w. if h = closed_name then closedHandler a r w else Inl BadFunctionCall),
     run_message = (\<lambda>h a w. if h = message_name then messageHandler hi a w else Inl BadFunctionCall)\<rparr>"

subsection \<open>The handlers keep to the contract of the server\<close>

lemma chat_redis_update [simp]:
  "heap (redis_send hi cmd w) = heap w" "srv_sessions (redis_send hi cmd w) = srv_sessions w"
  "srv_same w (redis_send hi cmd w)" "same_reads w (redis_send hi cmd w)"
  "all_ok (redis_send hi cmd w) = all_ok w"
  by (simp_all add: redis_send_def srv_same_def same_reads_def all_ok_def)

lemma callback_frame_redis: "all_ok w \<Longrightarrow> callback_frame w (redis_send hi cmd w)"
  by (simp add: callback_frame_def)

lemma callback_frame_trans: "callback_frame u v \<Longrightarrow> callback_frame v w \<Longrightarrow> callback_frame u w"
  by (auto simp: callback_frame_def intro: srv_same_trans same_reads_trans)

lemma callback_frame_put:
  assumes "all_ok w" and "heap w a = Some s" and "sess_ok s'" and "same_identity s s'"
    and "s_reading s' = s_reading s"
  shows "callback_frame w (put_session a s' w)"
proof -
  have "dom (heap (put_session a s' w)) = dom (heap w)"
    using assms(2) by (auto simp: dom_def)
  then show ?thesis
    using assms same_reads_put[OF assms(2,5,4)]
    by (simp add: callback_frame_def all_ok_def)
qed

lemma session_send_mutable_eq: "session_send_mutable = session_send"
  by (intro ext) (simp add: session_send_mutable_def session_send_def)

lemma broadcast_entry_frame:
  assumes "all_ok w" and "broadcast_entry a e w = Inr w'"
  shows "callback_frame w w'"
proof (cases "a = snd e")
  case True
  then show ?thesis using assms by (simp add: broadcast_entry_def)
next
  case False
  with assms(2) obtain s t t' where s: "heap w a = Some s" and t: "heap w (snd e) = Some t"
    and t': "session_send (s_msg s) t = Inr t'" and w': "w' = put_session (snd e) t' w"
    by (auto simp: broadcast_entry_def session_inverts session_send_mutable_eq getMsg_def)
  have "sess_ok t" "wf_msg (s_msg s)" using assms(1) s t by (auto simp: all_ok_def sess_ok_def)
  from session_send_ok[OF t' this] show ?thesis
    unfolding w' by (intro callback_frame_put[OF assms(1) t]) auto
qed

lemma broadcast_frame:
  assumes "all_ok w" and "fold_res (broadcast_entry a) es w = Inr w'"
  shows "callback_frame w w'"
proof (rule fold_res_invariant[where P = "callback_frame w", OF _ _ assms(2)])
  show "callback_frame w v'" if "callback_frame w v" "broadcast_entry a e v = Inr v'" for e v v'
  proof -
    have "all_ok v" using that(1) by (simp add: callback_frame_def)
    then show ?thesis using callback_frame_trans[OF that(1)] broadcast_entry_frame that(2) by blast
  qed
qed (use assms(1) in simp)

lemma rqCreateUser_frame:
  "all_ok w \<Longrightarrow> rqCreateUser hi a w = Inr w' \<Longrightarrow> callback_frame w w'"
  by (auto simp: rqCreateUser_def session_inverts callback_frame_redis)

lemma nfMessage_frame:
  assumes "all_ok w" and "nfMessage hi a w = Inr w'"
  shows "callback_frame w w'"
proof -
  from assms(2) obtain cmd where
    "fold_res (broadcast_entry a) (srv_sessions w) (redis_send hi cmd w) = Inr w'"
    by (auto simp: nfMessage_def session_inverts Let_def)
  then show ?thesis
    using assms(1) broadcast_frame callback_frame_redis callback_frame_trans
    by (metis chat_redis_update(5))
qed

lemma messageHandler_frame:
  "all_ok w \<Longrightarrow> messageHandler hi a w = Inr w' \<Longrightarrow> callback_frame w w'"
  by (auto simp: messageHandler_def session_inverts Let_def
      dest: rqCreateUser_frame nfMessage_frame split: if_splits)

interpretation chat_app: server_app "chat_env hi" for hi
proof unfold_locales
  show "callback_frame w w'" if "all_ok w" "run_opened (chat_env hi) h a w = Inr w'" for w w' h a
    using that by (auto simp: chat_env_def openedHandler_def session_inverts split: if_splits)
  show "callback_frame w w'" if "all_ok w" "run_closed (chat_env hi) h a r w = Inr w'" for w w' h a r
    using that by (auto simp: chat_env_def closedHandler_def session_inverts split: if_splits)
  show "callback_frame w w'" if "all_ok w" "run_message (chat_env hi) h a w = Inr w'" for w w' h a
    using that by (auto simp: chat_env_def messageHandler_frame split: if_splits)
qed

subsection \<open>The started server\<close>

lemma ChatServer_new_cases:
  assumes "ChatServer_new name config = Inr w"
  obtains v i p where "TcpServer_new name config = Inr v" and "getIoService (srv_pool v) = Inr (i, p)"
    and "w = tcp_world.extend (v\<lparr>srv_pool := p\<rparr>)
         \<lparr>chat_ios = i, chat_rooms = [], chat_characters = [], chat_redis = Redis_new\<rparr>"
  using assms by (auto simp: ChatServer_new_def bind_res_eq_Inr getIoServicePool_def)

lemma ChatServer_new_inv:
  assumes "ChatServer_new name config = Inr w"
  shows "srv_inv w \<and> ids_unique w \<and> srv_accepting w = 0 \<and> srv_alloc w = 0 \<and> srv_sessions w = [] \<and>
    srv_config w = config \<and> srv_state w = SrvReady \<and> chat_redis w = Redis_new \<and>
    length (m_ios (srv_pool w)) = threadCount config \<and> pool_threads (srv_pool w) = []"
proof -
  from ChatServer_new_cases[OF assms] obtain v i p where v: "TcpServer_new name config = Inr v"
    and g: "getIoService (srv_pool v) = Inr (i, p)"
    and w: "w = tcp_world.extend (v\<lparr>srv_pool := p\<rparr>)
         \<lparr>chat_ios = i, chat_rooms = [], chat_characters = [], chat_redis = Redis_new\<rparr>"
    by blast
  have c: "srv_accepting v = 0" "srv_alloc v = 0" "srv_sessions v = []" "srv_config v = config"
    "srv_state v = SrvReady" "srv_pool v = IoServicePool_new (threadCount config)"
    using v by (auto simp: TcpServer_new_eq split: if_splits)
  have "pool_inv p" using g TcpServer_new_inv[OF v] getIoService_inv by (auto simp: srv_inv_def)
  moreover have "m_ios p = m_ios (srv_pool v)" "pool_threads p = pool_threads (srv_pool v)"
    using getIoService_keeps[OF g] by auto
  ultimately show ?thesis
    using TcpServer_new_inv[OF v] c w
    by (simp add: srv_inv_defs ids_unique_def tcp_world.defs IoServicePool_new_eq)
qed

text \<open>What an armed accept needs to succeed.\<close>

definition chat_ready :: "chat_world \<Rightarrow> bool" where
  "chat_ready w \<longleftrightarrow> (0 < srv_accepting w \<longrightarrow> srv_socket w \<noteq> None \<and> srv_acceptor w \<noteq> None \<and>
     m_ios (srv_pool w) \<noteq> [] \<and> srv_openedHandler w = Some opened_name \<and>
     srv_closedHandler w = Some closed_name \<and> srv_messageHandler w = Some message_name)"

lemma chat_ready_frame: "chat_ready w \<Longrightarrow> srv_frame w w' \<Longrightarrow> chat_ready w'"
  by (simp add: chat_ready_def srv_frame_def)

lemma startAccept_ready:
  assumes "startAccept w = Inr w'" and "srv_openedHandler w = Some opened_name"
    and "srv_closedHandler w = Some closed_name" and "srv_messageHandler w = Some message_name"
  shows "chat_ready w'"
proof -
  obtain i p where g: "getIoService (srv_pool w) = Inr (i, p)" and "srv_acceptor w \<noteq> None"
    and w': "w' = w\<lparr>srv_socket := Some fresh_socket, srv_accepting := srv_accepting w + 1,
                 srv_pool := pool_run p\<rparr>"
    by (rule startAccept_cases[OF assms(1)]) (rule that)
  moreover have "m_ios p \<noteq> []"
    using g by (auto simp: getIoService_def Let_def split: if_splits)
  ultimately show ?thesis using assms(2-4) by (simp add: chat_ready_def pool_run_def)
qed

lemma srv_inv_members [simp]:
  "srv_inv (w\<lparr>chat_redis := r\<rparr>) = srv_inv w"
  "srv_inv (v\<lparr>srv_openedHandler := h\<rparr>) = srv_inv v"
  "srv_inv (v\<lparr>srv_closedHandler := h\<rparr>) = srv_inv v"
  "srv_inv (v\<lparr>srv_messageHandler := h\<rparr>) = srv_inv v"
  by (simp_all add: srv_inv_defs)

lemma chat_start_cases:
  assumes "chat_start hi os ip port w = Inr w'"
  obtains (no_redis) "w' = w\<lparr>chat_redis := snd (Redis_connect hi ip (chat_redis w))\<rparr>"
      "\<not> fst (Redis_connect hi ip (chat_redis w))"
  | (started) w1 where "w1 = w\<lparr>chat_redis := snd (Redis_connect hi ip (chat_redis w)),
        srv_openedHandler := Some opened_name, srv_closedHandler := Some closed_name,
        srv_messageHandler := Some message_name\<rparr>"
      "fst (Redis_connect hi ip (chat_redis w))" "listen os (ip, word_of_int port) w1 = Inr w'"
  using assms
  by (cases "Redis_connect hi ip (chat_redis w)")
    (auto simp: chat_start_def start_address_def registerMessageHandler_def
      registerSessionClosedHandler_def registerSessionOpenedHandler_def Let_def split: if_splits)

lemma listen_effect:
  assumes "listen os ep w = Inr w'"
  shows "srv_sessions w' = srv_sessions w" "srv_free w' = srv_free w" "srv_config w' = srv_config w"
    "srv_alloc w' = srv_alloc w" "srv_accepting w' = srv_accepting w + 1"
    "m_ios (srv_pool w') = m_ios (srv_pool w)" "srv_state w' = SrvStart"
    "length (pool_threads (srv_pool w')) =
       length (pool_threads (srv_pool w)) + length (m_ios (srv_pool w))"
proof -
  obtain i p where g: "getIoService (srv_pool w) = Inr (i, p)"
    and st: "startAccept (w\<lparr>srv_pool := p,
      srv_acceptor := Some \<lparr>acc_endpoint = ep, acc_open = True\<rparr>, srv_state := SrvStart\<rparr>) = Inr w'"
    by (rule listen_cases[OF assms]) (rule that)
  note e = startAccept_keeps[OF st] startAccept_threads[OF st] getIoService_keeps[OF g]
  show "srv_sessions w' = srv_sessions w" "srv_free w' = srv_free w" "srv_config w' = srv_config w"
    "srv_alloc w' = srv_alloc w" "srv_accepting w' = srv_accepting w + 1"
    "m_ios (srv_pool w') = m_ios (srv_pool w)" "srv_state w' = SrvStart"
    "length (pool_threads (srv_pool w')) =
       length (pool_threads (srv_pool w)) + length (m_ios (srv_pool w))"
    using e by simp_all
qed

lemma listen_ready:
  assumes "listen os ep w = Inr w'" and "srv_openedHandler w = Some opened_name"
    and "srv_closedHandler w = Some closed_name" and "srv_messageHandler w = Some message_name"
  shows "chat_ready w'"
proof -
  obtain i p where st: "startAccept (w\<lparr>srv_pool := p,
      srv_acceptor := Some \<lparr>acc_endpoint = ep, acc_open = True\<rparr>, srv_state := SrvStart\<rparr>) = Inr w'"
    by (rule listen_cases[OF assms(1)]) (rule that)
  show ?thesis using startAccept_ready[OF st] assms(2-4) by simp
qed

text \<open>
  A chat server that was constructed and started: the start either gave up on Redis, and then the
  server does not listen, or it armed exactly one accept.
\<close>

definition chat_boot ::
  "hiredis \<Rightarrow> os_env \<Rightarrow> string \<Rightarrow> ServerConfig \<Rightarrow> string \<Rightarrow> int \<Rightarrow> chat_world res" where
  "chat_boot hi os name config ip port =
     bind_res (ChatServer_new name config) (chat_start hi os ip port)"

lemma chat_boot_inv:
  assumes "chat_boot hi os name config ip port = Inr w"
  shows "srv_inv w \<and> ids_unique w \<and> chat_ready w \<and> srv_config w = config \<and> srv_sessions w = [] \<and>
    srv_alloc w = 0 \<and> (srv_state w = SrvStart \<longrightarrow> threads_inv (threadCount config) w)"
proof -
  from assms obtain w0 where w0: "ChatServer_new name config = Inr w0"
    and st: "chat_start hi os ip port w0 = Inr w"
    by (auto simp: chat_boot_def bind_res_eq_Inr)
  note new = ChatServer_new_inv[OF w0]
  from st show ?thesis
  proof (cases rule: chat_start_cases)
    case no_redis
    have "srv_inv w" using new no_redis(1) by simp
    then show ?thesis using new no_redis(1) by (simp add: ids_unique_def chat_ready_def)
  next
    case (started w1)
    have "srv_inv w1" "srv_accepting w1 = 0" "srv_state w1 \<noteq> SrvStop"
      using new started(1) by simp_all
    then have "srv_inv w" using listen_inv started(3) by blast
    moreover have "chat_ready w" using listen_ready[OF started(3)] started(1) by simp
    ultimately show ?thesis
      using new started(1) listen_effect[OF started(3)] by (simp add: ids_unique_def threads_inv_def)
  qed
qed

subsection \<open>Accepting never fails\<close>

lemma register_session_handlers:
  assumes "register_session peer msg0 tx0 rx0 w = Inr (a, w')"
  shows "srv_openedHandler w' = srv_openedHandler w" "srv_closedHandler w' = srv_closedHandler w"
    "srv_messageHandler w' = srv_messageHandler w"
proof -
  obtain i free s1 where
    w': "w' = (put_session a s1 (w\<lparr>srv_free := free, srv_socket := None, srv_alloc := a + 1\<rparr>))
             \<lparr>srv_sessions := map_emplace i a (srv_sessions w)\<rparr>"
    by (rule register_session_decompose[OF assms]) (rule that)
  show "srv_openedHandler w' = srv_openedHandler w" "srv_closedHandler w' = srv_closedHandler w"
    "srv_messageHandler w' = srv_messageHandler w"
    unfolding w' by simp_all
qed

lemma complete_accept_ready:
  assumes "srv_inv w" and "chat_ready w" and "wf_msg msg0"
    and "complete_accept (chat_env hi) ec peer msg0 tx0 rx0 w = Inr w'"
  shows "chat_ready w'"
proof (cases "0 < srv_accepting w")
  case True
  let ?w0 = "w\<lparr>srv_accepting := srv_accepting w - 1\<rparr>"
  have inv0: "srv_inv ?w0" using assms(1) by (auto simp: srv_inv_defs)
  from assms(4) True show ?thesis
  proof (cases rule: chat_app.complete_accept_cases)
    case dropped
    then show ?thesis using assms(1) by (simp add: srv_inv_def chat_ready_def)
  next
    case (accepted a w1 w2)
    have "srv_inv w1" using register_session_inv[OF inv0 accepted(3) assms(3)] by blast
    then have "srv_same w1 w2" using chat_app.session_start_same accepted(4) by blast
    then show ?thesis
      using startAccept_ready[OF accepted(5)] register_session_handlers[OF accepted(3)]
        assms(2) True
      by (simp add: chat_ready_def srv_same_def)
  qed
next
  case False
  then show ?thesis using assms by (simp add: complete_accept_def)
qed

lemma server_stop_ready:
  assumes "chat_ready w" and "server_stop w = Inr w'"
  shows "chat_ready w'"
proof (cases "srv_state w = SrvStart")
  case True
  with assms(2) obtain acc w1 where
    f: "fold_res close_entry (srv_sessions w) (w\<lparr>srv_acceptor := Some (acc\<lparr>acc_open := False\<rparr>)\<rparr>) = Inr w1"
    and w': "w' = w1\<lparr>srv_sessions := [], srv_free := [], srv_state := SrvStop\<rparr>"
    by (auto simp: server_stop_def bind_res_eq_Inr split: option.splits)
  show ?thesis using close_entries_same[OF f] w' assms(1) by (simp add: srv_same_def chat_ready_def)
next
  case False
  then show ?thesis using assms by (simp add: server_stop_def)
qed

lemma reach_ready:
  "srv_reach (chat_env hi) w0 w \<Longrightarrow> srv_inv w0 \<Longrightarrow> chat_ready w0 \<Longrightarrow> chat_ready w"
proof (induction rule: srv_reach.induct)
  case (reach_step w e w')
  then have inv: "srv_inv w" and rd: "chat_ready w" using chat_app.reach_inv by auto
  show ?case
  proof (cases e)
    case (EvAccept ec peer msg0 tx0 rx0)
    then have "wf_msg msg0"
      and "complete_accept (chat_env hi) ec peer msg0 tx0 rx0 w = Inr w'"
      using reach_step.hyps by simp_all
    then show ?thesis using complete_accept_ready[OF inv rd] by blast
  next
    case (EvRead a ec chunk)
    then show ?thesis
      using chat_app.complete_read_rel[OF inv] chat_ready_frame[OF rd] reach_step.hyps by simp
  next
    case (EvWrite a ec k)
    then show ?thesis
      using chat_app.complete_write_rel[OF inv] chat_ready_frame[OF rd] reach_step.hyps by simp
  next
    case EvStop
    then show ?thesis using server_stop_ready[OF rd] reach_step.hyps by simp
  qed
qed simp

lemma session_start_chat:
  assumes "heap w a = Some s" and "s_openedHandler s = Some opened_name"
  shows "session_start (server_env (chat_env hi)) a w =
    Inr (put_session a (s\<lparr>s_state := SessOpened, s_reading := s_reading s @ [RdHeader 8]\<rparr>) w)"
  using assms
  by (simp add: session_start_def fire_opened_def server_env_def chat_env_def openedHandler_def
      session_read_def)

lemma startAccept_succeeds:
  assumes "m_ios (srv_pool w) \<noteq> []" and "srv_acceptor w \<noteq> None"
  shows "\<exists>w'. startAccept w = Inr w'"
proof -
  obtain i p where "getIoService (srv_pool w) = Inr (i, p)"
    using assms(1) by (fastforce simp: getIoService_def Let_def)
  with assms(2) show ?thesis by (auto simp: startAccept_def)
qed

lemma register_session_succeeds:
  assumes "srv_free w = i # free" and "srv_socket w \<noteq> None"
  obtains w' s where "register_session (Some ep) msg0 tx0 rx0 w = Inr (srv_alloc w, w')"
    "heap w' (srv_alloc w) = Some s" "s_openedHandler s = srv_openedHandler w" "s_id s = i"
    "s_reading s = []" "s_remoteEndpoint s = ep" "srv_acceptor w' = srv_acceptor w"
    "srv_pool w' = srv_pool w" "srv_sessions w' = map_emplace i (srv_alloc w) (srv_sessions w)" "srv_free w' = free"
  using assms
  by (auto simp: register_session_def TcpSession_server_def getID_def Let_def split: option.splits)

text \<open>An armed accept with a free identifier.\<close>

lemma accept_takes_first:
  assumes "chat_ready w" and "0 < srv_accepting w" and "srv_free w = i # free"
    and "srv_state w \<noteq> SrvStop" and "length (srv_sessions w) < maxSession (srv_config w)"
  shows "\<exists>w' s. complete_accept (chat_env hi) EcOk (Some ep) msg0 tx0 rx0 w = Inr w' \<and>
    heap w' (srv_alloc w) = Some s \<and> s_id s = i \<and> isOpen s \<and>
    s_reading s = [RdHeader 8] \<and> getRemoteEndpoint s = Some ep \<and>
    srv_accepting w' = srv_accepting w \<and> srv_free w' = free \<and>
    srv_sessions w' = map_emplace i (srv_alloc w) (srv_sessions w)"
proof -
  let ?w0 = "w\<lparr>srv_accepting := srv_accepting w - 1\<rparr>"
  have rd: "srv_socket ?w0 \<noteq> None" "srv_acceptor w \<noteq> None" "m_ios (srv_pool w) \<noteq> []"
    "srv_openedHandler w = Some opened_name"
    using assms(1,2) by (simp_all add: chat_ready_def)
  have f0: "srv_free ?w0 = i # free" using assms(3) by simp
  from register_session_succeeds[OF f0 rd(1), of ep msg0 tx0 rx0] obtain w1 s where
    r: "register_session (Some ep) msg0 tx0 rx0 ?w0 = Inr (srv_alloc ?w0, w1)"
    and s0: "heap w1 (srv_alloc ?w0) = Some s" "s_openedHandler s = srv_openedHandler ?w0" "s_id s = i"
      "s_reading s = []" "s_remoteEndpoint s = ep"
    and w1: "srv_acceptor w1 = srv_acceptor ?w0" "srv_pool w1 = srv_pool ?w0"
      "srv_sessions w1 = map_emplace i (srv_alloc ?w0) (srv_sessions ?w0)" "srv_free w1 = free" .
  have s: "heap w1 (srv_alloc w) = Some s" "s_openedHandler s = Some opened_name" "s_id s = i"
      "s_reading s = []" "s_remoteEndpoint s = ep"
    using s0 rd(4) by simp_all
  let ?s2 = "s\<lparr>s_state := SessOpened, s_reading := [RdHeader 8]\<rparr>"
  let ?w2 = "put_session (srv_alloc w) ?s2 w1"
  have st: "session_start (server_env (chat_env hi)) (srv_alloc w) w1 = Inr ?w2"
    using session_start_chat[OF s(1,2)] s(4) by simp
  obtain w' where acc: "startAccept ?w2 = Inr w'"
    using startAccept_succeeds[of ?w2] rd w1 by auto
  have "complete_accept (chat_env hi) EcOk (Some ep) msg0 tx0 rx0 w = Inr w'"
    using assms(2,4,5) r st acc by (simp add: complete_accept_def)
  moreover have "heap w' (srv_alloc w) = Some ?s2" using startAccept_keeps[OF acc] by simp
  moreover have "srv_accepting w1 = srv_accepting w - 1"
    using r by (rule register_session_decompose) simp
  ultimately show ?thesis
    using s w1(3,4) startAccept_keeps[OF acc] assms(2) by (simp add: isOpen_def getRemoteEndpoint_def)
qed

lemma accept_succeeds:
  assumes "srv_inv w" and "chat_ready w" and "0 < srv_accepting w"
    and "srv_state w \<noteq> SrvStop" and "length (srv_sessions w) < maxSession (srv_config w)"
  shows "\<exists>w' s. complete_accept (chat_env hi) EcOk (Some ep) msg0 tx0 rx0 w = Inr w' \<and>
    heap w' (srv_alloc w) = Some s \<and> s_id s = hd (srv_free w) \<and> isOpen s \<and>
    s_reading s = [RdHeader 8] \<and> getRemoteEndpoint s = Some ep \<and>
    srv_accepting w' = srv_accepting w"
proof -
  obtain i free where f: "srv_free w = i # free"
    using srv_inv_free_nonempty[OF assms(1,4,5)] by (cases "srv_free w") auto
  from accept_takes_first[OF assms(2,3) f assms(4,5), of hi ep msg0 tx0 rx0] f show ?thesis by auto
qed

subsection \<open>The broadcast\<close>

text \<open>Registered addresses are distinct, because a session has one identifier.\<close>

lemma registry_addresses_distinct:
  assumes "registry_inv w"
  shows "distinct (map snd (srv_sessions w))"
proof -
  have inv: "smap_inv (srv_sessions w)" using assms by (simp add: registry_inv_def)
  have "i = j" if "(i, a) \<in> set (srv_sessions w)" "(j, a) \<in> set (srv_sessions w)" for i j a
    using that map_find_iff[OF inv] registryD[OF assms] by (metis option.inject)
  then have "inj_on snd (set (srv_sessions w))" by (auto simp: inj_on_def)
  moreover have "distinct (srv_sessions w)"
    using sm.items_distinct[OF inv] by (simp add: distinct_map)
  ultimately show ?thesis by (simp add: distinct_map)
qed

lemma broadcast_entry_sends:
  assumes "heap w a = Some s" and "valid_msg (s_msg s)" and "b \<noteq> a"
    and "heap w b = Some t" and "tx_inv t"
  shows "\<exists>t'. broadcast_entry a (i, b) w = Inr (put_session b t' w) \<and> session_send (s_msg s) t = Inr t'"
  using assms session_send_step[OF assms(5,2)]
  by (auto simp: broadcast_entry_def session_send_mutable_eq getMsg_def)

lemma broadcast_fold:
  assumes "heap w a = Some s" and "valid_msg (s_msg s)" and "distinct (map snd es)"
    and "\<forall>b \<in> snd ` set es. b \<noteq> a \<longrightarrow> (\<exists>t. heap w b = Some t \<and> tx_inv t)"
  shows "\<exists>w'. fold_res (broadcast_entry a) es w = Inr w' \<and> each_sent (snd ` set es - {a}) (s_msg s) w w' \<and>
    chat_redis w' = chat_redis w"
  using assms
proof (induction es arbitrary: w)
  case Nil
  then show ?case by simp
next
  case (Cons e es)
  obtain i b where e: "e = (i, b)" by fastforce
  show ?case
  proof (cases "b = a")
    case True
    then have "broadcast_entry a e w = Inr w" using e by (simp add: broadcast_entry_def)
    with Cons.IH[of w] Cons.prems e True show ?thesis
      by auto
  next
    case False
    with Cons.prems e obtain t where t: "heap w b = Some t" "tx_inv t" by auto
    obtain t' where t': "broadcast_entry a e w = Inr (put_session b t' w)" "session_send (s_msg s) t = Inr t'"
      using broadcast_entry_sends[OF Cons.prems(1,2) False t, of i] e by auto
    have nb: "b \<notin> snd ` set es" and d: "distinct (map snd es)" using Cons.prems(3) e by auto
    let ?w1 = "put_session b t' w"
    have a1: "heap ?w1 a = Some s" using Cons.prems(1) False by simp
    have "\<forall>c \<in> snd ` set es. c \<noteq> a \<longrightarrow> (\<exists>t. heap ?w1 c = Some t \<and> tx_inv t)"
      using Cons.prems(4) nb by auto
    from Cons.IH[OF a1 Cons.prems(2) d this] obtain w' where
      r: "fold_res (broadcast_entry a) es ?w1 = Inr w'"
      and g: "each_sent (snd ` set es - {a}) (s_msg s) ?w1 w'" and c: "chat_redis w' = chat_redis ?w1"
      by blast
    have "each_sent (snd ` set (e # es) - {a}) (s_msg s) w w'"
      using each_sent_step[OF g t(1) t'(2)] nb e False by (simp add: insert_Diff_if)
    with r c t'(1) show ?thesis by (simp add: put_session_def)
  qed
qed

lemma registered_intact:
  assumes "registry_inv w"
    and "\<forall>i b. getSession i w = Some b \<longrightarrow> b \<noteq> a \<longrightarrow> (\<exists>t. heap w b = Some t \<and> tx_inv t)"
  shows "\<forall>b \<in> snd ` set (srv_sessions w). b \<noteq> a \<longrightarrow> (\<exists>t. heap w b = Some t \<and> tx_inv t)"
  using assms map_find_iff[of "srv_sessions w"] by (fastforce simp: getSession_def registry_inv_def)

lemma nfMessage_sends:
  assumes "registry_inv w" and "heap w a = Some s" and "valid_msg (s_msg s)"
    and "strlen (msg_body (s_msg s)) = Inr n"
    and "\<forall>i b. getSession i w = Some b \<longrightarrow> b \<noteq> a \<longrightarrow> (\<exists>t. heap w b = Some t \<and> tx_inv t)"
  shows "\<exists>w'. nfMessage hi a w = Inr w' \<and>
    each_sent (snd ` set (srv_sessions w) - {a}) (s_msg s) w w' \<and>
    chat_redis w' = snd (Redis_send hi (zincrby_cmd (int n) (s_id s)) (chat_redis w))"
proof -
  let ?w1 = "redis_send hi (zincrby_cmd (int n) (s_id s)) w"
  from broadcast_fold[of ?w1 a s "srv_sessions w"] registered_intact[OF assms(1,5)]
    registry_addresses_distinct[OF assms(1)] assms(2,3)
  obtain w' where "fold_res (broadcast_entry a) (srv_sessions w) ?w1 = Inr w'"
    "each_sent (snd ` set (srv_sessions w) - {a}) (s_msg s) ?w1 w'" "chat_redis w' = chat_redis ?w1"
    by auto
  then show ?thesis
    using assms(2,4) each_sent_heap[of ?w1 w]
    by (simp add: nfMessage_def getMsg_def getID_def) (simp add: redis_send_def)
qed

lemma nfMessage_effect:
  assumes "registry_inv w" and "heap w a = Some s" and "valid_msg (s_msg s)"
    and "strlen (msg_body (s_msg s)) = Inr n"
    and "\<forall>i b. getSession i w = Some b \<longrightarrow> b \<noteq> a \<longrightarrow> (\<exists>t. heap w b = Some t \<and> tx_inv t)"
  shows "\<exists>w'. nfMessage hi a w = Inr w' \<and>
    streams_grow (snd ` set (srv_sessions w) - {a}) (msg_wire (s_msg s)) w w' \<and>
    chat_redis w' = snd (Redis_send hi (zincrby_cmd (int n) (s_id s)) (chat_redis w))"
proof -
  have "\<forall>b \<in> snd ` set (srv_sessions w) - {a}. \<exists>t. heap w b = Some t \<and> tx_inv t"
    using registered_intact[OF assms(1,5)] by blast
  then show ?thesis using nfMessage_sends[OF assms, of hi] each_sent_grows[OF _ assms(3)] by blast
qed

subsection \<open>Closing and dispatching\<close>

lemma handleClose_chat:
  "srv_closedHandler w = Some closed_name \<Longrightarrow> heap w a = Some s \<Longrightarrow>
     handleClose (chat_env hi) a r w = Inr (w\<lparr>srv_sessions := map_erase (s_id s) (srv_sessions w),
       srv_free := srv_free w @ [s_id s]\<rparr>)"
  by (simp add: handleClose_def chat_env_def closedHandler_def getID_def Let_def)

lemma sint32_ids: "sint (x :: 32 word) = 1 \<longleftrightarrow> x = 1" "sint (x :: 32 word) = 3 \<longleftrightarrow> x = 3"
  using signed_word_eqI[of x 1] signed_word_eqI[of x 3] by auto

lemma messageHandler_eq:
  assumes "heap w a = Some s"
  shows "messageHandler hi a w =
    (if hdr_msgId (msg_hdr (s_msg s)) = 1 then rqCreateUser hi a w
     else if hdr_msgId (msg_hdr (s_msg s)) = 3 then nfMessage hi a w
     else Inr w)"
  using assms by (simp add: messageHandler_def getMsg_def sint32_ids Let_def)

text \<open>An idle session cannot take a message of negative length without reading past the object.\<close>

lemma wire_image_negative:
  assumes "msg_length m < 0"
  shows "wire_image m = Inl OverRead"
proof -
  have "- 32760 \<le> msg_length m"
    using sint16_range(1)[of "hdr_bodyLength (msg_hdr m)"] by (simp add: msg_length_def)
  with assms have "unat (word_of_int (msg_length m) :: 64 word) = nat (2 ^ 64 + msg_length m)"
    by (intro unat_size_neg) auto
  with \<open>- 32760 \<le> msg_length m\<close> have "1032 < unat (word_of_int (msg_length m) :: 64 word)"
    by simp
  then show ?thesis by (simp add: wire_image_def)
qed

lemma broadcast_fold_fault:
  assumes "heap w a = Some s" and "msg_length (s_msg s) < 0"
    and "\<forall>b \<in> snd ` set es. b \<noteq> a \<longrightarrow> (\<exists>t. heap w b = Some t \<and> s_sendQue t = [])"
    and "\<exists>b \<in> snd ` set es. b \<noteq> a"
  shows "fold_res (broadcast_entry a) es w = Inl OverRead"
  using assms
proof (induction es)
  case (Cons e es)
  then show ?case
    by (cases "snd e = a")
      (auto simp: broadcast_entry_def session_send_mutable_def begin_write_def getMsg_def
        wire_image_negative upd_session_def)
qed simp

subsection \<open>Concrete objects for the witnesses\<close>

definition demo_hi :: hiredis where
  "demo_hi = \<lparr>redisConnect = (\<lambda>ip port. Some \<lparr>ctx_err = 0, ctx_sent = []\<rparr>),
     redisCommand = (\<lambda>c cmd. Some \<lparr>reply_type = REDIS_REPLY_INTEGER, reply_elements = 0\<rparr>)\<rparr>"

text \<open>A server with two identifiers that was booted, and the same with two connected clients.\<close>

definition demo_chat :: chat_world where
  "demo_chat = \<lparr>heap = (\<lambda>_. None), srv_name = ''demo'', srv_config = demo_config,
     srv_state = SrvStart,
     srv_pool = \<lparr>m_ios = [\<lparr>ios_stopped = False, ios_has_work = True\<rparr>], m_next = 1, pool_threads = [0]\<rparr>,
     srv_free = [1, 2], srv_sessions = [],
     srv_openedHandler = Some opened_name, srv_closedHandler = Some closed_name,
     srv_messageHandler = Some message_name,
     srv_acceptor = Some \<lparr>acc_endpoint = (''127.0.0.1'', 20000), acc_open = True\<rparr>,
     srv_socket = Some fresh_socket, srv_accepting = 1, srv_alloc = 0,
     chat_ios = 0, chat_rooms = [], chat_characters = [],
     chat_redis = \<lparr>rd_host = ''127.0.0.1'', rd_port = 6379,
       rd_context = Some \<lparr>ctx_err = 0, ctx_sent = []\<rparr>, rd_reply = ReplyNull\<rparr>\<rparr>"

lemma demo_new: "ChatServer_new ''demo'' demo_config = Inr (demo_chat\<lparr>srv_state := SrvReady,
     srv_pool := (srv_pool demo_chat)\<lparr>m_next := 1, pool_threads := []\<rparr>,
     srv_openedHandler := None, srv_closedHandler := None, srv_messageHandler := None,
     srv_acceptor := None, srv_socket := None, srv_accepting := 0, chat_redis := Redis_new\<rparr>)"
proof -
  have two: "[0..<2] = [0, 1 :: nat]" by (simp add: upt_rec)
  show ?thesis
    by (simp add: ChatServer_new_def TcpServer_new_eq demo_config_def ServerConfig_default_def
        IoServicePool_new_eq getIoServicePool_def getIoService_def two demo_chat_def tcp_world.defs)
qed

lemma demo_boot: "chat_boot demo_hi demo_os ''demo'' demo_config ''127.0.0.1'' 20000 = Inr demo_chat"
  unfolding chat_boot_def demo_new
  by (simp add: chat_start_def Redis_connect_def demo_hi_def Redis_new_def start_address_def
      demo_os_def listen_def getIoService_def startAccept_def pool_run_def
      registerMessageHandler_def registerSessionClosedHandler_def registerSessionOpenedHandler_def
      demo_chat_def)

definition demo_session :: "int \<Rightarrow> Msg \<Rightarrow> TcpSession" where
  "demo_session i m = idle_session\<lparr>s_id := i, s_state := SessOpened, s_msg := m,
     s_openedHandler := Some opened_name, s_closedHandler := Some close_lambda,
     s_messageHandler := Some message_name\<rparr>"

definition demo_pair :: "Msg \<Rightarrow> chat_world" where
  "demo_pair m = demo_chat\<lparr>heap := [0 \<mapsto> demo_session 1 m, 1 \<mapsto> demo_session 2 zero_msg],
     srv_free := [], srv_sessions := [(1, 0), (2, 1)], srv_alloc := 2\<rparr>"

lemma demo_session_simps [simp]:
  "s_id (demo_session i m) = i" "s_msg (demo_session i m) = m" "s_sendQue (demo_session i m) = []"
  "s_writing (demo_session i m) = []" "s_reading (demo_session i m) = []"
  "sock_out (s_socket (demo_session i m)) = []"
  by (simp_all add: demo_session_def)

lemma demo_pair_registry: "registry_inv (demo_pair m)"
  by (auto simp: registry_inv_def demo_pair_def smap_inv_def split: if_splits)

lemma demo_pair_inv: "wf_msg m \<Longrightarrow> srv_inv (demo_pair m)"
  using demo_pair_registry[of m]
  by (auto simp: srv_inv_def heap_inv_def pool_ids_inv_def srv_ids_def demo_pair_def sess_ok_def
      write_ok_def demo_chat_def demo_config_def pool_inv_def wf_msg_def zero_msg_def
      split: if_splits)

lemma demo_pair_unique: "ids_unique (demo_pair m)"
  by (simp add: ids_unique_def demo_pair_def)

lemma demo_reach: "srv_reach env demo_chat demo_chat"
  by (rule reach_init)

text \<open>A client that hangs up in the middle of a message while the server stops, and the restart.\<close>

lemma demo_late:
  "\<exists>w w1 w2. srv_reach (chat_env demo_hi) demo_chat w \<and> srv_state w = SrvStart \<and> server_stop w = Inr w1 \<and>
     report_run (chat_env demo_hi) w1 [1] w2 \<and> m_ios (srv_pool w2) \<noteq> [] \<and> srv_alloc w2 = 1"
proof -
  let ?acc = "EvAccept EcOk (Some (''10.0.0.1'', 4000)) zero_msg 0 0"
  let ?hdr = "EvRead 0 EcOk (header_bytes (msg_hdr hi_msg))"
  have z: "wf_msg zero_msg" by (simp add: wf_msg_def zero_msg_def)
  have h: "length (header_bytes (msg_hdr hi_msg)) = 8" by simp
  obtain v s where v: "exec_event (chat_env demo_hi) ?acc demo_chat = Inr v" "heap v 0 = Some s" "s_reading s = [RdHeader 8]"
    "s_id s = 1" "s_closedHandler s = Some close_lambda" "srv_sessions v = [(1, 0)]" "srv_state v = SrvStart"
    "srv_closedHandler v = Some closed_name" "srv_acceptor v \<noteq> None" "m_ios (srv_pool v) \<noteq> []" "srv_alloc v = 1"
    by (simp add: demo_chat_def complete_accept_def register_session_def TcpSession_server_def getID_def
        session_start_def fire_opened_def server_env_def chat_env_def openedHandler_def session_read_def
        startAccept_def getIoService_def pool_run_def demo_config_def ServerConfig_default_def)
  let ?t = "s\<lparr>s_msg := (s_msg s)\<lparr>msg_hdr := msg_hdr hi_msg\<rparr>, s_reading := [RdBody 2]\<rparr>"
  have u: "exec_event (chat_env demo_hi) ?hdr v = Inr (put_session 0 ?t v)"
    using v(2,3) deposit_header[OF h]
    by (simp add: complete_read_def handleReadHeader_def hi_msg_def checkHeader_def msg_bodyLength_def)
  let ?w = "put_session 0 ?t v"
  obtain w1 where w1: "server_stop ?w = Inr w1" "heap w1 0 = Some (session_close ?t)" "m_ios (srv_pool w1) \<noteq> []" "srv_alloc w1 = 1"
    "srv_closedHandler w1 = Some closed_name"
    using v by (auto simp: server_stop_def close_entry_def)
  have "srv_reach (chat_env demo_hi) demo_chat v"
    by (rule reach_step[OF reach_init _ v(1)]) (simp add: z demo_chat_def)
  then have r: "srv_reach (chat_env demo_hi) demo_chat ?w"
    by (rule reach_step[OF _ _ u]) (use v(2,3) h in simp)
  let ?ev = "EvRead 0 EcAborted []"
  obtain w2 where w2: "exec_event (chat_env demo_hi) ?ev w1 = Inr w2" "m_ios (srv_pool w2) \<noteq> []" "srv_alloc w2 = 1"
    using w1 v(4,5) by (simp add: complete_read_def handleReadBody_def fire_closed_def server_env_def handleClose_chat
        deposit_def session_close_def)
  have "report_run (chat_env demo_hi) w1 ([] @ reported ?ev w1) w2"
    by (rule report_step[OF report_init _ w2(1)]) (use w1(2) in \<open>simp add: session_close_def\<close>)
  then have "report_run (chat_env demo_hi) w1 [1] w2" using w1(2) v(4) by (simp add: session_close_def)
  then show ?thesis using r w1(1) w2(2,3) v(7) by fastforce
qed

lemma demo_restart:
  assumes "m_ios (srv_pool w) \<noteq> []"
  shows "\<exists>w'. chat_start demo_hi demo_os ''127.0.0.1'' 20000 w = Inr w' \<and> getState w' = SrvStart \<and> srv_alloc w' = srv_alloc w"
  using assms
  by (simp add: chat_start_def Redis_connect_def demo_hi_def start_address_def demo_os_def listen_def getIoService_def
      startAccept_def registerMessageHandler_def registerSessionClosedHandler_def registerSessionOpenedHandler_def
      getState_def Let_def)

subsection \<open>Properties\<close>

lemma chat_reach_facts:
  assumes "chat_boot hi os name config ip port = Inr w0" and "srv_reach (chat_env hi) w0 w"
  shows "srv_inv w" "chat_ready w" "srv_config w = config"
  using chat_boot_inv[OF assms(1)] chat_app.reach_inv[OF assms(2)] reach_ready[OF assms(2)]
    chat_app.reach_config[OF assms(2)] by simp_all

lemma demo_accepted:
  "\<exists>w. srv_reach (chat_env demo_hi) demo_chat w \<and> getSession 1 w = Some 0 \<and> srv_free w = [2]"
proof -
  note b = chat_boot_inv[OF demo_boot]
  have z: "wf_msg zero_msg" by (simp add: wf_msg_def zero_msg_def)
  obtain w' where w': "complete_accept (chat_env demo_hi) EcOk (Some (''10.0.0.1'', 4000)) zero_msg 0 0
      demo_chat = Inr w'"
    using accept_succeeds[of demo_chat demo_hi "(''10.0.0.1'', 4000)" zero_msg 0 0] b
    by (auto simp: demo_chat_def demo_config_def)
  have "srv_reach (chat_env demo_hi) demo_chat w'"
    by (rule reach_step[OF reach_init, where e = "EvAccept EcOk (Some (''10.0.0.1'', 4000)) zero_msg 0 0"])
      (use w' z in \<open>simp_all add: demo_chat_def\<close>)
  moreover have "\<exists>i. srv_free demo_chat = i # srv_free w' \<and> getSession i demo_chat = None \<and>
      srv_sessions w' = map_emplace i (srv_alloc demo_chat) (srv_sessions demo_chat) \<and> ids_unique w'"
    using b z w' by (intro chat_app.accept_allocates) (auto simp: demo_chat_def demo_config_def)
  ultimately show ?thesis by (auto simp: demo_chat_def getSession_def)
qed

text \<open>
  C6. Safety of the running chat server, in every state reachable from a boot by any order of
  accepts, reads, writes, failures and stops: the registry holds at most \<open>maxSession\<close> sessions,
  every identifier it maps is one of \<open>1 .. maxSession\<close> and leads to a live session carrying that
  identifier, and every session has at most one read and at most one write outstanding, the write
  sending the front of the queue.
\<close>

theorem chat_server_safe:
  assumes "chat_boot hi os name config ip port = Inr w0" and "srv_reach (chat_env hi) w0 w"
  shows "length (srv_sessions w) \<le> maxSession config \<and>
    (\<forall>i a. getSession i w = Some a \<longrightarrow> 1 \<le> i \<and> i \<le> int (maxSession config) \<and>
       (\<exists>s. heap w a = Some s \<and> getID s = i)) \<and>
    (\<forall>a s. heap w a = Some s \<longrightarrow> length (s_reading s) \<le> 1 \<and>
       (s_writing s = [] \<or> (\<exists>buf. s_writing s = [buf] \<and> wire_image (hd (s_sendQue s)) = Inr buf)))"
proof -
  note inv = chat_reach_facts(1)[OF assms] and cfg = chat_reach_facts(3)[OF assms]
  have cells: "sess_ok s \<and> s_id s \<in> {1..int (maxSession config)}" if "heap w a = Some s" for a s
    using inv that cfg by (simp add: srv_inv_def heap_inv_def srv_ids_def)
  have "\<exists>s. heap w a = Some s \<and> s_id s = i" if "getSession i w = Some a" for i a
    using inv that registryD[of w i a] by (simp add: srv_inv_def getSession_def)
  then show ?thesis
    using srv_inv_capacity[OF inv] cfg cells
    by (fastforce simp: getID_def sess_ok_def write_ok_def)
qed

theorem chat_server_safe_witness:
  "\<exists>w s. srv_reach (chat_env demo_hi) demo_chat w \<and> getSession 1 w = Some 0 \<and> heap w 0 = Some s \<and>
     getID s = 1 \<and> length (srv_sessions w) \<le> maxSession demo_config"
proof -
  obtain w where w: "srv_reach (chat_env demo_hi) demo_chat w" "getSession 1 w = Some 0"
    using demo_accepted by blast
  then show ?thesis using chat_server_safe[OF demo_boot w(1)] by blast
qed

text \<open>
  C7. Types of the state, in every reachable state: sessions lie below the allocation counter, every
  message buffer and every queued message is a whole message object, the registry is a map, at most
  one accept is outstanding, the free identifiers are among \<open>1 .. maxSession\<close>, and no identifier is ever
  lost: until the server is stopped each of them is free or registered.
\<close>

theorem chat_state_typed:
  assumes "chat_boot hi os name config ip port = Inr w0" and "srv_reach (chat_env hi) w0 w"
  shows "(\<forall>a s. heap w a = Some s \<longrightarrow> a < srv_alloc w \<and> wf_msg (s_msg s) \<and> (\<forall>m \<in> set (s_sendQue s). wf_msg m)) \<and>
    smap_inv (srv_sessions w) \<and> srv_accepting w \<le> 1 \<and> set (srv_free w) \<subseteq> {1..int (maxSession config)} \<and>
    (getState w \<noteq> SrvStop \<longrightarrow> set (srv_free w) \<union> map_keys (srv_sessions w) = {1..int (maxSession config)})"
proof -
  note inv = chat_reach_facts(1)[OF assms] and cfg = chat_reach_facts(3)[OF assms]
  have "map_keys (srv_sessions w) \<subseteq> {1..int (maxSession config)}"
  proof
    fix i
    assume "i \<in> map_keys (srv_sessions w)"
    then obtain a where "map_find i (srv_sessions w) = Some a"
      using inv sm.keys_find[of "srv_sessions w" i] by (auto simp: srv_inv_def registry_inv_def map_keys_def)
    then show "i \<in> {1..int (maxSession config)}"
      using inv cfg registryD[of w i a] by (fastforce simp: srv_inv_def heap_inv_def srv_ids_def)
  qed
  then show ?thesis
    using inv cfg by (auto simp: srv_inv_defs sess_ok_def getState_def)
qed

theorem chat_state_typed_witness:
  "\<exists>w. srv_reach (chat_env demo_hi) demo_chat w \<and> getSession 1 w = Some 0 \<and> smap_inv (srv_sessions w) \<and>
     srv_accepting w \<le> 1 \<and> set (srv_free w) \<subseteq> {1..2}"
proof -
  obtain w where w: "srv_reach (chat_env demo_hi) demo_chat w" "getSession 1 w = Some 0"
    using demo_accepted by blast
  then show ?thesis using chat_state_typed[OF demo_boot w(1)] by (auto simp: demo_config_def)
qed

text \<open>
  C10. Accepting makes progress: in every reachable state in which an accept is outstanding, the
  server is not stopped and there is room, a connection from \<open>ep\<close> is accepted without failure (the
  free list is never found empty); the new session carries the identifier at the front of the free
  list, is open, waits for a header, knows its peer, and the next accept is outstanding.
\<close>

theorem chat_accept_progress:
  assumes "chat_boot hi os name config ip port = Inr w0" and "srv_reach (chat_env hi) w0 w"
    and "0 < srv_accepting w" and "getState w \<noteq> SrvStop" and "length (srv_sessions w) < maxSession config"
  shows "\<exists>w' s. complete_accept (chat_env hi) EcOk (Some ep) msg0 tx0 rx0 w = Inr w' \<and>
    heap w' (srv_alloc w) = Some s \<and> s_id s = hd (srv_free w) \<and> isOpen s \<and>
    s_reading s = [RdHeader 8] \<and> getRemoteEndpoint s = Some ep \<and> srv_accepting w' = srv_accepting w"
  using accept_succeeds[of w hi ep msg0 tx0 rx0] chat_reach_facts[OF assms(1,2)] assms(3-5)
  by (simp add: getState_def)

theorem chat_accept_progress_witness:
  "\<exists>w' s. complete_accept (chat_env demo_hi) EcOk (Some (''10.0.0.1'', 4000)) zero_msg 0 0 demo_chat =
       Inr w' \<and> heap w' 0 = Some s \<and> s_id s = 1 \<and> isOpen s"
  using chat_accept_progress[OF demo_boot demo_reach, of "(''10.0.0.1'', 4000)" zero_msg 0 0]
  by (auto simp: demo_chat_def getState_def demo_config_def)

text \<open>
  C16. Threads grow with connections: every accepted connection calls \<open>run()\<close> on the pool again, so
  a server that listens has started \<open>threadCount * (n + 1)\<close> threads after \<open>n\<close> sessions were created,
  whether or not they are still connected.
\<close>

theorem chat_threads_grow:
  assumes "chat_boot hi os name config ip port = Inr w0" and "getState w0 = SrvStart"
    and "srv_reach (chat_env hi) w0 w"
  shows "length (pool_threads (srv_pool w)) = threadCount config * (srv_alloc w + 1)"
  using chat_boot_inv[OF assms(1)] assms(2) chat_app.reach_threads[OF assms(3)]
  by (simp add: getState_def threads_inv_def)

theorem chat_threads_grow_witness:
  "length (pool_threads (srv_pool demo_chat)) = 1"
  using chat_threads_grow[OF demo_boot _ demo_reach]
  by (simp add: demo_chat_def getState_def demo_config_def ServerConfig_default_def)

text \<open>
  C17. The accept loop dies at the first connection it turns away: when an accept completes with an
  error, or on a stopped or full server, no further accept is armed, and from then on, whatever
  happens, no session object is created and no identifier is ever registered again, even after all
  clients have left.
\<close>

theorem chat_accept_loop_dies:
  assumes "chat_boot hi os name config ip port = Inr w0" and "srv_reach (chat_env hi) w0 w"
    and "0 < srv_accepting w"
    and "ec \<noteq> EcOk \<or> getState w = SrvStop \<or> maxSession config \<le> length (srv_sessions w)"
    and "complete_accept (chat_env hi) ec peer msg0 tx0 rx0 w = Inr w1"
    and "srv_reach (chat_env hi) w1 w2"
  shows "srv_accepting w2 = 0 \<and> srv_alloc w2 = srv_alloc w \<and>
    map_keys (srv_sessions w2) \<subseteq> map_keys (srv_sessions w)"
proof -
  note f = chat_reach_facts[OF assms(1,2)]
  obtain sk where w1: "w1 = w\<lparr>srv_accepting := srv_accepting w - 1, srv_socket := sk\<rparr>"
    using complete_accept_rejected[OF assms(5,3)] assms(4) f(3) by (auto simp: getState_def)
  have "srv_inv w1" "srv_accepting w1 = 0"
    using f(1) w1 by (auto simp: srv_inv_defs)
  then show ?thesis using chat_app.reach_without_accept[OF assms(6)] w1 by simp
qed

theorem chat_accept_loop_dies_witness:
  "\<exists>w1. complete_accept (chat_env demo_hi) (EcOther 24) None zero_msg 0 0 demo_chat = Inr w1 \<and>
     srv_accepting w1 = 0"
proof -
  obtain w1 where w1: "complete_accept (chat_env demo_hi) (EcOther 24) None zero_msg 0 0 demo_chat = Inr w1"
    by (simp add: complete_accept_def demo_chat_def)
  then show ?thesis
    using chat_accept_loop_dies[OF demo_boot demo_reach _ _ w1 reach_init] by (simp add: demo_chat_def)
qed

text \<open>
  Identifiers are allocated: accepting takes the front of the free list, an identifier nobody is
  registered under, registers the new session under it, and keeps free and used apart.
\<close>

theorem chat_accept_allocates:
  assumes "srv_inv w" and "ids_unique w" and "wf_msg msg0" and "0 < srv_accepting w"
    and "getState w \<noteq> SrvStop" and "length (srv_sessions w) < maxSession (srv_config w)"
    and "complete_accept (chat_env hi) EcOk peer msg0 tx0 rx0 w = Inr w'"
  shows "\<exists>i. srv_free w = i # srv_free w' \<and> getSession i w = None \<and>
    (\<forall>j. getSession j w' = (if j = i then Some (srv_alloc w) else getSession j w)) \<and> ids_unique w'"
proof -
  have inv: "smap_inv (srv_sessions w)" using assms(1) by (simp add: srv_inv_def registry_inv_def)
  show ?thesis
    using chat_app.accept_allocates[OF assms(1-4) _ assms(6,7)] assms(5)
    by (auto simp: getState_def getSession_def map_find_emplace[OF inv])
qed

theorem chat_accept_allocates_witness:
  "\<exists>w'. complete_accept (chat_env demo_hi) EcOk (Some (''10.0.0.1'', 4000)) zero_msg 0 0 demo_chat =
       Inr w' \<and> srv_free w' = [2] \<and> getSession 1 w' = Some 0"
proof -
  note b = chat_boot_inv[OF demo_boot]
  obtain w' where w': "complete_accept (chat_env demo_hi) EcOk (Some (''10.0.0.1'', 4000)) zero_msg 0 0
      demo_chat = Inr w'"
    using accept_succeeds[of demo_chat demo_hi "(''10.0.0.1'', 4000)" zero_msg 0 0] b
    by (auto simp: demo_chat_def demo_config_def)
  then show ?thesis
    using chat_accept_allocates[OF _ _ _ _ _ _ w'] b
    by (auto simp: demo_chat_def demo_config_def getState_def wf_msg_def zero_msg_def)
qed

text \<open>
  Identifiers are released: when a registered session reports its end, its identifier goes to
  the back of the free list, only its registration disappears, and free and used stay apart.
\<close>

theorem chat_close_releases:
  assumes "srv_inv w" and "ids_unique w" and "heap w a = Some s"
    and "getSession (s_id s) w = Some a" and "handleClose (chat_env hi) a r w = Inr w'"
  shows "srv_free w' = srv_free w @ [s_id s] \<and> ids_unique w' \<and>
    (\<forall>j. getSession j w' = (if j = s_id s then None else getSession j w))"
  using chat_app.close_releases[OF assms] .

theorem chat_close_releases_witness:
  "\<exists>w'. handleClose (chat_env demo_hi) 0 Disconnected (demo_pair zero_msg) = Inr w' \<and>
     srv_free w' = [1] \<and> getSession 1 w' = None \<and> getSession 2 w' = Some 1"
proof -
  have s: "heap (demo_pair zero_msg) 0 = Some (demo_session 1 zero_msg)" by (simp add: demo_pair_def)
  obtain w' where w': "handleClose (chat_env demo_hi) 0 Disconnected (demo_pair zero_msg) = Inr w'"
    using handleClose_chat[OF _ s] by (auto simp: demo_pair_def demo_chat_def)
  have "wf_msg zero_msg" by (simp add: wf_msg_def zero_msg_def)
  from chat_close_releases[OF demo_pair_inv[OF this] demo_pair_unique s _ w'] w' show ?thesis
    by (auto simp: demo_pair_def getSession_def)
qed

text \<open>
  C27. A session can report its end twice, and then its identifier is free twice: with a body read
  and a write outstanding on a broken connection, both complete with an error, both run the closed
  handler, and \<open>_free_session_id\<close> ends with the same identifier two times.
\<close>

theorem chat_double_close:
  assumes "heap w a = Some s" and "s_reading s = [RdBody n]" and "s_writing s = [buf]"
    and "s_closedHandler s = Some close_lambda" and "srv_closedHandler w = Some closed_name"
  shows "\<exists>w1 w2. exec_event (chat_env hi) (EvRead a EcEof []) w = Inr w1 \<and>
    exec_event (chat_env hi) (EvWrite a EcAborted k) w1 = Inr w2 \<and>
    srv_free w2 = srv_free w @ [s_id s, s_id s] \<and> \<not> ids_unique w2"
  using assms
  by (cases s) (simp add: complete_read_def complete_write_def handleReadBody_def handleWrite_def
      fire_closed_def server_env_def handleClose_chat deposit_def ids_unique_def)

theorem chat_double_close_witness:
  "\<exists>w1 w2. exec_event (chat_env demo_hi) (EvRead 0 EcEof [])
       ((demo_pair zero_msg)\<lparr>heap := [0 \<mapsto> (demo_session 1 zero_msg)
          \<lparr>s_reading := [RdBody 2], s_writing := [[1]]\<rparr>]\<rparr>) = Inr w1 \<and>
     exec_event (chat_env demo_hi) (EvWrite 0 EcAborted 0) w1 = Inr w2 \<and> srv_free w2 = [1, 1]"
  using chat_double_close[of "(demo_pair zero_msg)\<lparr>heap := [0 \<mapsto> (demo_session 1 zero_msg)
          \<lparr>s_reading := [RdBody 2], s_writing := [[1]]\<rparr>]\<rparr>" 0 "(demo_session 1 zero_msg)
          \<lparr>s_reading := [RdBody 2], s_writing := [[1]]\<rparr>" 2 "[1]" demo_hi 0]
  by (auto simp: demo_pair_def demo_chat_def demo_session_def simp del: exec_event.simps)

text \<open>
  C35. A stopped server that is started again has only the identifiers that were reported since the stop: \<open>stop\<close> empties
  the free list, and \<open>handleClose\<close> puts an identifier back for every aborted body read or write that completes
  afterwards, in that order. So the first connection after a restart takes the identifier of the first of these
  sessions; and when nothing was reported, it reads the front of an empty deque.
\<close>

theorem restart_reuses_reported:
  assumes "chat_boot hi os name config ip port = Inr w0" and "srv_reach (chat_env hi) w0 w"
    and "srv_state w = SrvStart" and "server_stop w = Inr w1" and "report_run (chat_env hi) w1 ids w2"
    and "chat_start hi os' ip' port' w2 = Inr w3" and "getState w3 = SrvStart" and "0 < maxSession config"
  shows "srv_sessions w3 = [] \<and> srv_free w3 = ids \<and>
    (if ids = [] then complete_accept (chat_env hi) EcOk peer msg0 tx0 rx0 w3 = Inl EmptyContainer
     else \<exists>w4. complete_accept (chat_env hi) EcOk (Some ep) msg0 tx0 rx0 w3 = Inr w4 \<and>
       srv_sessions w4 = [(hd ids, srv_alloc w3)] \<and> srv_free w4 = tl ids)"
proof -
  have boot: "srv_inv w0" "srv_config w0 = config" using chat_boot_inv[OF assms(1)] by simp_all
  have inv: "srv_inv w1" using chat_app.reach_inv[OF assms(2) boot(1)] server_stop_inv assms(4) by blast
  have stopped: "srv_state w1 = SrvStop" "srv_sessions w1 = []" "srv_free w1 = []"
    using assms(3,4) by (auto simp: server_stop_def bind_res_eq_Inr split: option.splits)
  have w2: "srv_state w2 = SrvStop" "srv_sessions w2 = []" "srv_free w2 = ids"
    using chat_app.stopped_run[OF assms(5) inv stopped(1,2)] stopped(3) by simp_all
  have "srv_config w = config" using chat_app.reach_config[OF assms(2) boot(1)] boot(2) by simp
  then have "srv_config w1 = config" using server_stop_keeps[OF assms(4)] by simp
  then have c2: "srv_config w2 = config"
    using chat_app.reach_config[OF chat_app.report_run_reach[OF assms(5)] inv] by simp
  from assms(6) obtain v where v: "srv_sessions v = []" "srv_free v = ids" "srv_config v = config"
    and l: "listen os' (ip', word_of_int port') v = Inr w3"
    and names: "srv_openedHandler v = Some opened_name" "srv_closedHandler v = Some closed_name"
      "srv_messageHandler v = Some message_name"
  proof (cases rule: chat_start_cases)
    case no_redis
    then show ?thesis using assms(7) w2(1) by (simp add: getState_def)
  next
    case (started v)
    then show ?thesis using that[of v] w2 c2 by simp
  qed
  note e = listen_effect[OF l]
  have w3: "srv_sessions w3 = []" "srv_free w3 = ids" "srv_config w3 = config" "0 < srv_accepting w3" "srv_state w3 = SrvStart"
    using e v by simp_all
  show ?thesis
  proof (cases ids)
    case Nil
    then show ?thesis using w3 assms(8) by (simp add: complete_accept_def register_session_def)
  next
    case (Cons i free)
    from accept_takes_first[OF listen_ready[OF l names] w3(4), of i free hi ep msg0 tx0 rx0] show ?thesis
      using Cons w3 assms(8) by auto
  qed
qed

theorem restart_reuses_reported_witness:
  "\<exists>w w1 w2 w3 w4. srv_reach (chat_env demo_hi) demo_chat w \<and> server_stop w = Inr w1 \<and>
     report_run (chat_env demo_hi) w1 [1] w2 \<and> chat_start demo_hi demo_os ''127.0.0.1'' 20000 w2 = Inr w3 \<and>
     complete_accept (chat_env demo_hi) EcOk (Some (''10.0.0.2'', 4000)) zero_msg 0 0 w3 = Inr w4 \<and>
     srv_sessions w4 = [(1, 1)] \<and> srv_free w4 = []"
proof -
  obtain w w1 w2 where w: "srv_reach (chat_env demo_hi) demo_chat w" "srv_state w = SrvStart"
    "server_stop w = Inr w1" "report_run (chat_env demo_hi) w1 [1] w2" "m_ios (srv_pool w2) \<noteq> []" "srv_alloc w2 = 1"
    using demo_late by blast
  obtain w3 where w3: "chat_start demo_hi demo_os ''127.0.0.1'' 20000 w2 = Inr w3" "getState w3 = SrvStart" "srv_alloc w3 = 1"
    using demo_restart[OF w(5)] w(6) by auto
  from restart_reuses_reported[OF demo_boot w(1-4) w3(1,2), of None zero_msg 0 0 "(''10.0.0.2'', 4000)"] w w3 show ?thesis
    by (fastforce simp: demo_config_def ServerConfig_default_def)
qed

text \<open>
  A chat message reaches every other registered client exactly once and nobody else, and is
  counted once: when the sender holds a valid message whose text is \<open>n\<close> bytes long and the other
  send queues are intact, the handler succeeds; each other registered session's stream grows by
  exactly the image of the message, all other sessions, the sender's included, are untouched; and
  Redis is sent the one command that adds \<open>n\<close> to the sender's score.
\<close>

theorem nfMessage_broadcasts:
  assumes "srv_inv w" and "heap w a = Some s" and "valid_msg (s_msg s)"
    and "strlen (msg_body (s_msg s)) = Inr n"
    and "\<forall>i b. getSession i w = Some b \<longrightarrow> b \<noteq> a \<longrightarrow> (\<exists>t. heap w b = Some t \<and> tx_inv t)"
  shows "\<exists>w'. nfMessage hi a w = Inr w' \<and>
    (\<forall>b. if b \<noteq> a \<and> (\<exists>i. getSession i w = Some b)
         then \<exists>t t'. heap w b = Some t \<and> heap w' b = Some t' \<and>
                stream_of t' = stream_of t @ msg_wire (s_msg s)
         else heap w' b = heap w b) \<and>
    redis_log (chat_redis w') = redis_log (chat_redis w) @
      (if rd_context (chat_redis w) = None then [] else [zincrby_cmd (int n) (s_id s)])"
proof -
  have reg: "registry_inv w" using assms(1) by (simp add: srv_inv_def)
  then have inv: "smap_inv (srv_sessions w)" by (simp add: registry_inv_def)
  have mem: "b \<in> snd ` set (srv_sessions w) \<longleftrightarrow> (\<exists>i. getSession i w = Some b)" for b
    using map_find_iff[OF inv] by (force simp: getSession_def)
  from nfMessage_effect[OF reg assms(2-5)] obtain w' where "nfMessage hi a w = Inr w'"
    and g: "streams_grow (snd ` set (srv_sessions w) - {a}) (msg_wire (s_msg s)) w w'"
    and "chat_redis w' = snd (Redis_send hi (zincrby_cmd (int n) (s_id s)) (chat_redis w))"
    by blast
  moreover have "\<forall>b. if b \<noteq> a \<and> (\<exists>i. getSession i w = Some b)
         then \<exists>t t'. heap w b = Some t \<and> heap w' b = Some t' \<and>
                stream_of t' = stream_of t @ msg_wire (s_msg s)
         else heap w' b = heap w b"
    using g unfolding streams_grow_def Diff_iff mem by (metis (no_types, lifting) singleton_iff)
  ultimately show ?thesis by (auto simp: Redis_send_log)
qed

theorem nfMessage_broadcasts_witness:
  "\<exists>w' t'. nfMessage demo_hi 0 (demo_pair hi_msg) = Inr w' \<and> heap w' 1 = Some t' \<and>
     stream_of t' = msg_wire hi_msg \<and> redis_log (chat_redis w') = [zincrby_cmd 2 1]"
proof -
  have v: "valid_msg (s_msg (demo_session 1 hi_msg))" "wf_msg hi_msg"
    using hi_msg_valid by (simp_all add: valid_msg_def)
  have n: "strlen (msg_body (s_msg (demo_session 1 hi_msg))) = Inr 2"
    by (simp add: strlen_def hi_msg_def)
  have h: "heap (demo_pair hi_msg) 0 = Some (demo_session 1 hi_msg)"
    "heap (demo_pair hi_msg) 1 = Some (demo_session 2 zero_msg)"
    by (simp_all add: demo_pair_def)
  have o: "\<forall>i b. getSession i (demo_pair hi_msg) = Some b \<longrightarrow> b \<noteq> 0 \<longrightarrow>
      (\<exists>t. heap (demo_pair hi_msg) b = Some t \<and> tx_inv t)"
    by (auto simp: demo_pair_def getSession_def tx_inv_def split: if_splits)
  have one: "\<exists>i. getSession i (demo_pair hi_msg) = Some 1"
    by (rule exI[of _ 2]) (simp add: getSession_def demo_pair_def)
  have st: "stream_of (demo_session 2 zero_msg) = []" by (simp add: stream_of_def)
  have lg: "redis_log (chat_redis (demo_pair hi_msg)) = []" "rd_context (chat_redis (demo_pair hi_msg)) \<noteq> None"
    by (simp_all add: demo_pair_def demo_chat_def redis_log_def)
  from nfMessage_broadcasts[OF demo_pair_inv[OF v(2)] h(1) v(1) n o, of demo_hi] obtain w' where
    w': "nfMessage demo_hi 0 (demo_pair hi_msg) = Inr w'"
      "redis_log (chat_redis w') = [zincrby_cmd 2 1]"
    and all: "\<forall>b. if b \<noteq> 0 \<and> (\<exists>i. getSession i (demo_pair hi_msg) = Some b)
         then \<exists>t t'. heap (demo_pair hi_msg) b = Some t \<and> heap w' b = Some t' \<and>
                stream_of t' = stream_of t @ msg_wire (s_msg (demo_session 1 hi_msg))
         else heap w' b = heap (demo_pair hi_msg) b"
    using lg by auto
  from all[rule_format, of 1] one h(2) st w' show ?thesis by auto
qed

text \<open>
  A message whose length field is below -8, which \<open>checkHeader\<close> accepts, brings the server down
  as soon as it is to be forwarded: when the other registered sessions have nothing queued and
  there is at least one, the handler reads past the message object.
\<close>

theorem nfMessage_negative_length_overreads:
  assumes "srv_inv w" and "heap w a = Some s" and "msg_bodyLength (s_msg s) < - 8"
    and "strlen (msg_body (s_msg s)) = Inr n"
    and "\<forall>i b. getSession i w = Some b \<longrightarrow> b \<noteq> a \<longrightarrow> (\<exists>t. heap w b = Some t \<and> s_sendQue t = [])"
    and "getSession i w = Some b" and "b \<noteq> a"
  shows "nfMessage hi a w = Inl OverRead"
proof -
  let ?w1 = "redis_send hi (zincrby_cmd (int n) (s_id s)) w"
  have inv: "smap_inv (srv_sessions w)"
    using assms(1) by (simp add: srv_inv_def registry_inv_def)
  have "\<forall>c \<in> snd ` set (srv_sessions w). c \<noteq> a \<longrightarrow> (\<exists>t. heap ?w1 c = Some t \<and> s_sendQue t = [])"
    using assms(5) map_find_iff[OF inv] by (fastforce simp: getSession_def)
  moreover have "\<exists>c \<in> snd ` set (srv_sessions w). c \<noteq> a"
    using assms(6,7) map_find_iff[OF inv, of i b] by (force simp: getSession_def)
  ultimately have "fold_res (broadcast_entry a) (srv_sessions w) ?w1 = Inl OverRead"
    using assms(2,3) by (intro broadcast_fold_fault) (auto simp: msg_length_def msg_bodyLength_def)
  then show ?thesis using assms(2,4) by (simp add: nfMessage_def getMsg_def getID_def)
qed

definition evil_msg :: Msg where
  "evil_msg = zero_msg\<lparr>msg_hdr := \<lparr>hdr_version = 1, hdr_result = 0, hdr_bodyLength = 0xFF00,
     hdr_msgId = 3\<rparr>\<rparr>"

theorem nfMessage_negative_length_overreads_witness:
  "checkHeader evil_msg \<and> nfMessage demo_hi 0 (demo_pair evil_msg) = Inl OverRead"
proof
  show c: "checkHeader evil_msg" by (simp add: checkHeader_iff msg_bodyLength_def evil_msg_def)
  have wf: "wf_msg evil_msg" by (simp add: wf_msg_def evil_msg_def zero_msg_def)
  have h: "heap (demo_pair evil_msg) 0 = Some (demo_session 1 evil_msg)" by (simp add: demo_pair_def)
  have l: "msg_bodyLength (s_msg (demo_session 1 evil_msg)) < - 8"
    by (simp add: msg_bodyLength_def evil_msg_def)
  have n: "strlen (msg_body (s_msg (demo_session 1 evil_msg))) = Inr 0"
    by (simp add: strlen_def evil_msg_def zero_msg_def)
  have o: "\<forall>i b. getSession i (demo_pair evil_msg) = Some b \<longrightarrow> b \<noteq> 0 \<longrightarrow>
      (\<exists>t. heap (demo_pair evil_msg) b = Some t \<and> s_sendQue t = [])"
    by (auto simp: demo_pair_def getSession_def split: if_splits)
  have b: "getSession 2 (demo_pair evil_msg) = Some 1" by (simp add: getSession_def demo_pair_def)
  show "nfMessage demo_hi 0 (demo_pair evil_msg) = Inl OverRead"
    using nfMessage_negative_length_overreads[OF demo_pair_inv[OF wf] h l n o b, of demo_hi] by simp
qed

text \<open>
  Dispatch, for every value of the 32-bit message identifier: 1 creates a user, 3 is a chat
  message, and everything else, the server's own response identifier and identifiers with the top
  bit set included, changes nothing.
\<close>

theorem messageHandler_dispatch:
  assumes "heap w a = Some s"
  shows "messageHandler hi a w =
    (if hdr_msgId (msg_hdr (s_msg s)) = 1 then rqCreateUser hi a w
     else if hdr_msgId (msg_hdr (s_msg s)) = 3 then nfMessage hi a w
     else Inr w)"
  using messageHandler_eq[OF assms] .

theorem messageHandler_dispatch_witness:
  "messageHandler demo_hi 0 (demo_pair zero_msg) = Inr (demo_pair zero_msg)"
  using messageHandler_dispatch[of "demo_pair zero_msg" 0 "demo_session 1 zero_msg" demo_hi]
  by (simp add: demo_pair_def zero_msg_def)

text \<open>
  The commands sent to Redis determine what they are about: equal score increments mean the same
  client and the same length, equal creations mean the same client, and an increment is never a
  creation. So different clients never share a score.
\<close>

theorem redis_commands_identify:
  "(zincrby_cmd n i = zincrby_cmd m j \<longleftrightarrow> n = m \<and> i = j) \<and> (zadd_cmd i = zadd_cmd j \<longleftrightarrow> i = j) \<and>
   zadd_cmd i \<noteq> zincrby_cmd n j"
proof -
  have "n = m \<and> i = j" if "zincrby_cmd n i = zincrby_cmd m j"
  proof -
    from that have "to_string n @ CHR '' '' # ''session_'' @ to_string i =
        to_string m @ CHR '' '' # ''session_'' @ to_string j"
      by (simp add: zincrby_cmd_def)
    from append_sep_inject[OF this] have "to_string n = to_string m \<and> to_string i = to_string j"
      by (simp add: to_string_no_space)
    then show ?thesis using inj_to_string by (simp add: inj_eq)
  qed
  moreover have "i = j" if "zadd_cmd i = zadd_cmd j"
    using that inj_to_string by (simp add: zadd_cmd_def inj_eq)
  ultimately show ?thesis by (auto simp: zadd_cmd_def zincrby_cmd_def)
qed

text \<open>
  A duplicated identifier loses a client: when the identifier at the front of the free list is
  still registered, accepting succeeds but the new session enters no registry; it exists, is open
  and reads messages, and the identifier still leads to the old session.
\<close>

theorem duplicate_id_loses_session:
  assumes "srv_inv w" and "chat_ready w" and "0 < srv_accepting w" and "getState w \<noteq> SrvStop"
    and "length (srv_sessions w) < maxSession (srv_config w)" and "wf_msg msg0"
    and "getSession (hd (srv_free w)) w = Some b"
  shows "\<exists>w' s. complete_accept (chat_env hi) EcOk (Some ep) msg0 tx0 rx0 w = Inr w' \<and>
    heap w' (srv_alloc w) = Some s \<and> isOpen s \<and> s_reading s = [RdHeader 8] \<and>
    (\<forall>i. getSession i w' = getSession i w) \<and> (\<forall>i. getSession i w' \<noteq> Some (srv_alloc w))"
proof -
  have inv: "smap_inv (srv_sessions w)" using assms(1) by (simp add: srv_inv_def registry_inv_def)
  obtain w' s where w': "complete_accept (chat_env hi) EcOk (Some ep) msg0 tx0 rx0 w = Inr w'"
    "heap w' (srv_alloc w) = Some s" "isOpen s" "s_reading s = [RdHeader 8]"
    using accept_succeeds[OF assms(1-3), of hi ep msg0 tx0 rx0] assms(4,5)
    by (auto simp: getState_def)
  have "srv_sessions w' = map_emplace (hd (srv_free w)) (srv_alloc w) (srv_sessions w)"
    using chat_app.accept_sessions[OF assms(1,6,3) _ assms(5) w'(1)] assms(4) by (simp add: getState_def)
  then have same: "getSession i w' = getSession i w" for i
    using assms(7) by (simp add: getSession_def sm.emplace_present_same[OF inv])
  have "getSession i w \<noteq> Some (srv_alloc w)" for i
    using assms(1) registryD[of w i "srv_alloc w"]
    by (fastforce simp: getSession_def srv_inv_def heap_inv_def)
  with w' same show ?thesis by auto
qed

definition demo_duplicate :: chat_world where
  "demo_duplicate = demo_chat\<lparr>heap := [0 \<mapsto> demo_session 1 zero_msg], srv_free := [1, 2],
     srv_sessions := [(1, 0)], srv_alloc := 2\<rparr>"

theorem duplicate_id_loses_session_witness:
  "\<exists>w' s. complete_accept (chat_env demo_hi) EcOk (Some (''10.0.0.1'', 4000)) zero_msg 0 0
       demo_duplicate = Inr w' \<and> heap w' 2 = Some s \<and> isOpen s \<and> getSession 1 w' = Some 0"
proof -
  have wf: "wf_msg zero_msg" by (simp add: wf_msg_def zero_msg_def)
  have inv: "srv_inv demo_duplicate"
    by (auto simp: srv_inv_defs demo_duplicate_def sess_ok_def write_ok_def demo_chat_def
        demo_config_def pool_inv_def wf smap_inv_def split: if_splits)
  have rd: "chat_ready demo_duplicate" by (simp add: chat_ready_def demo_duplicate_def demo_chat_def)
  show ?thesis
    using duplicate_id_loses_session[OF inv rd _ _ _ wf, of 0 demo_hi "(''10.0.0.1'', 4000)" 0 0]
    by (auto simp: demo_duplicate_def demo_chat_def demo_config_def getState_def getSession_def)
qed

end
