(* ===== verification/Chat_Client.thy ===== *)
theory Chat_Client
  imports Tcp_Session Std_Map "HOL-Library.Char_ord" "HOL-Library.List_Lexorder"
begin

text \<open>
  The chat client: \<open>chat_client/Client.h\<close>, \<open>chat_client/Client.cpp\<close>, \<open>chat_client/Cli.h\<close>,
  \<open>chat_client/Cli.cpp\<close> and \<open>chat_client/main.cpp\<close>. One process holds many clients, each with one
  session and one I/O service of its own. The global variables, the console and the error log of
  the message handler are part of the world. \<open>boost::split\<close> is a parameter \<open>tokens\<close>.
\<close>

subsection \<open>Data\<close>

datatype BaseCommand = CmdCreateUser | CmdSendMessge | CmdStop

record Client =
  cl_session :: addr
  cl_stopped :: bool

record cli_world = net +
  cli_alloc :: addr
  g_clientVec :: "Client list"
  g_bTerm :: bool
  g_cmdFactory :: "(string, BaseCommand) smap"
  cli_unknown :: "int list"
  cli_out :: string

definition cli_world_init :: cli_world where
  "cli_world_init = \<lparr>heap = (\<lambda>_. None), cli_alloc = 0, g_clientVec = [], g_bTerm = False,
     g_cmdFactory = [], cli_unknown = [], cli_out = []\<rparr>"

subsection \<open>Client\<close>

text \<open>
  The constructor; \<open>parses\<close> tells which host strings \<open>from_string\<close> accepts. The port is narrowed by
  the endpoint's constructor.
\<close>

definition Client_new ::
  "(string \<Rightarrow> bool) \<Rightarrow> string \<Rightarrow> int \<Rightarrow> Msg \<Rightarrow> 64 word \<Rightarrow> 64 word \<Rightarrow> cli_world
     \<Rightarrow> (Client \<times> cli_world) res" where
  "Client_new parses host port msg0 tx0 rx0 w =
     (if \<not> parses host then Inl SystemError
      else
        let a = cli_alloc w;
            s = TcpSession_client fresh_socket ClientConfig_default (host, word_of_int port) msg0 tx0 rx0
        in Inr (\<lparr>cl_session = a, cl_stopped = False\<rparr>, (put_session a s w)\<lparr>cli_alloc := a + 1\<rparr>))"

definition cli_opened_name :: hfun where "cli_opened_name = 11"
definition cli_closed_name :: hfun where "cli_closed_name = 12"
definition cli_message_name :: hfun where "cli_message_name = 13"

definition registerHandler :: "Client \<Rightarrow> cli_world \<Rightarrow> cli_world res" where
  "registerHandler c w = upd_session (cl_session c) (\<lambda>s. Inr (s\<lparr>
     s_openedHandler := Some cli_opened_name, s_closedHandler := Some cli_closed_name,
     s_messageHandler := Some cli_message_name\<rparr>)) w"

definition Client_start :: "Client \<Rightarrow> cli_world \<Rightarrow> cli_world res" where
  "Client_start c w = bind_res (registerHandler c w) (session_connect (cl_session c))"

definition Client_stop :: "Client \<Rightarrow> Client" where
  "Client_stop c = c\<lparr>cl_stopped := True\<rparr>"

definition Client_close :: "Client \<Rightarrow> cli_world \<Rightarrow> cli_world res" where
  "Client_close c w = upd_session (cl_session c) (\<lambda>s. Inr (session_close s)) w"

definition Client_send :: "Msg \<Rightarrow> Client \<Rightarrow> cli_world \<Rightarrow> cli_world res" where
  "Client_send m c w = upd_session (cl_session c) (session_send_mutable m) w"

definition cli_openedHandler :: "addr \<Rightarrow> cli_world \<Rightarrow> cli_world res" where
  "cli_openedHandler a w = with_session a (\<lambda>s. Inr w) w"

definition cli_closedHandler :: "addr \<Rightarrow> CloseReason \<Rightarrow> cli_world \<Rightarrow> cli_world res" where
  "cli_closedHandler a reason w = with_session a (\<lambda>s. Inr w) w"

text \<open>The switch is on \<open>session->getID()\<close>; its default branch logs the identifier.\<close>

definition cli_messageHandler :: "addr \<Rightarrow> cli_world \<Rightarrow> cli_world res" where
  "cli_messageHandler a w = with_session a (\<lambda>s.
     let id = getID s
     in if id = MsgId_val RQ_CREATE_USER then Inr w
        else if id = MsgId_val NF_MESSAGE then Inr w
        else Inr (w\<lparr>cli_unknown := cli_unknown w @ [id]\<rparr>)) w"

definition cli_env :: "cli_world env" where
  "cli_env = \<lparr>
     run_opened = (\<lambda>h a w. if h = cli_opened_name then cli_openedHandler a w else Inl BadFunctionCall),
     run_closed = (\<lambda>h a r w. if h = cli_closed_name then cli_closedHandler a r w
                             else Inl BadFunctionCall),
     run_message = (\<lambda>h a w. if h = cli_message_name then cli_messageHandler a w
                            else Inl BadFunctionCall)\<rparr>"

subsection \<open>Commands\<close>

definition registerCommand ::
  "string \<Rightarrow> BaseCommand \<Rightarrow> (string, BaseCommand) smap \<Rightarrow> bool \<times> (string, BaseCommand) smap" where
  "registerCommand cmd c table =
     (case map_find cmd table of
        Some _ \<Rightarrow> (False, table)
      | None \<Rightarrow> (True, map_emplace cmd c table))"

fun command_help :: "BaseCommand \<Rightarrow> string" where
  "command_help CmdCreateUser =
     ''create users as many as clients and make DB data in mysql'' @ [CHR 0x0A]"
| "command_help CmdSendMessge = ''send message'' @ [CHR 0x0A]"
| "command_help CmdStop = ''stop packet send.'' @ [CHR 0x0A]"

definition factory_help :: "(string, BaseCommand) smap \<Rightarrow> string" where
  "factory_help table =
     ''     command     :     comment'' @ [CHR 0x0A]
     @ ''====================================='' @ [CHR 0x0A]
     @ concat (map (\<lambda>(name, c). name @ '' :     '' @ command_help c) table)"

text \<open>
  One iteration of the loop of each command; \<open>msg0\<close> is the content of the uninitialised \<open>Msg\<close>.
\<close>

definition create_one :: "Msg \<Rightarrow> Client \<Rightarrow> cli_world \<Rightarrow> cli_world res" where
  "create_one msg0 c w = with_session (cl_session c) (\<lambda>s.
     bind_res (strcpy RqCreateUser (c_str (to_string (getID s)))) (\<lambda>req.
     bind_res (encodeMsg RQ_CREATE_USER (Some req) (int (length req)) msg0) (\<lambda>msg.
       Client_send msg c w))) w"

definition send_one :: "string list \<Rightarrow> Msg \<Rightarrow> Client \<Rightarrow> cli_world \<Rightarrow> cli_world res" where
  "send_one split msg0 c w =
     (if length split \<le> 1 then Inl OutOfRange
      else bind_res (strcpy NfMessage (c_str (split ! 1))) (\<lambda>nf.
           bind_res (encodeMsg NF_MESSAGE (Some nf) (int (length nf)) msg0) (\<lambda>msg.
             Client_send msg c w)))"

fun command_handle ::
  "BaseCommand \<Rightarrow> string list \<Rightarrow> Msg \<Rightarrow> cli_world \<Rightarrow> (bool \<times> cli_world) res" where
  "command_handle CmdCreateUser split msg0 w =
     bind_res (fold_res (create_one msg0) (g_clientVec w) w) (\<lambda>w'. Inr (True, w'))"
| "command_handle CmdSendMessge split msg0 w =
     bind_res (fold_res (send_one split msg0) (g_clientVec w) w) (\<lambda>w'. Inr (True, w'))"
| "command_handle CmdStop split msg0 w =
     Inr (True, w\<lparr>g_clientVec := map Client_stop (g_clientVec w)\<rparr>)"

subsection \<open>The console\<close>

text \<open>
  \<open>std::getline\<close> on \<open>cin\<close>: nothing happens once the stream is not good, the string is not even
  cleared; a last line without a newline is delivered and ends the stream.
\<close>

record istream =
  in_chars :: string
  in_good :: bool

definition getline :: "istream \<Rightarrow> string \<Rightarrow> istream \<times> string" where
  "getline is str =
     (if \<not> in_good is then (is, str)
      else
        let line = takeWhile (\<lambda>c. c \<noteq> CHR 0x0A) (in_chars is);
            rest = dropWhile (\<lambda>c. c \<noteq> CHR 0x0A) (in_chars is)
        in (case rest of
              [] \<Rightarrow> (\<lparr>in_chars = [], in_good = False\<rparr>, line)
            | _ # rest' \<Rightarrow> (is\<lparr>in_chars := rest'\<rparr>, line)))"

datatype line_result = LineQuit | LineGoOn

text \<open>What \<open>readLine\<close> does with one line.\<close>

definition handle_line ::
  "(string \<Rightarrow> string list) \<Rightarrow> Msg \<Rightarrow> string \<Rightarrow> cli_world \<Rightarrow> (line_result \<times> cli_world) res" where
  "handle_line tokens msg0 str w =
     (if length str > 0 then
        (if str = ''quit'' then Inr (LineQuit, w\<lparr>g_bTerm := True\<rparr>)
         else if str = ''?'' \<or> str = ''help''
         then Inr (LineGoOn, w\<lparr>cli_out := cli_out w @ factory_help (g_cmdFactory w)\<rparr>)
         else (case tokens str of
                 [] \<Rightarrow> Inl OutOfRange
               | cmd # args \<Rightarrow> (case map_find cmd (g_cmdFactory w) of
                   None \<Rightarrow> Inr (LineGoOn, w)
                 | Some c \<Rightarrow> bind_res (command_handle c (tokens str) msg0 w)
                              (\<lambda>(ok, w'). Inr (LineGoOn, w')))))
      else Inr (LineGoOn, w))"

text \<open>The loop may run forever, so it has fuel: \<open>None\<close> means that it has not returned yet.\<close>

fun readLine_loop ::
  "nat \<Rightarrow> (string \<Rightarrow> string list) \<Rightarrow> Msg \<Rightarrow> istream \<Rightarrow> string \<Rightarrow> cli_world \<Rightarrow> cli_world res option" where
  "readLine_loop 0 tokens msg0 is str w = None"
| "readLine_loop (Suc n) tokens msg0 is str w =
     (if g_bTerm w then Some (Inr w)
      else
        let (is', str') = getline is str;
            w1 = w\<lparr>cli_out := cli_out w @ ''> ''\<rparr>
        in (case handle_line tokens msg0 str' w1 of
              Inl e \<Rightarrow> Some (Inl e)
            | Inr (LineQuit, w2) \<Rightarrow> Some (Inr w2)
            | Inr (LineGoOn, w2) \<Rightarrow> readLine_loop n tokens msg0 is' str' w2))"

definition readLine ::
  "nat \<Rightarrow> (string \<Rightarrow> string list) \<Rightarrow> Msg \<Rightarrow> istream \<Rightarrow> cli_world \<Rightarrow> cli_world res option" where
  "readLine fuel tokens msg0 is w = readLine_loop fuel tokens msg0 is [] w"

subsection \<open>main\<close>

definition register_commands :: "cli_world \<Rightarrow> cli_world" where
  "register_commands w = w\<lparr>g_cmdFactory :=
     snd (registerCommand ''stop'' CmdStop
       (snd (registerCommand ''send'' CmdSendMessge
         (snd (registerCommand ''create'' CmdCreateUser [])))))\<rparr>"

text \<open>
  \<open>sprintf(tmp, "%s_%d", argv[2], i)\<close> into 32 bytes; \<open>argv[2]\<close> is null when the program has fewer
  arguments.
\<close>

definition format_id :: "string option \<Rightarrow> 16 word \<Rightarrow> bytes res" where
  "format_id arg i = (case arg of
       None \<Rightarrow> Inl NullDeref
     | Some s \<Rightarrow> strcpy (replicate 32 0) (c_str (s @ ''_'' @ to_string (sint i))))"

text \<open>
  The loop that creates the clients, with its \<open>int16_t\<close> counter; every client's thread runs
  \<open>start()\<close>.
\<close>

fun create_clients ::
  "nat \<Rightarrow> (string \<Rightarrow> bool) \<Rightarrow> string option \<Rightarrow> int \<Rightarrow> Msg \<Rightarrow> 64 word \<Rightarrow> 64 word \<Rightarrow> 16 word \<Rightarrow> cli_world
     \<Rightarrow> cli_world res option" where
  "create_clients 0 parses arg numThread msg0 tx0 rx0 i w = None"
| "create_clients (Suc n) parses arg numThread msg0 tx0 rx0 i w =
     (if sint i < numThread then
        (case bind_res (format_id arg i) (\<lambda>tmp.
              bind_res (Client_new parses ''127.0.0.1'' 20000 msg0 tx0 rx0 w) (\<lambda>(c, w1).
              bind_res (Client_start c w1) (\<lambda>w2.
                Inr (w2\<lparr>g_clientVec := g_clientVec w2 @ [c]\<rparr>)))) of
           Inl e \<Rightarrow> Some (Inl e)
         | Inr w' \<Rightarrow> create_clients n parses arg numThread msg0 tx0 rx0 (i + 1) w')
      else Some (Inr w))"

text \<open>
  The end of \<open>main\<close>. The thread of a client is in \<open>m_ios.run()\<close>, which returns when the service is stopped or has
  no outstanding work; handlers run only while it does.
\<close>

datatype cli_event = CliConnect addr error_code | CliRead addr error_code bytes | CliWrite addr error_code nat

fun cli_event_at :: "cli_event \<Rightarrow> addr" where
  "cli_event_at (CliConnect a ec) = a"
| "cli_event_at (CliRead a ec chunk) = a"
| "cli_event_at (CliWrite a ec k) = a"

fun cli_exec :: "cli_event \<Rightarrow> cli_world \<Rightarrow> cli_world res" where
  "cli_exec (CliConnect a ec) w = complete_connect cli_env a ec w"
| "cli_exec (CliRead a ec chunk) w = complete_read cli_env a ec chunk w"
| "cli_exec (CliWrite a ec k) w = complete_write cli_env a ec k w"

definition outstanding :: "TcpSession \<Rightarrow> bool" where
  "outstanding s \<longleftrightarrow> 0 < s_connecting s \<or> s_reading s \<noteq> [] \<or> s_writing s \<noteq> []"

definition thread_runs :: "cli_world \<Rightarrow> Client \<Rightarrow> bool" where
  "thread_runs w c \<longleftrightarrow> \<not> cl_stopped c \<and>
     (case heap w (cl_session c) of None \<Rightarrow> False | Some s \<Rightarrow> outstanding s)"

definition cli_step :: "cli_event \<Rightarrow> cli_world \<Rightarrow> cli_world res" where
  "cli_step e w =
     (if list_ex (\<lambda>c. cl_session c = cli_event_at e \<and> thread_runs w c) (g_clientVec w) then cli_exec e w else Inr w)"

text \<open>
  The loop of \<open>join\<close> calls, for any kind of thread: \<open>runs\<close> tells which still run and \<open>step\<close> what a completion does;
  \<open>es\<close> are the completions that happen from now on, in order. \<open>None\<close> is a \<open>join\<close> that has not returned after all
  of them.
\<close>

fun join_threads ::
  "('w \<Rightarrow> 'c \<Rightarrow> bool) \<Rightarrow> ('e \<Rightarrow> 'w \<Rightarrow> 'w res) \<Rightarrow> 'e list \<Rightarrow> 'c list \<Rightarrow> 'w \<Rightarrow> 'w res option" where
  "join_threads runs step es [] w = Some (Inr w)"
| "join_threads runs step [] (c # cs) w = (if runs w c then None else join_threads runs step [] cs w)"
| "join_threads runs step (e # es) (c # cs) w =
     (if runs w c
      then (case step e w of Inl f \<Rightarrow> Some (Inl f) | Inr w' \<Rightarrow> join_threads runs step es (c # cs) w')
      else join_threads runs step (e # es) cs w)"

text \<open>
  The signal handler stops the clients and empties the vector; on \<open>SIGSEGV\<close> (11) it returns to the
  program, on any other signal the process exits. The result is the stopped clients, whether the
  process ends, and the globals.
\<close>

definition sigHandler :: "int \<Rightarrow> cli_world \<Rightarrow> Client list \<times> bool \<times> cli_world" where
  "sigHandler sig w =
     (map Client_stop (g_clientVec w), (if sig = 11 then False else True),
      w\<lparr>g_bTerm := True, g_clientVec := []\<rparr>)"

subsection \<open>The client hosts its sessions\<close>

text \<open>Every session of the process is consistent and carries the identifier 0.\<close>

definition cli_inv :: "cli_world \<Rightarrow> bool" where
  "cli_inv w \<longleftrightarrow> (\<forall>a s. heap w a = Some s \<longrightarrow> sess_ok s \<and> s_id s = 0)"

lemma cli_unknown_update [simp]:
  "heap (w\<lparr>cli_unknown := x\<rparr>) = heap w" "cli_inv (w\<lparr>cli_unknown := x\<rparr>) = cli_inv w"
  "same_reads w (w\<lparr>cli_unknown := x\<rparr>)"
  by (simp_all add: cli_inv_def same_reads_def)

lemma cli_messageHandler_unknown:
  "cli_inv w \<Longrightarrow> heap w a = Some s \<Longrightarrow>
     cli_messageHandler a w = Inr (w\<lparr>cli_unknown := cli_unknown w @ [0]\<rparr>)"
  by (simp add: cli_messageHandler_def cli_inv_def getID_def)

interpretation cli_host: session_host cli_env cli_inv
proof unfold_locales
  show "cli_inv w \<Longrightarrow> heap w a = Some s \<Longrightarrow> sess_ok s" for w a s
    by (simp add: cli_inv_def)
  show "cli_inv w \<Longrightarrow> heap w a = Some s \<Longrightarrow> sess_ok s' \<Longrightarrow> same_identity s s' \<Longrightarrow>
      cli_inv (put_session a s' w)" for w a s s'
    by (auto simp: cli_inv_def same_identity_def)
  show "cli_inv w' \<and> same_reads w w'" if "cli_inv w" "run_opened cli_env h a w = Inr w'" for w w' h a
    using that by (auto simp: cli_env_def cli_openedHandler_def session_inverts split: if_splits)
  show "cli_inv w' \<and> same_reads w w'" if "cli_inv w" "run_closed cli_env h a r w = Inr w'" for w w' h a r
    using that by (auto simp: cli_env_def cli_closedHandler_def session_inverts split: if_splits)
  show "cli_inv w' \<and> same_reads w w'" if "cli_inv w" "run_message cli_env h a w = Inr w'" for w w' h a
    using that
    by (auto simp: cli_env_def cli_messageHandler_def session_inverts Let_def split: if_splits)
qed

subsection \<open>Sending to all clients\<close>

definition text_body :: "bytes \<Rightarrow> nat \<Rightarrow> bytes" where
  "text_body s n = s @ replicate (n - length s) 0"

definition text_msg :: "MsgId_t \<Rightarrow> bytes \<Rightarrow> nat \<Rightarrow> Msg \<Rightarrow> Msg" where
  "text_msg i s n msg0 = \<lparr>msg_hdr = \<lparr>hdr_version = 1, hdr_result = 0,
       hdr_bodyLength = word_of_int (int n), hdr_msgId = word_of_int (MsgId_val i)\<rparr>,
     msg_body = overlay 0 (text_body s n) (msg_body msg0)\<rparr>"

lemma length_text_body: "length s \<le> n \<Longrightarrow> length (text_body s n) = n"
  by (simp add: text_body_def)

lemma text_msg_valid:
  assumes "length s \<le> n" and "n \<le> 1024" and "wf_msg msg0"
  shows "valid_msg (text_msg i s n msg0)" "checkHeader (text_msg i s n msg0)"
    "msg_bodyLength (text_msg i s n msg0) = int n"
    "take n (msg_body (text_msg i s n msg0)) = text_body s n"
proof -
  show l: "msg_bodyLength (text_msg i s n msg0) = int n"
    using bodyLength_word_of_int[of "int n"] assms(2) by (simp add: text_msg_def msg_bodyLength_def)
  show "valid_msg (text_msg i s n msg0)"
    using assms l length_text_body[OF assms(1)] by (simp add: valid_msg_def text_msg_def wf_msg_def)
  show "checkHeader (text_msg i s n msg0)"
    using assms l by (simp add: checkHeader_iff) (simp add: text_msg_def)
  show "take n (msg_body (text_msg i s n msg0)) = text_body s n"
    using length_text_body[OF assms(1)] by (simp add: text_msg_def overlay_0)
qed

lemma strcpy_zeros:
  assumes "0 \<notin> set s" and "length s < n"
  shows "strcpy (replicate n 0) (s @ [0]) = Inr (text_body s n)"
proof -
  have "takeWhile (\<lambda>b. b \<noteq> 0) (s @ [0]) = s" using takeWhile_nul[OF assms(1)] .
  moreover have "replicate (n - length s) (0 :: byte) = 0 # replicate (n - Suc (length s)) 0"
    using assms(2) by (simp add: Suc_diff_Suc replicate_Suc[symmetric] del: replicate_Suc)
  ultimately show ?thesis using assms(2) by (simp add: strcpy_def overlay_0 text_body_def)
qed

lemma encode_text:
  assumes "length s \<le> n" and "n \<le> 1024" and "wf_msg msg0"
  shows "encodeMsg i (Some (text_body s n)) (int n) msg0 = Inr (text_msg i s n msg0)"
  using encodeMsg_eq[of "int n" "text_body s n" msg0 i] assms length_text_body[OF assms(1)]
  by (simp add: text_msg_def)

lemma clients_fold:
  assumes "\<And>c w. c \<in> set cs \<Longrightarrow> cli_inv w \<Longrightarrow> heap w (cl_session c) \<noteq> None \<Longrightarrow> f c w = Client_send m c w"
    and "cli_inv w" and "valid_msg m" and "distinct (map cl_session cs)"
    and "\<forall>c \<in> set cs. \<exists>t. heap w (cl_session c) = Some t \<and> tx_inv t"
  shows "\<exists>w'. fold_res f cs w = Inr w' \<and> streams_grow (cl_session ` set cs) (msg_wire m) w w' \<and>
    cli_inv w' \<and> g_clientVec w' = g_clientVec w"
  using assms
proof (induction cs arbitrary: w)
  case Nil
  then show ?case by simp
next
  case (Cons c cs)
  let ?b = "cl_session c"
  obtain t where t: "heap w ?b = Some t" "tx_inv t" using Cons.prems(5) by auto
  obtain t' where t': "session_send m t = Inr t'" "stream_of t' = stream_of t @ msg_wire m" "tx_inv t'"
    using session_send_step[OF t(2) Cons.prems(3)] by blast
  let ?w1 = "put_session ?b t' w"
  have "Client_send m c w = Inr ?w1"
    using t(1) t'(1) by (simp add: Client_send_def session_send_mutable_def session_send_def)
  then have f1: "f c w = Inr ?w1" using Cons.prems(1,2) t(1) by simp
  have id: "sess_ok t" "s_id t = 0" using Cons.prems(2) t(1) by (auto simp: cli_inv_def)
  have "wf_msg m" using Cons.prems(3) by (simp add: valid_msg_def)
  with session_send_ok[OF t'(1) id(1)] have "sess_ok t'" "same_identity t t'" by auto
  then have inv1: "cli_inv ?w1" using cli_host.inv_put[OF Cons.prems(2) t(1)] by blast
  have nb: "?b \<notin> cl_session ` set cs" and d: "distinct (map cl_session cs)"
    using Cons.prems(4) by auto
  have "\<forall>c \<in> set cs. \<exists>t. heap ?w1 (cl_session c) = Some t \<and> tx_inv t"
    using Cons.prems(5) nb by (metis heap_put_session image_eqI list.set_intros(2))
  from Cons.IH[OF _ inv1 Cons.prems(3) d this] Cons.prems(1) obtain w' where
    r: "fold_res f cs ?w1 = Inr w'" and g: "streams_grow (cl_session ` set cs) (msg_wire m) ?w1 w'"
    and i: "cli_inv w'" "g_clientVec w' = g_clientVec ?w1"
    by auto
  have "streams_grow (cl_session ` set (c # cs)) (msg_wire m) w w'"
    using streams_grow_step[OF g t(1) t'(2,3) nb] by simp
  with f1 r i show ?case by (simp add: put_session_def)
qed

lemma send_one_sends:
  assumes "0 \<notin> set (map of_char txt :: bytes)" and "length txt < 256" and "wf_msg msg0"
  shows "send_one (cmd # txt # rest) msg0 c w =
    Client_send (text_msg NF_MESSAGE (map of_char txt) 256 msg0) c w"
  using assms strcpy_zeros[of "map of_char txt" 256] length_text_body[of "map of_char txt :: bytes" 256]
    encode_text[of "map of_char txt" 256 msg0 NF_MESSAGE]
  by (simp add: send_one_def NfMessage_def c_str_def)

lemma create_one_sends:
  assumes "cli_inv w" and "heap w (cl_session c) \<noteq> None" and "wf_msg msg0"
  shows "create_one msg0 c w = Client_send (text_msg RQ_CREATE_USER [48] 36 msg0) c w"
proof -
  obtain s where s: "heap w (cl_session c) = Some s" "s_id s = 0"
    using assms(1,2) by (auto simp: cli_inv_def)
  have "char_of (48 :: nat) = CHR ''0''" by code_simp
  then have "c_str (to_string 0) = [48] @ [0]"
    by (simp add: c_str_def to_string_def to_string_nat_def nat_digits.simps digit_char_def)
  then show ?thesis
    using s strcpy_zeros[of "[48]" 36] length_text_body[of "[48] :: bytes" 36]
      encode_text[of "[48]" 36 msg0 RQ_CREATE_USER] assms(3)
    by (simp add: create_one_def RqCreateUser_def getID_def)
qed

subsection \<open>The counting loops\<close>

lemma readLine_quits:
  assumes "\<not> g_bTerm w" and "getline is str = (is', ''quit'')"
  shows "readLine_loop (Suc n) tokens msg0 is str w =
    Some (Inr (w\<lparr>cli_out := cli_out w @ ''> '', g_bTerm := True\<rparr>))"
  using assms by (simp add: handle_line_def Let_def)

definition created :: "nat \<Rightarrow> Msg \<Rightarrow> cli_world \<Rightarrow> bool" where
  "created k msg0 w \<longleftrightarrow> cli_alloc w = k \<and>
     map cl_session (g_clientVec w) = [0..<k] \<and> (\<forall>c \<in> set (g_clientVec w). \<not> cl_stopped c) \<and>
     (\<forall>a. heap w a \<noteq> None \<longleftrightarrow> a < k) \<and>
     (\<forall>a s. heap w a = Some s \<longrightarrow> s_connecting s = 1 \<and> s_remoteEndpoint s = (''127.0.0.1'', 20000) \<and>
        s_id s = 0 \<and> s_sendQue s = [] \<and> s_writing s = [] \<and> s_reading s = [] \<and> s_msg s = msg0 \<and>
        s_messageHandler s = Some cli_message_name)"

lemma cli_put_session [simp]:
  "cli_alloc (put_session a s w) = cli_alloc w" "g_clientVec (put_session a s w) = g_clientVec w"
  "cli_unknown (put_session a s w) = cli_unknown w"
  by (simp_all add: put_session_def)

lemma create_clients_step:
  assumes "created k msg0 w" and "parses ''127.0.0.1''"
  shows "\<exists>c w1 w2. Client_new parses ''127.0.0.1'' 20000 msg0 tx0 rx0 w = Inr (c, w1) \<and>
    Client_start c w1 = Inr w2 \<and>
    created (Suc k) msg0 (w2\<lparr>g_clientVec := g_clientVec w2 @ [c]\<rparr>)"
  using assms
  by (auto simp: Client_new_def Client_start_def registerHandler_def session_connect_def created_def
      TcpSession_client_def less_Suc_eq)

lemma length_to_string_int16: "length (to_string (sint (i :: 16 word))) \<le> 6"
proof -
  have "nat (sint i) < 10 ^ Suc 4" "nat (- sint i) < 10 ^ Suc 4"
    using sint16_range[of i] by simp_all
  from this[THEN length_nat_digits] show ?thesis by (simp add: to_string_def to_string_nat_def)
qed

lemma strcpy_fits:
  assumes "length txt < length dst"
  shows "\<exists>buf. strcpy dst (c_str txt) = Inr buf"
proof -
  have "length (takeWhile (\<lambda>b. b \<noteq> 0) (c_str txt)) \<le> length txt"
    by (simp add: c_str_def takeWhile_tail) (metis length_map length_takeWhile_le)
  then show ?thesis using assms by (simp add: strcpy_def)
qed

lemma format_id_fits:
  assumes "length s \<le> 24"
  shows "\<exists>buf. format_id (Some s) i = Inr buf"
  using strcpy_fits[of "s @ ''_'' @ to_string (sint i)" "replicate 32 0"] assms
    length_to_string_int16[of i]
  by (simp add: format_id_def)

lemma create_clients_run:
  assumes "created k msg0 w" and "parses ''127.0.0.1''" and "length s \<le> 24"
    and "sint i + int n = numThread" and "numThread \<le> 32767"
  shows "\<exists>w'. create_clients (Suc n) parses (Some s) numThread msg0 tx0 rx0 i w = Some (Inr w') \<and>
    created (k + n) msg0 w'"
  using assms(1,4)
proof (induction n arbitrary: i w k)
  case 0
  then show ?case by simp
next
  case (Suc n)
  obtain buf where b: "format_id (Some s) i = Inr buf" using format_id_fits[OF assms(3)] by blast
  obtain c w1 w2 where st: "Client_new parses ''127.0.0.1'' 20000 msg0 tx0 rx0 w = Inr (c, w1)"
    "Client_start c w1 = Inr w2"
    and cr: "created (Suc k) msg0 (w2\<lparr>g_clientVec := g_clientVec w2 @ [c]\<rparr>)"
    using create_clients_step[where parses = parses, OF Suc.prems(1) assms(2)] by blast
  have less: "sint i < numThread" using Suc.prems(2) by simp
  have "sint (i + 1) = sint i + 1"
    using sint_int16[of "sint i + 1"] sint16_range(1)[of i] less assms(5) by simp
  with Suc.prems(2) have "sint (i + 1) + int n = numThread" by simp
  from Suc.IH[OF cr this] obtain w' where
    "create_clients (Suc n) parses (Some s) numThread msg0 tx0 rx0 (i + 1)
      (w2\<lparr>g_clientVec := g_clientVec w2 @ [c]\<rparr>) = Some (Inr w')"
    "created (Suc k + n) msg0 w'" by blast
  then show ?case using b st less by simp
qed

lemma create_clients_never:
  assumes "created k msg0 w" and "parses ''127.0.0.1''" and "length s \<le> 24"
    and "32767 < numThread"
  shows "create_clients n parses (Some s) numThread msg0 tx0 rx0 i w = None"
  using assms(1)
proof (induction n arbitrary: i w k)
  case (Suc n)
  obtain buf where b: "format_id (Some s) i = Inr buf" using format_id_fits[OF assms(3)] by blast
  obtain c w1 w2 where st: "Client_new parses ''127.0.0.1'' 20000 msg0 tx0 rx0 w = Inr (c, w1)"
    "Client_start c w1 = Inr w2"
    and cr: "created (Suc k) msg0 (w2\<lparr>g_clientVec := g_clientVec w2 @ [c]\<rparr>)"
    using create_clients_step[where parses = parses, OF Suc.prems assms(2)] by blast
  have "sint i < numThread" using sint16_range(2)[of i] assms(4) by simp
  then show ?case using b st Suc.IH[OF cr] by simp
qed simp

subsection \<open>Concrete objects for the witnesses\<close>

definition demo_clients :: cli_world where
  "demo_clients = cli_world_init\<lparr>heap := [0 \<mapsto> idle_session, 1 \<mapsto> idle_session],
     g_clientVec := [\<lparr>cl_session = 0, cl_stopped = False\<rparr>, \<lparr>cl_session = 1, cl_stopped = False\<rparr>],
     cli_alloc := 2\<rparr>"

lemma demo_clients_inv: "cli_inv demo_clients"
  by (auto simp: cli_inv_def demo_clients_def sess_ok_def write_ok_def idle_session_def
      TcpSession_client_def wf_msg_def zero_msg_def split: if_splits)

lemma demo_clients_tx:
  "\<forall>c \<in> set (g_clientVec demo_clients). \<exists>t. heap demo_clients (cl_session c) = Some t \<and> tx_inv t"
  using tx_inv_idle by (auto simp: demo_clients_def)

lemma created_init: "created 0 msg0 cli_world_init"
  by (simp add: created_def cli_world_init_def)

subsection \<open>Properties\<close>

text \<open>
  The \<open>send\<close> command sends the text once per client: for a text of less than 256 bytes without
  a zero byte it succeeds, every client's stream grows by exactly the image of one valid
  \<open>NF_MESSAGE\<close> of 256 bytes, the text padded with zeros, and nothing else changes in the sessions.
\<close>

theorem send_command_streams:
  assumes "cli_inv w" and "wf_msg msg0" and "distinct (map cl_session (g_clientVec w))"
    and "\<forall>c \<in> set (g_clientVec w). \<exists>t. heap w (cl_session c) = Some t \<and> tx_inv t"
    and "length txt < 256" and "0 \<notin> set (map of_char txt :: bytes)"
  shows "\<exists>w' m. command_handle CmdSendMessge [cmd, txt] msg0 w = Inr (True, w') \<and>
    valid_msg m \<and> checkHeader m \<and> msg_msgId m = MsgId_val NF_MESSAGE \<and> msg_bodyLength m = 256 \<and>
    take 256 (msg_body m) = map of_char txt @ replicate (256 - length txt) 0 \<and>
    streams_grow (cl_session ` set (g_clientVec w)) (msg_wire m) w w'"
proof -
  let ?m = "text_msg NF_MESSAGE (map of_char txt) 256 msg0"
  have v: "valid_msg ?m" "checkHeader ?m" "msg_bodyLength ?m = 256"
    "take 256 (msg_body ?m) = map of_char txt @ replicate (256 - length txt) 0"
    using text_msg_valid[of "map of_char txt" 256 msg0 NF_MESSAGE] assms(2,5)
    by (simp_all add: text_body_def)
  have "msg_msgId ?m = MsgId_val NF_MESSAGE" by (simp add: msg_msgId_def text_msg_def)
  moreover obtain w' where "fold_res (send_one [cmd, txt] msg0) (g_clientVec w) w = Inr w'"
    "streams_grow (cl_session ` set (g_clientVec w)) (msg_wire ?m) w w'"
    using clients_fold[OF _ assms(1) v(1) assms(3,4), of "send_one [cmd, txt] msg0"]
      send_one_sends[OF assms(6,5,2), of cmd "[]"] by blast
  ultimately show ?thesis using v by auto
qed

theorem send_command_streams_witness:
  "\<exists>w' m. command_handle CmdSendMessge [''send'', ''hi''] zero_msg demo_clients = Inr (True, w') \<and>
     msg_bodyLength m = 256 \<and> streams_grow {0, 1} (msg_wire m) demo_clients w'"
proof -
  have wf: "wf_msg zero_msg" by (simp add: wf_msg_def zero_msg_def)
  have d: "distinct (map cl_session (g_clientVec demo_clients))" by (simp add: demo_clients_def)
  have hi: "length ''hi'' < 256" "0 \<notin> set (map of_char ''hi'' :: bytes)" by simp_all
  have cs: "cl_session ` set (g_clientVec demo_clients) = {0, 1}" by (simp add: demo_clients_def)
  show ?thesis
    using send_command_streams[OF demo_clients_inv wf d demo_clients_tx hi, of "''send''"]
    unfolding cs by blast
qed

text \<open>
  C32. Where the \<open>send\<close> command corrupts memory: without a text argument the vector of
  words is read past its end, and a text of 256 or more bytes overflows the message structure on
  the stack. With no client at all both inputs are harmless.
\<close>

theorem send_command_faults:
  assumes "0 \<notin> set (map of_char txt :: bytes)" and "256 \<le> length txt"
  shows "command_handle CmdSendMessge [cmd] msg0 w =
      (if g_clientVec w = [] then Inr (True, w) else Inl OutOfRange) \<and>
    command_handle CmdSendMessge (cmd # txt # rest) msg0 w =
      (if g_clientVec w = [] then Inr (True, w) else Inl BufferOverflow)"
proof -
  have "takeWhile (\<lambda>b. b \<noteq> 0) (c_str txt) = map of_char txt"
    using takeWhile_nul[OF assms(1)] by (simp add: c_str_def)
  then have "strcpy NfMessage (c_str txt) = Inl BufferOverflow"
    using assms(2) by (simp add: strcpy_def NfMessage_def)
  then show ?thesis by (cases "g_clientVec w") (simp_all add: send_one_def)
qed

theorem send_command_faults_witness:
  "command_handle CmdSendMessge [''send'', replicate 300 CHR ''x''] zero_msg demo_clients =
     Inl BufferOverflow"
  using send_command_faults[of "replicate 300 CHR ''x''" "''send''" zero_msg demo_clients "[]"]
  by (simp add: demo_clients_def)

text \<open>
  The \<open>create\<close> command sends every client's session identifier, which is always 0: all clients
  ask for a user with the same name, and every stream grows by the image of that one message.
\<close>

theorem create_command_streams:
  assumes "cli_inv w" and "wf_msg msg0" and "distinct (map cl_session (g_clientVec w))"
    and "\<forall>c \<in> set (g_clientVec w). \<exists>t. heap w (cl_session c) = Some t \<and> tx_inv t"
  shows "\<exists>w' m. command_handle CmdCreateUser split msg0 w = Inr (True, w') \<and>
    valid_msg m \<and> checkHeader m \<and> msg_msgId m = MsgId_val RQ_CREATE_USER \<and> msg_bodyLength m = 36 \<and>
    take 36 (msg_body m) = 48 # replicate 35 0 \<and>
    streams_grow (cl_session ` set (g_clientVec w)) (msg_wire m) w w'"
proof -
  let ?m = "text_msg RQ_CREATE_USER [48] 36 msg0"
  have v: "valid_msg ?m" "checkHeader ?m" "msg_bodyLength ?m = 36"
    "take 36 (msg_body ?m) = 48 # replicate 35 0"
    using text_msg_valid[of "[48]" 36 msg0 RQ_CREATE_USER] assms(2) by (simp_all add: text_body_def)
  have "msg_msgId ?m = MsgId_val RQ_CREATE_USER" by (simp add: msg_msgId_def text_msg_def)
  moreover obtain w' where "fold_res (create_one msg0) (g_clientVec w) w = Inr w'"
    "streams_grow (cl_session ` set (g_clientVec w)) (msg_wire ?m) w w'"
    using clients_fold[OF _ assms(1) v(1) assms(3,4), of "create_one msg0"]
      create_one_sends[OF _ _ assms(2)] by blast
  ultimately show ?thesis using v by auto
qed

theorem create_command_streams_witness:
  "\<exists>w' m. command_handle CmdCreateUser [''create''] zero_msg demo_clients = Inr (True, w') \<and>
     msg_bodyLength m = 36 \<and> streams_grow {0, 1} (msg_wire m) demo_clients w'"
proof -
  have wf: "wf_msg zero_msg" by (simp add: wf_msg_def zero_msg_def)
  have d: "distinct (map cl_session (g_clientVec demo_clients))" by (simp add: demo_clients_def)
  have cs: "cl_session ` set (g_clientVec demo_clients) = {0, 1}" by (simp add: demo_clients_def)
  show ?thesis
    using create_command_streams[OF demo_clients_inv wf d demo_clients_tx, of "[''create'']"]
    unfolding cs by blast
qed

text \<open>Lines on which the console loop goes on with nothing but its output changed.\<close>

definition harmless ::
  "(string \<Rightarrow> string list) \<Rightarrow> (string, BaseCommand) smap \<Rightarrow> string \<Rightarrow> bool" where
  "harmless tokens table l \<longleftrightarrow> CHR 0x0A \<notin> set l \<and> (l = [] \<or> l = ''?'' \<or> l = ''help'' \<or>
     l \<noteq> ''quit'' \<and> (\<exists>c args. tokens l = c # args \<and> map_find c table = None))"

lemma getline_line:
  assumes "CHR 0x0A \<notin> set l"
  shows "getline \<lparr>in_chars = l @ CHR 0x0A # rest, in_good = True\<rparr> str =
    (\<lparr>in_chars = rest, in_good = True\<rparr>, l)"
proof -
  have "takeWhile (\<lambda>c. c \<noteq> CHR 0x0A) (l @ CHR 0x0A # rest) = l"
    "dropWhile (\<lambda>c. c \<noteq> CHR 0x0A) (l @ CHR 0x0A # rest) = CHR 0x0A # rest"
    using assms by (induction l) auto
  then show ?thesis by (simp add: getline_def)
qed

lemma handle_harmless:
  assumes "harmless tokens (g_cmdFactory w) l"
  shows "\<exists>out. handle_line tokens msg0 l w = Inr (LineGoOn, w\<lparr>cli_out := out\<rparr>)"
  using assms
  by (intro exI[of _ "if l = ''?'' \<or> l = ''help'' then cli_out w @ factory_help (g_cmdFactory w)
      else cli_out w"]) (auto simp: harmless_def handle_line_def)

subsection \<open>Waiting for the threads\<close>

text \<open>A completion touches its own session only, and a thread that has ended stays ended.\<close>

lemma cli_handlers_same:
  "fire_opened cli_env a w = Inr w' \<Longrightarrow> w' = w" "fire_closed cli_env a r w = Inr w' \<Longrightarrow> w' = w"
  "fire_message cli_env a w = Inr w' \<Longrightarrow> g_clientVec w' = g_clientVec w \<and> heap w' = heap w"
proof -
  show "w' = w" if "fire_opened cli_env a w = Inr w'"
    using that by (auto simp: fire_opened_def cli_env_def cli_openedHandler_def with_session_def split: option.splits if_splits)
  show "w' = w" if "fire_closed cli_env a r w = Inr w'"
    using that by (auto simp: fire_closed_def cli_env_def cli_closedHandler_def with_session_def split: option.splits if_splits)
  show "g_clientVec w' = g_clientVec w \<and> heap w' = heap w" if "fire_message cli_env a w = Inr w'"
    using that by (auto simp: fire_message_def cli_env_def cli_messageHandler_def with_session_def Let_def
        split: option.splits if_splits)
qed

lemma cli_exec_frame:
  assumes "cli_exec e w = Inr w'"
  shows "g_clientVec w' = g_clientVec w \<and> (\<forall>b. b \<noteq> cli_event_at e \<longrightarrow> heap w' b = heap w b)"
proof (cases e)
  case (CliConnect a ec)
  then show ?thesis
    using assms by (auto simp: complete_connect_def session_start_def session_read_def session_inverts Let_def
        dest!: cli_handlers_same split: if_splits)
next
  case (CliRead a ec chunk)
  obtain s where s: "heap w a = Some s" using assms CliRead by (auto simp: complete_read_def session_inverts)
  consider "s_reading s = []" | n rs where "s_reading s = RdHeader n # rs" | n rs where "s_reading s = RdBody n # rs"
    by (cases "s_reading s"; cases "hd (s_reading s)") auto
  then show ?thesis
    by cases (use assms CliRead s in \<open>auto simp: complete_read_def handleReadHeader_def handleReadBody_def session_read_def
        session_inverts Let_def dest!: cli_handlers_same split: if_splits\<close>)
next
  case (CliWrite a ec k)
  obtain s where s: "heap w a = Some s" using assms CliWrite by (auto simp: complete_write_def session_inverts)
  consider "s_writing s = []" | buf ws where "s_writing s = buf # ws" by (cases "s_writing s") auto
  then show ?thesis
    by cases (use assms CliWrite s in \<open>auto simp: complete_write_def handleWrite_def session_inverts
        dest!: cli_handlers_same split: if_splits\<close>)
qed

lemma cli_step_ended:
  assumes "cli_step e w = Inr w'"
  shows "g_clientVec w' = g_clientVec w" "\<not> thread_runs w c \<Longrightarrow> \<not> thread_runs w' c"
proof -
  note frame = cli_exec_frame[of e w w']
  show "g_clientVec w' = g_clientVec w" using assms frame by (auto simp: cli_step_def split: if_splits)
  assume c: "\<not> thread_runs w c"
  show "\<not> thread_runs w' c"
  proof (cases "cl_session c = cli_event_at e")
    case False
    then show ?thesis using assms frame c by (auto simp: cli_step_def thread_runs_def split: if_splits)
  next
    case True
    then show ?thesis
      using assms c by (auto simp: cli_step_def thread_runs_def list_ex_iff split: if_splits option.splits)
  qed
qed

lemma join_prefix:
  "join_threads runs step es cs w = Some (Inr w') \<Longrightarrow> \<exists>ds fs. es = ds @ fs \<and> fold_res step ds w = Inr w'"
proof (induction runs step es cs w rule: join_threads.induct)
  case (1 runs step es w)
  then show ?case by (intro exI[of _ "[]"] exI[of _ es]) simp
next
  case (2 runs step c cs w)
  then show ?case by (auto split: if_splits)
next
  case (3 runs step e es c cs w)
  show ?case
  proof (cases "runs w c")
    case True
    then obtain v where v: "step e w = Inr v" "join_threads runs step es (c # cs) v = Some (Inr w')"
      using "3.prems" by (auto split: sum.splits)
    then obtain ds fs where "es = ds @ fs" "fold_res step ds v = Inr w'" using "3.IH"(1)[OF True v(1)] by blast
    then show ?thesis using v(1) by (intro exI[of _ "e # ds"] exI[of _ fs]) simp
  next
    case False
    then show ?thesis using "3.IH"(2) "3.prems" by simp
  qed
qed

text \<open>
  What joining relies on: a thread that has ended stays ended. Then, over completions that do not fail, joining all
  threads returns exactly when none of them runs at the end, and then they have all ended.
\<close>

locale worker_threads =
  fixes runs :: "'w \<Rightarrow> 'c \<Rightarrow> bool"
    and step :: "'e \<Rightarrow> 'w \<Rightarrow> 'w res"
  assumes ended: "step e v = Inr v' \<Longrightarrow> \<not> runs v c \<Longrightarrow> \<not> runs v' c"
begin

lemma run_ended: "fold_res step es w = Inr w' \<Longrightarrow> \<not> runs w c \<Longrightarrow> \<not> runs w' c"
  by (induction es arbitrary: w) (auto simp: bind_res_eq_Inr dest: ended)

lemma join_exact:
  assumes "fold_res step es w = Inr w'"
  shows "if \<exists>c \<in> set cs. runs w' c then join_threads runs step es cs w = None
    else \<exists>v. join_threads runs step es cs w = Some (Inr v) \<and> (\<forall>c \<in> set cs. \<not> runs v c)"
  using assms
proof (induction cs arbitrary: es w)
  case Nil
  then show ?case by simp
next
  case (Cons c cs)
  note cs_case = Cons.IH
  show ?case
    using Cons.prems
  proof (induction es arbitrary: w)
    case Nil
    have "v = w" if "join_threads runs step [] cs w = Some (Inr v)" for v using join_prefix[OF that] by simp
    then show ?case using Nil cs_case[of "[]" w] by (auto split: if_splits)
  next
    case (Cons e es)
    show ?case
    proof (cases "runs w c")
      case True
      obtain v where v: "step e w = Inr v" "fold_res step es v = Inr w'"
        using Cons.prems by (auto simp: bind_res_eq_Inr)
      then show ?thesis using Cons.IH[of v] True by (auto split: if_splits)
    next
      case False
      then have "\<not> runs w' c" using run_ended[OF Cons.prems] by blast
      moreover have "\<not> runs v c" if "join_threads runs step (e # es) cs w = Some (Inr v)" for v
        using join_prefix[OF that] run_ended False by blast
      ultimately show ?thesis using cs_case[OF Cons.prems] False by (auto split: if_splits)
    qed
  qed
qed

end

interpretation cli_threads: worker_threads thread_runs cli_step
  by unfold_locales (rule cli_step_ended(2))

lemma cli_run_ended:
  assumes "fold_res cli_step es w = Inr w'"
  shows "g_clientVec w' = g_clientVec w \<and> (\<forall>c. \<not> thread_runs w c \<longrightarrow> \<not> thread_runs w' c)"
  by (rule fold_res_invariant[where P = "\<lambda>v. g_clientVec v = g_clientVec w \<and> (\<forall>c. \<not> thread_runs w c \<longrightarrow> \<not> thread_runs v c)",
        OF _ _ assms]) (auto dest: cli_step_ended)

text \<open>A thread that never ends is never joined.\<close>

lemma join_never:
  assumes "P w" and "\<And>e v v'. P v \<Longrightarrow> step e v = Inr v' \<Longrightarrow> P v'" and "\<And>v. P v \<Longrightarrow> runs v c"
  shows "join_threads runs step es (c # cs) w \<noteq> Some (Inr v)"
  using assms(1)
proof (induction es arbitrary: w)
  case Nil
  then show ?case using assms(3) by simp
next
  case (Cons e es)
  then show ?case using assms(2)[of w e] assms(3)[of w] by (auto split: sum.splits)
qed

text \<open>Every connection is refused: one completion per client, and no thread is left.\<close>

definition refused :: "nat \<Rightarrow> nat \<Rightarrow> cli_world \<Rightarrow> bool" where
  "refused n k w \<longleftrightarrow> map cl_session (g_clientVec w) = [0..<n] \<and> (\<forall>c \<in> set (g_clientVec w). \<not> cl_stopped c) \<and>
     (\<forall>a < n. \<exists>s. heap w a = Some s \<and> s_reading s = [] \<and> s_writing s = [] \<and> s_connecting s = (if a < k then 0 else 1))"

lemma created_refused: "created n msg0 w \<Longrightarrow> refused n 0 w"
  unfolding created_def refused_def by (metis less_zeroE not_None_eq)

lemma refused_runs:
  assumes "refused n k w" and "c \<in> set (g_clientVec w)"
  shows "thread_runs w c \<longleftrightarrow> k \<le> cl_session c"
proof -
  have "cl_session c \<in> set (map cl_session (g_clientVec w))" using assms(2) by simp
  also have "map cl_session (g_clientVec w) = [0..<n]" using assms(1) by (simp add: refused_def)
  finally have "cl_session c < n" by simp
  then show ?thesis using assms by (auto simp: refused_def thread_runs_def outstanding_def split: if_splits)
qed

lemma refused_step:
  assumes "refused n k w" and "k < n" and "ec \<noteq> EcOk"
  shows "\<exists>w'. cli_step (CliConnect k ec) w = Inr w' \<and> refused n (Suc k) w'"
proof -
  obtain s where s: "heap w k = Some s" "s_reading s = []" "s_writing s = []" "s_connecting s = 1"
    using assms(1,2) by (auto simp: refused_def)
  have "map cl_session (g_clientVec w) = [0..<n]" using assms(1) by (simp add: refused_def)
  then have "k \<in> set (map cl_session (g_clientVec w))" using assms(2) by simp
  then obtain c where c: "c \<in> set (g_clientVec w)" "cl_session c = k" by auto
  then have "thread_runs w c" using refused_runs[OF assms(1)] by simp
  then have "cli_step (CliConnect k ec) w = Inr (put_session k (s\<lparr>s_connecting := 0\<rparr>) w)"
    using c s assms(3) by (auto simp: cli_step_def list_ex_iff complete_connect_def)
  moreover have "refused n (Suc k) (put_session k (s\<lparr>s_connecting := 0\<rparr>) w)"
    using assms(1) s by (auto simp: refused_def less_Suc_eq)
  ultimately show ?thesis by blast
qed

lemma refused_run:
  assumes "refused n 0 w" and "k \<le> n" and "\<forall>a. ec a \<noteq> EcOk"
  shows "\<exists>w'. fold_res cli_step (map (\<lambda>a. CliConnect a (ec a)) [0..<k]) w = Inr w' \<and> refused n k w'"
  using assms(2)
proof (induction k)
  case 0
  then show ?case using assms(1) by simp
next
  case (Suc k)
  then obtain v where v: "fold_res cli_step (map (\<lambda>a. CliConnect a (ec a)) [0..<k]) w = Inr v" "refused n k v" by auto
  obtain w' where "cli_step (CliConnect k (ec k)) v = Inr w'" "refused n (Suc k) w'"
    using refused_step[OF v(2), of "ec k"] Suc.prems assms(3) by auto
  then show ?case using v(1) by (simp add: fold_res_append)
qed

subsection \<open>The console loop\<close>

text \<open>Once input has ended, the last line is delivered for ever.\<close>

lemma readLine_repeats:
  assumes "\<not> in_good is" and "\<not> g_bTerm w" and "harmless tokens (g_cmdFactory w) l"
  shows "readLine_loop n tokens msg0 is l w = None"
  using assms
proof (induction n arbitrary: w)
  case (Suc n)
  obtain out where "handle_line tokens msg0 l (w\<lparr>cli_out := cli_out w @ ''> ''\<rparr>) =
      Inr (LineGoOn, w\<lparr>cli_out := out\<rparr>)"
    using handle_harmless[of tokens "w\<lparr>cli_out := cli_out w @ ''> ''\<rparr>" l msg0] Suc.prems(3) by auto
  then show ?case using Suc.IH[of "w\<lparr>cli_out := out\<rparr>"] Suc.prems by (simp add: getline_def)
qed simp

lemma readLine_lines:
  assumes "\<forall>l \<in> set lines. harmless tokens (g_cmdFactory w) l" and "\<not> g_bTerm w"
  shows "\<exists>out. readLine_loop (Suc (length lines)) tokens msg0
      \<lparr>in_chars = concat (map (\<lambda>l. l @ [CHR 0x0A]) lines) @ ''quit'' @ CHR 0x0A # rest, in_good = True\<rparr>
      str w = Some (Inr (w\<lparr>cli_out := out, g_bTerm := True\<rparr>))"
  using assms
proof (induction lines arbitrary: w str)
  case Nil
  have "getline \<lparr>in_chars = ''quit'' @ CHR 0x0A # rest, in_good = True\<rparr> str =
      (\<lparr>in_chars = rest, in_good = True\<rparr>, ''quit'')"
    by (rule getline_line) simp
  from readLine_quits[OF Nil.prems(2) this, of 0 tokens msg0] show ?case
    by (intro exI[of _ "cli_out w @ ''> ''"]) (simp del: readLine_loop.simps)
next
  case (Cons l lines)
  let ?rest = "concat (map (\<lambda>l. l @ [CHR 0x0A]) lines) @ ''quit'' @ CHR 0x0A # rest"
  let ?w1 = "w\<lparr>cli_out := cli_out w @ ''> ''\<rparr>"
  have nl: "CHR 0x0A \<notin> set l" using Cons.prems(1) by (simp add: harmless_def)
  obtain out where h: "handle_line tokens msg0 l ?w1 = Inr (LineGoOn, w\<lparr>cli_out := out\<rparr>)"
    using handle_harmless[of tokens ?w1 l msg0] Cons.prems(1) by auto
  obtain out' where "readLine_loop (Suc (length lines)) tokens msg0
      \<lparr>in_chars = ?rest, in_good = True\<rparr> l (w\<lparr>cli_out := out\<rparr>) =
      Some (Inr (w\<lparr>cli_out := out', g_bTerm := True\<rparr>))"
    using Cons.IH[of "w\<lparr>cli_out := out\<rparr>" l] Cons.prems by auto
  then show ?case
    using Cons.prems(2) h getline_line[OF nl, of ?rest str]
    by (intro exI[of _ out']) (simp add: readLine_loop.simps(2)[of "Suc (length lines)"]
        del: readLine_loop.simps)
qed

text \<open>
  The console loop returns on \<open>quit\<close>: when the input starts with lines that are empty, a request
  for help or no command of the table, followed by a line \<open>quit\<close>, as many iterations as there are
  lines are enough, and the loop returns with the termination flag set and the sessions as they
  were.
\<close>

theorem readLine_returns_on_quit:
  assumes "\<forall>l \<in> set lines. harmless tokens (g_cmdFactory w) l" and "\<not> g_bTerm w"
  shows "\<exists>w'. readLine (Suc (length lines)) tokens msg0
      \<lparr>in_chars = concat (map (\<lambda>l. l @ [CHR 0x0A]) lines) @ ''quit'' @ CHR 0x0A # rest, in_good = True\<rparr>
      w = Some (Inr w') \<and> g_bTerm w' \<and> heap w' = heap w"
  using readLine_lines[OF assms, of msg0 rest "[]"] by (auto simp: readLine_def)

theorem readLine_returns_on_quit_witness:
  "\<exists>w'. readLine 2 (\<lambda>l. [l]) zero_msg
      \<lparr>in_chars = ''help'' @ CHR 0x0A # ''quit'' @ [CHR 0x0A], in_good = True\<rparr> demo_clients =
      Some (Inr w') \<and> g_bTerm w'"
proof -
  have "harmless (\<lambda>l. [l]) (g_cmdFactory demo_clients) ''help''" "\<not> g_bTerm demo_clients"
    by (simp_all add: harmless_def demo_clients_def cli_world_init_def)
  then show ?thesis
    using readLine_returns_on_quit[of "[''help'']" "\<lambda>l. [l]" demo_clients zero_msg "[]"]
    by (auto simp: eval_nat_numeral)
qed

text \<open>Input that ends without \<open>quit\<close>: no number of iterations is enough.\<close>

lemma readLine_never:
  assumes "\<not> g_bTerm w" and "\<forall>l \<in> set (last_line # lines). harmless tokens (g_cmdFactory w) l"
  shows "readLine_loop n tokens msg0
    \<lparr>in_chars = concat (map (\<lambda>l. l @ [CHR 0x0A]) lines) @ last_line, in_good = True\<rparr> str w = None"
  using assms
proof (induction lines arbitrary: n str w)
  case Nil
  have "\<forall>c \<in> set last_line. c \<noteq> CHR 0x0A" using Nil.prems(2) by (auto simp: harmless_def)
  then have whole: "takeWhile (\<lambda>c. c \<noteq> CHR 0x0A) last_line = last_line" "dropWhile (\<lambda>c. c \<noteq> CHR 0x0A) last_line = []"
    by (simp_all add: takeWhile_eq_all_conv dropWhile_eq_Nil_conv)
  have g: "getline \<lparr>in_chars = last_line, in_good = True\<rparr> str = (\<lparr>in_chars = [], in_good = False\<rparr>, last_line)"
    by (simp add: getline_def Let_def whole)
  obtain out where h: "handle_line tokens msg0 last_line (w\<lparr>cli_out := cli_out w @ ''> ''\<rparr>) =
      Inr (LineGoOn, w\<lparr>cli_out := out\<rparr>)"
    using handle_harmless[of tokens "w\<lparr>cli_out := cli_out w @ ''> ''\<rparr>" last_line msg0] Nil.prems(2) by auto
  have "readLine_loop k tokens msg0 \<lparr>in_chars = [], in_good = False\<rparr> last_line (w\<lparr>cli_out := out\<rparr>) = None" for k
    using Nil.prems by (intro readLine_repeats) simp_all
  then show ?case using Nil.prems(1) g h by (cases n) simp_all
next
  case (Cons l lines)
  let ?rest = "concat (map (\<lambda>l. l @ [CHR 0x0A]) lines) @ last_line"
  obtain out where h: "handle_line tokens msg0 l (w\<lparr>cli_out := cli_out w @ ''> ''\<rparr>) = Inr (LineGoOn, w\<lparr>cli_out := out\<rparr>)"
    using handle_harmless[of tokens "w\<lparr>cli_out := cli_out w @ ''> ''\<rparr>" l msg0] Cons.prems(2) by auto
  have "CHR 0x0A \<notin> set l" using Cons.prems(2) by (simp add: harmless_def)
  from getline_line[OF this, of ?rest str] h Cons.IH[of "w\<lparr>cli_out := out\<rparr>"] Cons.prems
  show ?case by (cases n) simp_all
qed

text \<open>
  C33. The console loop never returns when the input ends without \<open>quit\<close>: when the input is any number of lines, the
  last one possibly without its newline or empty, and each of them is empty, asks for help or is no command of
  the table, no number of iterations is enough. Once the stream has ended, \<open>getline\<close> leaves the last
  line as it is, and the loop handles that line for ever.
\<close>

theorem readLine_spins_at_end_of_input:
  assumes "\<not> g_bTerm w" and "\<forall>l \<in> set (last_line # lines). harmless tokens (g_cmdFactory w) l"
  shows "readLine fuel tokens msg0
    \<lparr>in_chars = concat (map (\<lambda>l. l @ [CHR 0x0A]) lines) @ last_line, in_good = True\<rparr> w = None"
  using readLine_never[OF assms] by (simp add: readLine_def)

theorem readLine_spins_at_end_of_input_witness:
  "readLine 1000 (\<lambda>l. [l]) zero_msg
     \<lparr>in_chars = ''help'' @ CHR 0x0A # ''hello'' @ CHR 0x0A # ''?'', in_good = True\<rparr> demo_clients = None"
proof -
  have "\<forall>l \<in> set [''?'', ''help'', ''hello'']. harmless (\<lambda>l. [l]) (g_cmdFactory demo_clients) l"
    by (simp add: harmless_def demo_clients_def cli_world_init_def)
  then show ?thesis
    using readLine_spins_at_end_of_input[of demo_clients "''?''" "[''help'', ''hello'']" "\<lambda>l. [l]" 1000 zero_msg]
    by (simp add: demo_clients_def cli_world_init_def)
qed

text \<open>
  The start-up loop creates one connecting client per requested thread, up to 32767: with an
  \<open>argv[2]\<close> of at most 24 characters, \<open>numThread\<close> iterations and the final test create that many
  clients, in order, each on a session of its own with one connect outstanding to the fixed
  server address.
\<close>

theorem main_creates_clients:
  assumes "numThread \<le> 32767" and "length s \<le> 24" and "parses ''127.0.0.1''"
  shows "\<exists>w'. create_clients (Suc numThread) parses (Some s) (int numThread) msg0 tx0 rx0 0 cli_world_init =
      Some (Inr w') \<and> map cl_session (g_clientVec w') = [0..<numThread] \<and>
    (\<forall>a < numThread. \<exists>t. heap w' a = Some t \<and> s_connecting t = 1 \<and>
       s_remoteEndpoint t = (''127.0.0.1'', 20000))"
proof -
  obtain w' where w': "create_clients (Suc numThread) parses (Some s) (int numThread) msg0 tx0 rx0 0
      cli_world_init = Some (Inr w')" and c: "created (0 + numThread) msg0 w'"
    using create_clients_run[where parses = parses, OF created_init assms(3,2), of 0 numThread
      "int numThread" msg0 tx0 rx0] assms(1) by (auto simp del: create_clients.simps)
  from c have "\<forall>a < numThread. \<exists>t. heap w' a = Some t \<and> s_connecting t = 1 \<and>
       s_remoteEndpoint t = (''127.0.0.1'', 20000)"
    unfolding created_def by (metis add_0 not_None_eq)
  with w' c show ?thesis by (auto simp: created_def)
qed

theorem main_creates_clients_witness:
  "\<exists>w'. create_clients 3 (\<lambda>h. True) (Some ''10.0.0.7'') 2 zero_msg 0 0 0 cli_world_init = Some (Inr w') \<and>
     map cl_session (g_clientVec w') = [0, 1]"
  using main_creates_clients[of 2 "''10.0.0.7''" "\<lambda>h. True" zero_msg 0 0]
  by (auto simp: upt_rec eval_nat_numeral)

text \<open>
  For more than 32767 threads the \<open>int16_t\<close> counter never reaches the limit: the start-up loop
  does not end, whatever the number of iterations, but keeps creating clients.
\<close>

theorem main_loop_never_ends:
  assumes "32767 < numThread" and "length s \<le> 24" and "parses ''127.0.0.1''"
  shows "create_clients fuel parses (Some s) numThread msg0 tx0 rx0 0 cli_world_init = None"
  using create_clients_never[where parses = parses, OF created_init assms(3,2,1)] .

theorem main_loop_never_ends_witness:
  "create_clients 100000 (\<lambda>h. True) (Some ''10.0.0.7'') 40000 zero_msg 0 0 0 cli_world_init = None"
  using main_loop_never_ends[of 40000 "''10.0.0.7''" "\<lambda>h. True"] by simp

text \<open>
  The client understands no message: its handler switches on the session identifier, which is 0
  in every client session, so each complete message from the server is logged as unknown with
  identifier 0, and then the next header is awaited.
\<close>

theorem client_logs_every_message_unknown:
  assumes "cli_inv w" and "heap w a = Some s" and "s_reading s = [RdHeader n]"
    and "s_messageHandler s = Some cli_message_name" and "checkHeader m" and "valid_msg m"
  shows "\<exists>w'. bind_res (complete_read cli_env a EcOk (header_bytes (msg_hdr m)) w)
      (complete_read cli_env a EcOk (take (nat (msg_bodyLength m)) (msg_body m))) = Inr w' \<and>
    cli_unknown w' = cli_unknown w @ [0] \<and> cli_inv w' \<and>
    map_option s_reading (heap w' a) = Some [RdHeader 8]"
proof -
  let ?w1 = "put_session a (received m s) w"
  have id: "same_identity s (received m s)" by (simp add: received_def same_identity_def)
  have "sess_ok s" "s_writing s = [] \<or> True" using assms(1,2) by (auto simp: cli_inv_def)
  then have "sess_ok (received m s)"
    using assms(6) by (auto simp: sess_ok_def write_ok_def received_def wf_msg_def valid_msg_def)
  then have inv1: "cli_inv ?w1" using cli_host.inv_put[OF assms(1,2) _ id] by blast
  let ?w2 = "?w1\<lparr>cli_unknown := cli_unknown ?w1 @ [0]\<rparr>"
  have msg: "run_message cli_env cli_message_name a ?w1 = Inr ?w2"
    using cli_messageHandler_unknown[OF inv1] by (simp add: cli_env_def)
  have rd: "session_read a hdrLength ?w2 =
      Inr (put_session a ((received m s)\<lparr>s_reading := [RdHeader 8]\<rparr>) ?w2)"
    by (simp add: session_read_def received_def)
  have "cli_inv ?w2" using inv1 by simp
  from cli_host.session_read_inv[OF this rd, of "received m s"]
  have "cli_inv (put_session a ((received m s)\<lparr>s_reading := [RdHeader 8]\<rparr>) ?w2)"
    by (simp add: received_def)
  then show ?thesis
    using receive_eq[OF assms(2-6), of cli_env] msg rd by simp
qed

theorem client_logs_every_message_unknown_witness:
  "\<exists>w'. bind_res (complete_read cli_env 7 EcOk (header_bytes (msg_hdr hi_msg))
       (cli_world_init\<lparr>heap := [7 \<mapsto> idle_session\<lparr>s_reading := [RdHeader 8],
          s_messageHandler := Some cli_message_name\<rparr>]\<rparr>))
     (complete_read cli_env 7 EcOk (take (nat (msg_bodyLength hi_msg)) (msg_body hi_msg))) = Inr w' \<and>
     cli_unknown w' = [0]"
proof -
  let ?s = "idle_session\<lparr>s_reading := [RdHeader 8], s_messageHandler := Some cli_message_name\<rparr>"
  have "cli_inv (cli_world_init\<lparr>heap := [7 \<mapsto> ?s]\<rparr>)"
    by (simp add: cli_inv_def sess_ok_def write_ok_def idle_session_def TcpSession_client_def
        wf_msg_def zero_msg_def)
  from client_logs_every_message_unknown[OF this, of 7 ?s 8 hi_msg] show ?thesis
    by (auto simp: hi_msg_valid cli_world_init_def)
qed

end
