(* ===== verification/Main_Programs.thy ===== *)
theory Main_Programs
  imports Chat_Server Chat_Client
begin

text \<open>
  The two programs: \<open>chat_server/main.cpp\<close> and \<open>chat_client/main.cpp\<close>. Boost's program options are a
  parameter: what parsing the command line gave, or \<open>None\<close> when it threw. A
  \<open>std::exception\<close> is caught in both, logged, and the program returns 0; undefined behaviour is
  not an exception and stays a failure. A program that does not get to its loop has no world. In the server
  \<open>run()\<close> joins its threads, which block until the services stop, so the world returned there is the one in which
  the event loops run. In the client the threads go on while \<open>main\<close> waits for them in \<open>join()\<close>.
\<close>

subsection \<open>chat_server/main.cpp\<close>

record server_options =
  so_help :: bool
  so_version :: bool
  so_daemon :: bool
  so_threads :: "int option"

datatype fork_result = ForkParent | ForkFailed | ForkChild

text \<open>The thread count is an \<open>int\<close> stored in a \<open>size_t\<close>.\<close>

definition runServer :: "hiredis \<Rightarrow> os_env \<Rightarrow> string \<Rightarrow> int \<Rightarrow> int \<Rightarrow> chat_world res" where
  "runServer hi os address port numThreads =
     (let config = ServerConfig_default\<lparr>threadCount := unat (word_of_int numThreads :: 64 word)\<rparr>
      in bind_res (ChatServer_new ''chatServer'' config) (chat_start hi os address port))"

text \<open>\<open>catch (std::exception&)\<close> around the body of \<open>main\<close>.\<close>

definition catching :: "(int \<times> 'w option) res \<Rightarrow> (int \<times> 'w option) res" where
  "catching r = (case r of Inl SystemError \<Rightarrow> Inr (0, None) | _ \<Rightarrow> r)"

definition server_main ::
  "hiredis \<Rightarrow> os_env \<Rightarrow> fork_result \<Rightarrow> server_options option \<Rightarrow> (int \<times> chat_world option) res" where
  "server_main hi os fork vm = catching (case vm of
       None \<Rightarrow> Inl SystemError
     | Some o1 \<Rightarrow>
         if so_help o1 then Inr (0, None)
         else if so_version o1 then Inr (0, None)
         else
           let numThreads = (case so_threads o1 of None \<Rightarrow> 1 | Some n \<Rightarrow> n)
           in if so_daemon o1 \<and> fork = ForkParent then Inr (0, None)
              else if so_daemon o1 \<and> fork = ForkFailed then Inr (1, None)
              else bind_res (runServer hi os ''127.0.0.1'' 20000 numThreads) (\<lambda>w. Inr (0, Some w)))"

subsection \<open>chat_client/main.cpp\<close>

record client_options =
  co_help :: bool
  co_version :: bool
  co_remote :: "string option"
  co_threads :: "int option"

text \<open>
  The body of \<open>main\<close> up to the end of \<open>readLine\<close>. \<open>fuel\<close> bounds the start-up loop and the console loop; \<open>None\<close> is a
  loop that has not ended. The host is computed and not used: the clients connect to the literal of the loop.
\<close>

definition client_console ::
  "nat \<Rightarrow> (string \<Rightarrow> bool) \<Rightarrow> (string \<Rightarrow> string list) \<Rightarrow> string option \<Rightarrow> istream \<Rightarrow> Msg \<Rightarrow> 64 word \<Rightarrow> 64 word
     \<Rightarrow> client_options option \<Rightarrow> (int \<times> cli_world option) res option" where
  "client_console fuel parses tokens argv2 stdin0 msg0 tx0 rx0 vm = (case vm of
       None \<Rightarrow> Some (Inl SystemError)
     | Some o1 \<Rightarrow>
         if co_help o1 then Some (Inr (0, None))
         else if co_version o1 then Some (Inr (0, None))
         else
           let numThread = (case co_threads o1 of None \<Rightarrow> 1 | Some n \<Rightarrow> n);
               host = (case co_remote o1 of Some h \<Rightarrow> h | None \<Rightarrow> ''127.0.0.1'')
           in (case create_clients fuel parses argv2 numThread msg0 tx0 rx0 0
                      (register_commands cli_world_init) of
                 None \<Rightarrow> None
               | Some (Inl e) \<Rightarrow> Some (Inl e)
               | Some (Inr w1) \<Rightarrow>
                   map_option (\<lambda>r. bind_res r (\<lambda>w2. Inr (0, Some w2)))
                     (readLine fuel tokens msg0 stdin0 (w1\<lparr>g_bTerm := False\<rparr>))))"

text \<open>
  The whole program: after the console, \<open>join\<close> of every thread, while the completions \<open>es\<close> happen; \<open>None\<close> also
  when a \<open>join\<close> has not returned after all of them. A failure in a client's thread is not caught by \<open>main\<close>. The
  completions that happen while the console is being read are not interleaved with it.
\<close>

definition client_main ::
  "nat \<Rightarrow> (string \<Rightarrow> bool) \<Rightarrow> (string \<Rightarrow> string list) \<Rightarrow> string option \<Rightarrow> istream \<Rightarrow> Msg \<Rightarrow> 64 word \<Rightarrow> 64 word
     \<Rightarrow> cli_event list \<Rightarrow> client_options option \<Rightarrow> (int \<times> cli_world option) res option" where
  "client_main fuel parses tokens argv2 stdin0 msg0 tx0 rx0 es vm =
     (case map_option catching (client_console fuel parses tokens argv2 stdin0 msg0 tx0 rx0 vm) of
        Some (Inr (rtn, Some w)) \<Rightarrow>
          map_option (\<lambda>r. bind_res r (\<lambda>w'. Inr (rtn, Some w'))) (join_threads thread_runs cli_step es (g_clientVec w) w)
      | r \<Rightarrow> r)"

subsection \<open>Lemmas\<close>

lemma catching_simps [simp]:
  "catching (Inr x) = Inr x" "catching (Inl SystemError) = Inr (0, None)"
  "catching (Inl OutOfRange) = Inl OutOfRange"
  by (simp_all add: catching_def)

lemma runServer_boot:
  "runServer hi os address port n =
     chat_boot hi os ''chatServer'' (ServerConfig_default\<lparr>threadCount := unat (word_of_int n :: 64 word)\<rparr>)
       address port"
  by (simp add: runServer_def chat_boot_def Let_def)

lemma ChatServer_new_ok:
  assumes "0 < threadCount config" and "maxSession config < 2 ^ 31"
  shows "\<exists>w. ChatServer_new name config = Inr w \<and> chat_redis w = Redis_new \<and>
    0 < length (m_ios (srv_pool w)) \<and> m_next (srv_pool w) = 1 \<and> srv_accepting w = 0"
  using assms
  by (cases "threadCount config")
    (simp_all add: ChatServer_new_def TcpServer_new_eq IoServicePool_new_eq getIoServicePool_def
      getIoService_def tcp_world.defs Let_def)

lemma ChatServer_new_no_threads:
  assumes "threadCount config = 0" and "maxSession config < 2 ^ 31"
  shows "ChatServer_new name config = Inl OutOfRange"
  using assms
  by (simp add: ChatServer_new_def TcpServer_new_eq IoServicePool_new_eq getIoServicePool_def
      getIoService_def)

lemma getIoService_total:
  "m_ios p \<noteq> [] \<Longrightarrow> \<exists>i p'. getIoService p = Inr (i, p') \<and> m_ios p' = m_ios p"
  by (auto simp: getIoService_def Let_def)

lemma listen_ok:
  assumes "m_ios (srv_pool w) \<noteq> []" and "os_bind os ep"
  shows "\<exists>w'. listen os ep w = Inr w' \<and>
    srv_acceptor w' = Some \<lparr>acc_endpoint = ep, acc_open = True\<rparr>"
proof -
  obtain i p where p: "getIoService (srv_pool w) = Inr (i, p)" "m_ios p \<noteq> []"
    using getIoService_total[OF assms(1)] assms(1) by auto
  obtain j q where "getIoService p = Inr (j, q)" using getIoService_total[OF p(2)] by blast
  then show ?thesis using p(1) assms(2) by (simp add: listen_def startAccept_def Let_def)
qed

text \<open>A boot on a machine where Redis answers and the endpoint can be used.\<close>

lemma boot_ok:
  assumes "0 < threadCount config" and "maxSession config < 2 ^ 31"
    and "redisConnect hi ip REDIS_PORT = Some c" and "ctx_err c = 0"
    and "os_parse os ip" and "os_bind os (ip, word_of_int port)"
  shows "\<exists>w. chat_boot hi os name config ip port = Inr w \<and> getState w = SrvStart \<and> srv_accepting w = 1 \<and>
    srv_acceptor w = Some \<lparr>acc_endpoint = (ip, word_of_int port), acc_open = True\<rparr>"
proof -
  obtain w0 where w0: "ChatServer_new name config = Inr w0" "chat_redis w0 = Redis_new"
    "m_ios (srv_pool w0) \<noteq> []" "srv_accepting w0 = 0"
    using ChatServer_new_ok[OF assms(1,2), of name] by auto
  define w1 where "w1 = w0\<lparr>chat_redis := Redis_new\<lparr>rd_host := ip, rd_context := Some c\<rparr>,
    srv_openedHandler := Some opened_name, srv_closedHandler := Some closed_name,
    srv_messageHandler := Some message_name\<rparr>"
  have w1: "m_ios (srv_pool w1) \<noteq> []" "srv_accepting w1 = 0" using w0 by (simp_all add: w1_def)
  obtain w where w: "listen os (ip, word_of_int port) w1 = Inr w"
    "srv_acceptor w = Some \<lparr>acc_endpoint = (ip, word_of_int port), acc_open = True\<rparr>"
    using listen_ok[of w1 os "(ip, word_of_int port)"] w1(1) assms(6) by auto
  have "chat_boot hi os name config ip port = listen os (ip, word_of_int port) w1"
    using w0(1,2) assms(3-5)
    by (simp add: chat_boot_def chat_start_def Redis_connect_def Redis_new_def start_address_def
        registerMessageHandler_def registerSessionClosedHandler_def registerSessionOpenedHandler_def
        w1_def)
  then show ?thesis
    using w listen_effect(5,7)[OF w(1)] w1(2) by (simp add: getState_def)
qed

lemma unat_threads: "1 \<le> n \<Longrightarrow> n < 2 ^ 31 \<Longrightarrow> unat (word_of_int n :: 64 word) = nat n"
  by (rule unat_size_nonneg) auto

text \<open>More fuel never changes the outcome of a loop that has ended.\<close>

lemma create_clients_more_fuel:
  "create_clients k parses arg n msg0 tx0 rx0 i w = Some r \<Longrightarrow> k \<le> k' \<Longrightarrow>
     create_clients k' parses arg n msg0 tx0 rx0 i w = Some r"
proof (induction k arbitrary: k' i w)
  case (Suc k)
  then obtain m where "k' = Suc m" "k \<le> m" by (cases k') auto
  with Suc show ?case by (auto split: if_splits sum.splits)
qed simp

lemma readLine_more_fuel:
  "readLine_loop k tokens msg0 inp str w = Some r \<Longrightarrow> k \<le> k' \<Longrightarrow>
     readLine_loop k' tokens msg0 inp str w = Some r"
proof (induction k arbitrary: k' inp str w)
  case (Suc k)
  then obtain m where "k' = Suc m" "k \<le> m" by (cases k') auto
  with Suc show ?case
    by (auto split: if_splits sum.splits prod.splits line_result.splits)
qed simp

lemma create_clients_keeps_table:
  "create_clients k parses arg n msg0 tx0 rx0 i w = Some (Inr w') \<Longrightarrow> g_cmdFactory w' = g_cmdFactory w"
proof (induction k arbitrary: i w)
  case (Suc k)
  have step: "g_cmdFactory w2 = g_cmdFactory w" if "Client_new parses h p msg0 tx0 rx0 w = Inr (c, w1)"
    "Client_start c w1 = Inr w2" for h p c w1 w2
    using that
    by (auto simp: Client_new_def Client_start_def registerHandler_def session_connect_def
        upd_session_eq_Inr bind_res_eq_Inr put_session_def Let_def split: if_splits)
  show ?case
    using Suc by (auto simp: bind_res_eq_Inr dest: step split: if_splits sum.splits)
qed simp

definition command_table :: "(string, BaseCommand) smap" where
  "command_table = g_cmdFactory (register_commands cli_world_init)"

lemma command_table_eq:
  "command_table = [(''create'', CmdCreateUser), (''send'', CmdSendMessge), (''stop'', CmdStop)]"
  by (simp add: command_table_def register_commands_def registerCommand_def)

lemma created_start: "created 0 msg0 (register_commands cli_world_init)"
  by (simp add: created_def register_commands_def cli_world_init_def)

text \<open>The options with which the server program gets to \<open>runServer\<close>.\<close>

definition runs_server :: "fork_result \<Rightarrow> server_options \<Rightarrow> bool" where
  "runs_server fork o1 \<longleftrightarrow> \<not> so_help o1 \<and> \<not> so_version o1 \<and> (so_daemon o1 \<longrightarrow> fork = ForkChild)"

lemma server_main_runs:
  assumes "runs_server fork o1"
  shows "server_main hi os fork (Some o1) = catching (bind_res
    (runServer hi os ''127.0.0.1'' 20000 (case so_threads o1 of None \<Rightarrow> 1 | Some n \<Rightarrow> n)) (\<lambda>w. Inr (0, Some w)))"
  using assms by (cases fork) (auto simp: server_main_def runs_server_def Let_def)

lemma runServer_no_redis:
  assumes "1 \<le> n" and "n < 2 ^ 31" and "\<not> fst (Redis_connect hi ip Redis_new)"
  shows "\<exists>w. runServer hi os ip port n = Inr w \<and> getState w = SrvReady \<and> srv_accepting w = 0"
proof -
  let ?c = "ServerConfig_default\<lparr>threadCount := unat (word_of_int n :: 64 word)\<rparr>"
  have c: "0 < threadCount ?c" "maxSession ?c < 2 ^ 31"
    using unat_threads[OF assms(1,2)] assms(1) by (simp_all add: ServerConfig_default_def)
  obtain w where w: "ChatServer_new ''chatServer'' ?c = Inr w" "chat_redis w = Redis_new"
      "srv_accepting w = 0"
    using ChatServer_new_ok[OF c, of "''chatServer''"] by auto
  have "getState w = SrvReady"
    using w(1) by (auto simp: ChatServer_new_def TcpServer_new_eq getState_def bind_res_eq_Inr
        tcp_world.defs split: if_splits)
  then show ?thesis
    using w assms(3)
    by (cases "Redis_connect hi ip Redis_new") (simp add: runServer_def chat_start_def getState_def Let_def)
qed

lemma runServer_no_endpoint:
  assumes "1 \<le> n" and "n < 2 ^ 31" and "fst (Redis_connect hi ip Redis_new)"
    and "\<not> (os_parse os ip \<and> os_bind os (ip, word_of_int port))"
  shows "runServer hi os ip port n = Inl SystemError"
proof -
  let ?c = "ServerConfig_default\<lparr>threadCount := unat (word_of_int n :: 64 word)\<rparr>"
  have c: "0 < threadCount ?c" "maxSession ?c < 2 ^ 31"
    using unat_threads[OF assms(1,2)] assms(1) by (simp_all add: ServerConfig_default_def)
  obtain w where w: "ChatServer_new ''chatServer'' ?c = Inr w" "chat_redis w = Redis_new"
      "m_ios (srv_pool w) \<noteq> []"
    using ChatServer_new_ok[OF c, of "''chatServer''"] by auto
  then obtain i p where "getIoService (srv_pool w) = Inr (i, p)"
    using getIoService_total by blast
  then show ?thesis
    using w assms(3,4)
    by (cases "Redis_connect hi ip Redis_new")
      (auto simp: runServer_def chat_start_def start_address_def listen_def Let_def
        registerMessageHandler_def registerSessionClosedHandler_def registerSessionOpenedHandler_def)
qed

lemma runServer_no_threads: "runServer hi os ip port 0 = Inl OutOfRange"
  using ChatServer_new_no_threads[of "ServerConfig_default\<lparr>threadCount := 0\<rparr>" "''chatServer''"]
  by (simp add: runServer_def ServerConfig_default_def)

text \<open>The console of the client program ends on \<open>quit\<close>, with every client connecting.\<close>

lemma console_returns:
  assumes "\<not> co_help o1" and "\<not> co_version o1" and "co_threads o1 = Some (int n)" and "n \<le> 32767"
    and "length s \<le> 24" and "parses ''127.0.0.1''"
    and "\<forall>l \<in> set lines. harmless tokens command_table l"
    and "n < fuel" and "length lines < fuel"
  shows "\<exists>w. client_console fuel parses tokens (Some s)
      \<lparr>in_chars = concat (map (\<lambda>l. l @ [CHR 0x0A]) lines) @ ''quit'' @ CHR 0x0A # rest, in_good = True\<rparr>
      msg0 tx0 rx0 (Some o1) = Some (Inr (0, Some w)) \<and> created n msg0 w \<and> g_bTerm w"
proof -
  let ?start = "register_commands cli_world_init"
  let ?in = "\<lparr>in_chars = concat (map (\<lambda>l. l @ [CHR 0x0A]) lines) @ ''quit'' @ CHR 0x0A # rest, in_good = True\<rparr>"
  obtain w1 where w1: "create_clients (Suc n) parses (Some s) (int n) msg0 tx0 rx0 0 ?start = Some (Inr w1)"
    and c: "created n msg0 w1"
    using create_clients_run[where parses = parses, OF created_start assms(6,5), of 0 n "int n" msg0 tx0 rx0]
      assms(4) by (auto simp del: create_clients.simps)
  have long: "create_clients fuel parses (Some s) (int n) msg0 tx0 rx0 0 ?start = Some (Inr w1)"
    using create_clients_more_fuel[OF w1] assms(8) by simp
  have table: "g_cmdFactory w1 = command_table"
    using create_clients_keeps_table[OF w1] by (simp add: command_table_def)
  obtain out where "readLine_loop (Suc (length lines)) tokens msg0 ?in [] (w1\<lparr>g_bTerm := False\<rparr>) =
      Some (Inr (w1\<lparr>cli_out := out, g_bTerm := True\<rparr>))"
    using readLine_lines[of lines tokens "w1\<lparr>g_bTerm := False\<rparr>" msg0 rest "[]"] assms(7) table
    by (auto simp del: readLine_loop.simps)
  from readLine_more_fuel[OF this, of fuel] assms(9)
  have "readLine fuel tokens msg0 ?in (w1\<lparr>g_bTerm := False\<rparr>) =
      Some (Inr (w1\<lparr>cli_out := out, g_bTerm := True\<rparr>))"
    by (simp add: readLine_def del: readLine_loop.simps)
  then have "client_console fuel parses tokens (Some s) ?in msg0 tx0 rx0 (Some o1) =
      Some (Inr (0, Some (w1\<lparr>cli_out := out, g_bTerm := True\<rparr>)))"
    using assms(1-3) long by (simp add: client_console_def)
  then show ?thesis using c by (auto simp: created_def)
qed

subsection \<open>Properties\<close>

text \<open>
  C28. The server program serves: run without \<open>help\<close> and \<open>version\<close>, as the child when it forks, with
  \<open>n\<close> threads (one by default), Redis answering and the fixed address usable, it returns 0 from a
  server in state \<open>Start\<close> that listens on port 20000 of the loopback address, has exactly one accept
  outstanding, room for 1024 sessions and one thread for each of its services.
\<close>

theorem server_main_serves:
  assumes "runs_server fork o1" and "n = (case so_threads o1 of None \<Rightarrow> 1 | Some k \<Rightarrow> k)"
    and "1 \<le> n" and "n < 2 ^ 31"
    and "redisConnect hi ''127.0.0.1'' 6379 = Some c" and "ctx_err c = 0"
    and "os_parse os ''127.0.0.1''" and "os_bind os (''127.0.0.1'', 20000)"
  shows "\<exists>w. server_main hi os fork (Some o1) = Inr (0, Some w) \<and> getState w = SrvStart \<and>
    srv_acceptor w = Some \<lparr>acc_endpoint = (''127.0.0.1'', 20000), acc_open = True\<rparr> \<and>
    srv_accepting w = 1 \<and> maxSession (srv_config w) = 1024 \<and>
    length (pool_threads (srv_pool w)) = nat n"
proof -
  let ?c = "ServerConfig_default\<lparr>threadCount := unat (word_of_int n :: 64 word)\<rparr>"
  have c: "0 < threadCount ?c" "maxSession ?c < 2 ^ 31" "threadCount ?c = nat n"
    using unat_threads[OF assms(3,4)] assms(3) by (simp_all add: ServerConfig_default_def)
  obtain w where w: "chat_boot hi os ''chatServer'' ?c ''127.0.0.1'' 20000 = Inr w"
    "getState w = SrvStart" "srv_accepting w = 1"
    "srv_acceptor w = Some \<lparr>acc_endpoint = (''127.0.0.1'', 20000), acc_open = True\<rparr>"
    using boot_ok[OF c(1,2) assms(5,6,7), of 20000 "''chatServer''"] assms(8) by auto
  have "srv_config w = ?c" "length (pool_threads (srv_pool w)) = nat n"
    using chat_boot_inv[OF w(1)] w(2) c(3) by (simp_all add: getState_def threads_inv_def)
  moreover have "server_main hi os fork (Some o1) = Inr (0, Some w)"
    using server_main_runs[OF assms(1), of hi os] assms(2) w(1) by (simp add: runServer_boot)
  ultimately show ?thesis using w by (simp add: ServerConfig_default_def)
qed

theorem server_main_serves_witness:
  "\<exists>w. server_main demo_hi demo_os ForkChild
      (Some \<lparr>so_help = False, so_version = False, so_daemon = True, so_threads = Some 4\<rparr>) = Inr (0, Some w) \<and>
    getState w = SrvStart \<and> length (pool_threads (srv_pool w)) = 4"
  using server_main_serves
    [of ForkChild "\<lparr>so_help = False, so_version = False, so_daemon = True, so_threads = Some 4\<rparr>" 4 demo_hi
       "\<lparr>ctx_err = 0, ctx_sent = []\<rparr>" demo_os]
  by (auto simp: runs_server_def demo_hi_def demo_os_def)

text \<open>
  C29. How the server program fails: without Redis it gives up silently, returning 0 from a server that
  never listened; with Redis but an address it cannot use, the exception ends it with 0 as well; asked
  for zero threads it indexes the empty pool, which no \<open>catch\<close> sees.
\<close>

theorem server_main_failures:
  assumes "runs_server fork o1" and "1 \<le> n" and "n < 2 ^ 31"
  shows "(\<not> fst (Redis_connect hi ''127.0.0.1'' Redis_new) \<longrightarrow>
      (\<exists>w. server_main hi os fork (Some (o1\<lparr>so_threads := Some n\<rparr>)) = Inr (0, Some w) \<and>
         getState w = SrvReady \<and> srv_accepting w = 0)) \<and>
    (fst (Redis_connect hi ''127.0.0.1'' Redis_new) \<longrightarrow>
      \<not> (os_parse os ''127.0.0.1'' \<and> os_bind os (''127.0.0.1'', 20000)) \<longrightarrow>
      server_main hi os fork (Some (o1\<lparr>so_threads := Some n\<rparr>)) = Inr (0, None)) \<and>
    server_main hi os fork (Some (o1\<lparr>so_threads := Some 0\<rparr>)) = Inl OutOfRange"
proof -
  have r: "runs_server fork (o1\<lparr>so_threads := k\<rparr>)" for k
    using assms(1) by (simp add: runs_server_def)
  show ?thesis
    using runServer_no_redis[OF assms(2,3), of hi "''127.0.0.1''" os 20000]
      runServer_no_endpoint[OF assms(2,3), of hi "''127.0.0.1''" os 20000]
    by (auto simp: server_main_runs[OF r] runServer_no_threads)
qed

theorem server_main_failures_witness:
  "server_main demo_hi \<lparr>os_parse = (\<lambda>h. True), os_bind = (\<lambda>e. False)\<rparr> ForkParent
      (Some \<lparr>so_help = False, so_version = False, so_daemon = False, so_threads = Some 2\<rparr>) = Inr (0, None) \<and>
   server_main demo_hi \<lparr>os_parse = (\<lambda>h. True), os_bind = (\<lambda>e. False)\<rparr> ForkParent
      (Some \<lparr>so_help = False, so_version = False, so_daemon = False, so_threads = Some 0\<rparr>) = Inl OutOfRange"
  using server_main_failures
    [of ForkParent "\<lparr>so_help = False, so_version = False, so_daemon = False, so_threads = None\<rparr>" 2 demo_hi
       "\<lparr>os_parse = (\<lambda>h. True), os_bind = (\<lambda>e. False)\<rparr>"]
  by (simp add: runs_server_def Redis_connect_def demo_hi_def Redis_new_def)

text \<open>
  C30. A run of the client program, with \<open>n\<close> threads up to 32767, a second argument of at most 24 characters and an
  input whose lines are harmless up to a \<open>quit\<close>. The console ends with \<open>n\<close> clients that all connect to port 20000 of
  the loopback address, whatever the \<open>remote\<close> option said; but \<open>main\<close> then waits for the threads: for completions
  that do not fail, it returns, and returns 0, exactly when no client has an operation outstanding after them. So
  \<open>quit\<close> alone ends nothing while a connection attempt is pending, and when all attempts are refused, the
  program does return.
\<close>

theorem client_main_runs:
  assumes "\<not> co_help o1" and "\<not> co_version o1" and "co_threads o1 = Some (int n)" and "n \<le> 32767"
    and "length s \<le> 24" and "parses ''127.0.0.1''"
    and "\<forall>l \<in> set lines. harmless tokens command_table l"
    and "n < fuel" and "length lines < fuel"
    and "run = (\<lambda>es. client_main fuel parses tokens (Some s)
      \<lparr>in_chars = concat (map (\<lambda>l. l @ [CHR 0x0A]) lines) @ ''quit'' @ CHR 0x0A # rest, in_good = True\<rparr>
      msg0 tx0 rx0 es (Some o1))"
  shows "\<exists>w. map cl_session (g_clientVec w) = [0..<n] \<and> g_bTerm w \<and>
    (\<forall>a < n. \<exists>t. heap w a = Some t \<and> s_connecting t = 1 \<and> s_remoteEndpoint t = (''127.0.0.1'', 20000)) \<and>
    (\<forall>es w'. fold_res cli_step es w = Inr w' \<longrightarrow>
       (if \<exists>c \<in> set (g_clientVec w'). thread_runs w' c then run es = None
        else \<exists>v. run es = Some (Inr (0, Some v)) \<and> (\<forall>c \<in> set (g_clientVec v). \<not> thread_runs v c))) \<and>
    (0 < n \<longrightarrow> run [] = None) \<and>
    (\<forall>ec. (\<forall>a. ec a \<noteq> EcOk) \<longrightarrow>
       (\<exists>v. run (map (\<lambda>a. CliConnect a (ec a)) [0..<n]) = Some (Inr (0, Some v))))"
proof -
  obtain w where w: "created n msg0 w" "g_bTerm w"
    and run: "run es = map_option (\<lambda>r. bind_res r (\<lambda>w'. Inr (0, Some w'))) (join_threads thread_runs cli_step es (g_clientVec w) w)" for es
    using console_returns[where parses = parses, OF assms(1-9), of rest msg0 tx0 rx0] unfolding assms(10) client_main_def by auto
  have exact: "if \<exists>c \<in> set (g_clientVec w'). thread_runs w' c then run es = None
      else \<exists>v. run es = Some (Inr (0, Some v)) \<and> (\<forall>c \<in> set (g_clientVec v). \<not> thread_runs v c)"
    if es: "fold_res cli_step es w = Inr w'" for es w'
  proof -
    have vec': "g_clientVec w' = g_clientVec w" using cli_run_ended[OF es] by blast
    show ?thesis
    proof (cases "\<exists>c \<in> set (g_clientVec w). thread_runs w' c")
      case True
      then have "join_threads thread_runs cli_step es (g_clientVec w) w = None" using cli_threads.join_exact[OF es, of "g_clientVec w"] by simp
      then show ?thesis using True by (simp add: run vec')
    next
      case False
      then obtain v where v: "join_threads thread_runs cli_step es (g_clientVec w) w = Some (Inr v)" "\<forall>c \<in> set (g_clientVec w). \<not> thread_runs v c"
        using cli_threads.join_exact[OF es, of "g_clientVec w"] by auto
      have "g_clientVec v = g_clientVec w" using join_prefix[OF v(1)] cli_run_ended by blast
      then show ?thesis using False v by (simp add: run vec')
    qed
  qed
  have ref: "refused n 0 w" using created_refused[OF w(1)] .
  have vec: "map cl_session (g_clientVec w) = [0..<n]" using w(1) by (simp add: created_def)
  have blocked: "run [] = None" if "0 < n"
  proof -
    have "length (g_clientVec w) = n" using arg_cong[OF vec, of length] by simp
    then have "g_clientVec w \<noteq> []" using that by auto
    then have "\<exists>c \<in> set (g_clientVec w). thread_runs w c" using refused_runs[OF ref] by (cases "g_clientVec w") auto
    then show ?thesis using exact[of "[]" w] by auto
  qed
  have refused: "\<exists>v. run (map (\<lambda>a. CliConnect a (ec a)) [0..<n]) = Some (Inr (0, Some v))" if ec: "\<forall>a. ec a \<noteq> EcOk" for ec
  proof -
    obtain w' where w': "fold_res cli_step (map (\<lambda>a. CliConnect a (ec a)) [0..<n]) w = Inr w'" "refused n n w'"
      using refused_run[OF ref order_refl ec] by blast
    have "map cl_session (g_clientVec w') = [0..<n]" using w'(2) by (simp add: refused_def)
    from arg_cong[OF this, of set] have below: "cl_session ` set (g_clientVec w') = {0..<n}" by simp
    have "\<not> thread_runs w' c" if "c \<in> set (g_clientVec w')" for c
    proof -
      have "cl_session c \<in> {0..<n}" using that below by blast
      then show ?thesis using refused_runs[OF w'(2) that] by simp
    qed
    then have "\<not> (\<exists>c \<in> set (g_clientVec w'). thread_runs w' c)" by blast
    then show ?thesis using exact[OF w'(1)] by auto
  qed
  have "\<forall>a < n. \<exists>t. heap w a = Some t \<and> s_connecting t = 1 \<and> s_remoteEndpoint t = (''127.0.0.1'', 20000)"
    using w(1) unfolding created_def by (metis not_None_eq)
  then show ?thesis using vec w(2) exact blocked refused by blast
qed

theorem client_main_runs_witness:
  "let run = (\<lambda>es. client_main 3 (\<lambda>h. True) (\<lambda>l. [l]) (Some ''10.0.0.7'')
      \<lparr>in_chars = ''help'' @ CHR 0x0A # ''quit'' @ [CHR 0x0A], in_good = True\<rparr> zero_msg 0 0 es
      (Some \<lparr>co_help = False, co_version = False, co_remote = Some ''10.0.0.7'', co_threads = Some 2\<rparr>))
   in run [] = None \<and> (\<exists>v. run [CliConnect 0 EcEof, CliConnect 1 EcEof] = Some (Inr (0, Some v)))"
proof -
  have h: "harmless (\<lambda>l. [l]) command_table ''help''" by (simp add: harmless_def)
  have l: "[0..<2] = [0, 1 :: nat]" by (simp add: upt_rec eval_nat_numeral)
  let ?run = "\<lambda>es. client_main 3 (\<lambda>h. True) (\<lambda>l. [l]) (Some ''10.0.0.7'')
      \<lparr>in_chars = ''help'' @ CHR 0x0A # ''quit'' @ [CHR 0x0A], in_good = True\<rparr> zero_msg 0 0 es
      (Some \<lparr>co_help = False, co_version = False, co_remote = Some ''10.0.0.7'', co_threads = Some 2\<rparr>)"
  have "?run [] = None \<and> (\<forall>ec. (\<forall>a. ec a \<noteq> EcOk) \<longrightarrow>
       (\<exists>v. ?run (map (\<lambda>a. CliConnect a (ec a)) [0..<2]) = Some (Inr (0, Some v))))"
    using client_main_runs
      [of "\<lparr>co_help = False, co_version = False, co_remote = Some ''10.0.0.7'', co_threads = Some 2\<rparr>" 2
         "''10.0.0.7''" "\<lambda>h. True" "[''help'']" "\<lambda>l. [l]" 3 ?run "[]" zero_msg 0 0] h
    by auto
  then show ?thesis unfolding Let_def l by (auto dest!: spec[of _ "\<lambda>_. EcEof"])
qed

end
