(* ===== verification/Chat_Order.thy ===== *)
theory Chat_Order
  imports Chat_Server Chat_Client
begin

text \<open>
  Conversations on the chat server: a run in which registered, idle sessions send whole text messages
  and the operating system completes writes, in any interleaving. The specification is a log: every
  session hears, in the order of the log, what the others said.
\<close>

subsection \<open>A received message\<close>

lemma strlen_text_body:
  assumes "0 \<notin> set s" and "length s < n"
  shows "strlen (text_body s n @ rest) = Inr (length s)"
proof -
  have "replicate (n - length s) (0 :: byte) = 0 # replicate (n - Suc (length s)) 0"
    using assms(2) by (simp add: Suc_diff_Suc replicate_Suc[symmetric] del: replicate_Suc)
  then show ?thesis using strlen_terminated[OF assms(1)] by (simp add: text_body_def)
qed

lemma strlen_append: "strlen xs = Inr n \<Longrightarrow> strlen (xs @ ys) = Inr n"
  by (auto simp: strlen_def takeWhile_append1 split: if_splits)

lemma received_wire:
  assumes "valid_msg m" and "wf_msg (s_msg s)"
  shows "msg_wire (s_msg (received m s)) = msg_wire m" "valid_msg (s_msg (received m s))"
proof -
  let ?n = "nat (msg_bodyLength m)"
  have n: "?n \<le> 1024" "length (msg_body m) = 1024" using assms(1) by (auto simp: valid_msg_def wf_msg_def)
  have l: "msg_bodyLength (s_msg (received m s)) = msg_bodyLength m"
    by (simp add: received_def msg_bodyLength_def)
  have "take ?n (overlay 0 (take ?n (msg_body m)) (msg_body (s_msg s))) = take ?n (msg_body m)"
    using n by (simp add: overlay_0)
  with l show "msg_wire (s_msg (received m s)) = msg_wire m"
    by (simp add: msg_wire_def) (simp add: received_def)
  show "valid_msg (s_msg (received m s))"
    using l n assms by (simp add: valid_msg_def wf_msg_def) (simp add: received_def)
qed

text \<open>
  A session that waits for a body and gets it whole: the session just before its handler runs, and the
  outcome for a text message.
\<close>

definition took_body :: "bytes \<Rightarrow> TcpSession \<Rightarrow> TcpSession" where
  "took_body body s = s\<lparr>s_msg := (s_msg s)\<lparr>msg_body := overlay 0 body (msg_body (s_msg s))\<rparr>,
     s_reading := [], s_rx := s_rx s + word_of_int (msg_length (s_msg s))\<rparr>"

lemma took_body_simps [simp]:
  "s_id (took_body body s) = s_id s" "s_reading (took_body body s) = []"
  "s_sendQue (took_body body s) = s_sendQue s" "s_writing (took_body body s) = s_writing s"
  "s_socket (took_body body s) = s_socket s" "msg_hdr (s_msg (took_body body s)) = msg_hdr (s_msg s)"
  "msg_body (s_msg (took_body body s)) = overlay 0 body (msg_body (s_msg s))"
  "same_identity s (took_body body s)"
  by (simp_all add: took_body_def same_identity_def)

lemma took_body_valid:
  assumes "valid_msg (s_msg s)" and "length body = nat (msg_bodyLength (s_msg s))"
  shows "valid_msg (s_msg (took_body body s))"
    "msg_wire (s_msg (took_body body s)) = header_bytes (msg_hdr (s_msg s)) @ body"
  using assms by (auto simp: valid_msg_def wf_msg_def msg_bodyLength_def msg_wire_def overlay_0)

lemma complete_body_runs:
  assumes "heap w a = Some s" and "s_reading s = [RdBody k]" and "s_messageHandler s = Some message_name"
    and "length body \<le> 1024"
  shows "complete_read (server_env (chat_env hi)) a EcOk body w =
    bind_res (messageHandler hi a (put_session a (took_body body s) w)) (session_read a hdrLength)"
  using complete_body[OF assms(1,2,4)] assms(3)
  by (cases "s_msg s")
    (simp add: handleReadBody_def fire_message_def server_env_def chat_env_def took_body_def msg_length_def)

lemma text_body_runs:
  assumes inv: "srv_inv w" and s: "heap w a = Some s" "s_reading s = [RdBody k]"
      "s_messageHandler s = Some message_name"
    and m: "valid_msg (s_msg s)" "hdr_msgId (msg_hdr (s_msg s)) = 3"
    and b: "length body = nat (msg_bodyLength (s_msg s))" "strlen body = Inr n"
    and oth: "\<forall>i b. getSession i w = Some b \<longrightarrow> b \<noteq> a \<longrightarrow> (\<exists>t. heap w b = Some t \<and> tx_inv t)"
  shows "\<exists>w2. complete_read (server_env (chat_env hi)) a EcOk body w =
      Inr (put_session a ((took_body body s)\<lparr>s_reading := [RdHeader 8]\<rparr>) w2) \<and>
    callback_frame (put_session a (took_body body s) w) w2 \<and> srv_inv w2 \<and>
    each_sent (snd ` set (srv_sessions w) - {a}) (s_msg (took_body body s)) (put_session a (took_body body s) w) w2 \<and>
    chat_redis w2 = snd (Redis_send hi (zincrby_cmd (int n) (s_id s)) (chat_redis w))"
proof -
  let ?s1 = "took_body body s"
  let ?w1 = "put_session a ?s1 w"
  note v = took_body_valid[OF m(1) b(1)]
  have "sess_ok s" using inv s(1) by (simp add: srv_inv_def heap_inv_def)
  then have "sess_ok ?s1" using v(1) by (auto simp: sess_ok_def write_ok_def valid_msg_def)
  then have inv1: "srv_inv ?w1" using srv_inv_put[OF inv s(1)] by simp
  have h1: "heap ?w1 a = Some ?s1" by simp
  have len: "strlen (msg_body (s_msg ?s1)) = Inr n" using b(2) strlen_append by (simp add: overlay_0)
  have o1: "\<forall>i b. getSession i ?w1 = Some b \<longrightarrow> b \<noteq> a \<longrightarrow> (\<exists>t. heap ?w1 b = Some t \<and> tx_inv t)"
    using oth by (simp add: getSession_def)
  have reg: "registry_inv ?w1" using inv1 by (simp add: srv_inv_def)
  from nfMessage_sends[OF reg h1 v(1) len o1, of hi] obtain w2 where
    nf: "nfMessage hi a ?w1 = Inr w2"
    and g: "each_sent (snd ` set (srv_sessions ?w1) - {a}) (s_msg ?s1) ?w1 w2"
    and rd: "chat_redis w2 = snd (Redis_send hi (zincrby_cmd (int n) (s_id ?s1)) (chat_redis ?w1))"
    by blast
  have fr: "callback_frame ?w1 w2" using nfMessage_frame[OF srv_inv_all_ok[OF inv1] nf] .
  have "messageHandler hi a ?w1 = Inr w2" using messageHandler_eq[OF h1, of hi] m(2) nf by simp
  moreover have "heap w2 a = Some ?s1" using g[unfolded each_sent_def, rule_format, of a] by simp
  then have "session_read a hdrLength w2 = Inr (put_session a (?s1\<lparr>s_reading := [RdHeader 8]\<rparr>) w2)"
    by (simp add: session_read_def)
  moreover have "length body \<le> 1024" using b(1) m(1) by (auto simp: valid_msg_def)
  ultimately have "complete_read (server_env (chat_env hi)) a EcOk body w =
      Inr (put_session a (?s1\<lparr>s_reading := [RdHeader 8]\<rparr>) w2)"
    using complete_body_runs[OF s, of body hi] by simp
  moreover have "chat_redis ?w1 = chat_redis w" by (simp add: put_session_def)
  ultimately show ?thesis using fr srv_inv_frame[OF inv1 fr] g rd by (intro exI[of _ w2]) simp
qed

subsection \<open>Events\<close>

text \<open>A text message of \<open>n\<close> characters: its body is a C string that ends within the length it announces.\<close>

definition chat_text :: "Msg \<Rightarrow> nat \<Rightarrow> bool" where
  "chat_text m n \<longleftrightarrow> valid_msg m \<and> checkHeader m \<and> hdr_msgId (msg_hdr m) = 3 \<and>
     strlen (take (nat (msg_bodyLength m)) (msg_body m)) = Inr n"

datatype talk_event = Says addr Msg | Written addr nat

definition talk_step :: "hiredis \<Rightarrow> talk_event \<Rightarrow> chat_world \<Rightarrow> chat_world res" where
  "talk_step hi e w = (case e of
       Says a m \<Rightarrow>
         bind_res (complete_read (server_env (chat_env hi)) a EcOk (header_bytes (msg_hdr m)) w)
           (complete_read (server_env (chat_env hi)) a EcOk (take (nat (msg_bodyLength m)) (msg_body m)))
     | Written b k \<Rightarrow> complete_write (server_env (chat_env hi)) b EcOk k w)"

text \<open>The specification: what a session hears, and what Redis is told.\<close>

fun heard :: "addr \<Rightarrow> talk_event list \<Rightarrow> bytes" where
  "heard b [] = []"
| "heard b (Says a m # es) = (if a = b then [] else msg_wire m) @ heard b es"
| "heard b (Written c k # es) = heard b es"

fun scores :: "(addr \<Rightarrow> int) \<Rightarrow> talk_event list \<Rightarrow> string list" where
  "scores ident [] = []"
| "scores ident (Says a m # es) =
     (case strlen (msg_body m) of Inl e \<Rightarrow> [] | Inr n \<Rightarrow> [zincrby_cmd (int n) (ident a)]) @ scores ident es"
| "scores ident (Written c k # es) = scores ident es"

definition registered :: "chat_world \<Rightarrow> addr \<Rightarrow> bool" where
  "registered w a \<longleftrightarrow> (\<exists>i. getSession i w = Some a)"

fun talk_ok :: "chat_world \<Rightarrow> talk_event \<Rightarrow> bool" where
  "talk_ok w (Says a m) \<longleftrightarrow> registered w a \<and> (\<exists>n. chat_text m n)"
| "talk_ok w (Written b k) \<longleftrightarrow> registered w b"

text \<open>Every registered session waits for a header, has its handler, and its send queue is intact.\<close>

definition conversing :: "chat_world \<Rightarrow> bool" where
  "conversing w \<longleftrightarrow> srv_inv w \<and> (\<forall>b. registered w b \<longrightarrow> (\<exists>t n. heap w b = Some t \<and> tx_inv t \<and>
     s_reading t = [RdHeader n] \<and> s_messageHandler t = Some message_name))"

definition ident_of :: "chat_world \<Rightarrow> addr \<Rightarrow> int" where
  "ident_of w a = (case heap w a of None \<Rightarrow> 0 | Some s \<Rightarrow> s_id s)"

subsection \<open>One event\<close>

lemma registered_sessions: "srv_inv w \<Longrightarrow> b \<in> snd ` set (srv_sessions w) \<longleftrightarrow> registered w b"
  using map_find_iff[of "srv_sessions w"] by (force simp: registered_def getSession_def srv_inv_def registry_inv_def)

text \<open>What an event leaves behind: the same registry, identities and readiness, and longer streams.\<close>

definition talk_effect :: "(addr \<Rightarrow> bytes) \<Rightarrow> string list \<Rightarrow> chat_world \<Rightarrow> chat_world \<Rightarrow> bool" where
  "talk_effect gain cmds w w' \<longleftrightarrow> conversing w' \<and> srv_sessions w' = srv_sessions w \<and>
     (\<forall>b t. registered w b \<longrightarrow> heap w b = Some t \<longrightarrow>
        (\<exists>t'. heap w' b = Some t' \<and> s_id t' = s_id t \<and> stream_of t' = stream_of t @ gain b)) \<and>
     redis_log (chat_redis w') = redis_log (chat_redis w) @ (if rd_context (chat_redis w) = None then [] else cmds) \<and>
     (rd_context (chat_redis w') = None \<longleftrightarrow> rd_context (chat_redis w) = None)"

lemma registered_same: "srv_sessions w' = srv_sessions w \<Longrightarrow> registered w' = registered w"
  by (simp add: fun_eq_iff registered_def getSession_def)

text \<open>A whole text message arriving at a session, whatever the body buffer held before.\<close>

lemma received_took_body:
  "received m s = took_body (take (nat (msg_bodyLength m)) (msg_body m))
     (s\<lparr>s_msg := (s_msg s)\<lparr>msg_hdr := msg_hdr m\<rparr>, s_reading := [RdBody k]\<rparr>)"
  by (cases "s_msg s") (simp add: received_def took_body_def msg_length_def)

lemma text_runs:
  assumes inv: "srv_inv w" and s: "heap w a = Some s" "s_reading s = [RdHeader k]"
      "s_messageHandler s = Some message_name"
    and m: "chat_text m n"
    and oth: "\<forall>i b. getSession i w = Some b \<longrightarrow> b \<noteq> a \<longrightarrow> (\<exists>t. heap w b = Some t \<and> tx_inv t)"
  shows "\<exists>w2. talk_step hi (Says a m) w = Inr (put_session a ((received m s)\<lparr>s_reading := [RdHeader 8]\<rparr>) w2) \<and>
    callback_frame (put_session a (received m s) w) w2 \<and> srv_inv w2 \<and>
    streams_grow (snd ` set (srv_sessions w) - {a}) (msg_wire m) (put_session a (received m s) w) w2 \<and>
    chat_redis w2 = snd (Redis_send hi (zincrby_cmd (int n) (s_id s)) (chat_redis w))"
proof -
  let ?b = "take (nat (msg_bodyLength m)) (msg_body m)"
  let ?k = "unat (word_of_int (msg_bodyLength m) :: 64 word)"
  let ?s1 = "s\<lparr>s_msg := (s_msg s)\<lparr>msg_hdr := msg_hdr m\<rparr>, s_reading := [RdBody ?k]\<rparr>"
  let ?w1 = "put_session a ?s1 w"
  have v: "valid_msg m" "checkHeader m" "hdr_msgId (msg_hdr m) = 3" "strlen ?b = Inr n"
    using m by (simp_all add: chat_text_def)
  have ok: "sess_ok s" using inv s(1) by (simp add: srv_inv_def heap_inv_def)
  then have wf: "wf_msg (s_msg s)" by (simp add: sess_ok_def)
  have "sess_ok ?s1" using ok by (simp add: sess_ok_def write_ok_def wf_msg_def)
  then have inv1: "srv_inv ?w1" using srv_inv_put[OF inv s(1)] by (simp add: same_identity_def)
  have v1: "valid_msg (s_msg ?s1)" "msg_bodyLength (s_msg ?s1) = msg_bodyLength m"
    using v(1) wf by (simp_all add: valid_msg_def wf_msg_def msg_bodyLength_def)
  have len: "length ?b = nat (msg_bodyLength (s_msg ?s1))" using v(1) v1(2) by (auto simp: valid_msg_def wf_msg_def)
  have o1: "\<forall>i b. getSession i ?w1 = Some b \<longrightarrow> b \<noteq> a \<longrightarrow> (\<exists>t. heap ?w1 b = Some t \<and> tx_inv t)"
    using oth by (simp add: getSession_def)
  have tk: "took_body ?b ?s1 = received m s" by (rule received_took_body[symmetric])
  obtain w2 where w2: "complete_read (server_env (chat_env hi)) a EcOk ?b ?w1 =
      Inr (put_session a ((received m s)\<lparr>s_reading := [RdHeader 8]\<rparr>) w2)"
    "callback_frame (put_session a (received m s) w) w2" "srv_inv w2"
    "each_sent (snd ` set (srv_sessions w) - {a}) (s_msg (received m s)) (put_session a (received m s) w) w2"
    "chat_redis w2 = snd (Redis_send hi (zincrby_cmd (int n) (s_id s)) (chat_redis w))"
    using text_body_runs[OF inv1 _ _ _ v1(1) _ len v(4) o1, where hi = hi and k = ?k] s(3) v(3)
    unfolding tk by (auto simp: put_session_def)
  note rw = received_wire[OF v(1) wf]
  have "\<forall>b \<in> snd ` set (srv_sessions w) - {a}. \<exists>t. heap (put_session a (received m s) w) b = Some t \<and> tx_inv t"
    using registered_intact[OF _ oth] inv unfolding srv_inv_def by (metis DiffE heap_put_session singletonI)
  from each_sent_grows[OF w2(4) rw(2) this] have "streams_grow (snd ` set (srv_sessions w) - {a}) (msg_wire m)
      (put_session a (received m s) w) w2" by (simp add: rw(1))
  moreover have "talk_step hi (Says a m) w = Inr (put_session a ((received m s)\<lparr>s_reading := [RdHeader 8]\<rparr>) w2)"
    using complete_header[OF s(1,2) v(2), of "server_env (chat_env hi)"] w2(1) by (simp add: talk_step_def)
  ultimately show ?thesis using w2 by blast
qed

lemma says_runs:
  assumes "conversing w" and "registered w a" and "chat_text m n"
  shows "\<exists>s w2. heap w a = Some s \<and> srv_inv w \<and> callback_frame (put_session a (received m s) w) w2 \<and>
    srv_inv w2 \<and> streams_grow (snd ` set (srv_sessions w) - {a}) (msg_wire m) (put_session a (received m s) w) w2 \<and>
    chat_redis w2 = snd (Redis_send hi (zincrby_cmd (int n) (s_id s)) (chat_redis w)) \<and>
    talk_step hi (Says a m) w = Inr (put_session a ((received m s)\<lparr>s_reading := [RdHeader 8]\<rparr>) w2)"
proof -
  obtain s k where s: "heap w a = Some s" "s_reading s = [RdHeader k]" "s_messageHandler s = Some message_name"
    and inv: "srv_inv w" using assms(1,2) unfolding conversing_def by blast
  have "\<forall>i b. getSession i w = Some b \<longrightarrow> b \<noteq> a \<longrightarrow> (\<exists>t. heap w b = Some t \<and> tx_inv t)"
    using assms(1) unfolding conversing_def registered_def by auto
  from text_runs[OF inv s assms(3) this, of hi] s(1) inv show ?thesis by blast
qed

lemma listener_grows:
  assumes conv: "conversing w" and fr: "callback_frame (put_session a s1 w) w2"
    and g: "streams_grow (snd ` set (srv_sessions w) - {a}) bs (put_session a s1 w) w2"
    and b: "registered w b" "b \<noteq> a" "heap w b = Some t"
  shows "\<exists>t' j. heap w2 b = Some t' \<and> tx_inv t' \<and> s_reading t' = [RdHeader j] \<and> s_messageHandler t' = Some message_name \<and>
      s_id t' = s_id t \<and> stream_of t' = stream_of t @ bs"
proof -
  obtain j where t: "tx_inv t" "s_reading t = [RdHeader j]" "s_messageHandler t = Some message_name" and inv: "srv_inv w"
    using conv b(1,3) unfolding conversing_def by fastforce
  have "b \<in> snd ` set (srv_sessions w) - {a}" using registered_sessions[OF inv] b(1,2) by simp
  with g[unfolded streams_grow_def, rule_format, of b] b(2,3)
  obtain t' where t': "heap w2 b = Some t'" "stream_of t' = stream_of t @ bs" "tx_inv t'" by auto
  have "heap (put_session a s1 w) b = Some t" using b by simp
  with fr obtain t'' where "heap w2 b = Some t''" "s_reading t'' = s_reading t" "same_identity t t''"
    unfolding callback_frame_def same_reads_def by blast
  then show ?thesis using t t' by (simp add: same_identity_def)
qed

lemma says_effect:
  assumes "conversing w" and "registered w a" and "chat_text m n"
  shows "\<exists>w'. talk_step hi (Says a m) w = Inr w' \<and>
    talk_effect (\<lambda>b. if a = b then [] else msg_wire m) [zincrby_cmd (int n) (ident_of w a)] w w'"
proof -
  obtain s w2 where s: "heap w a = Some s" and inv: "srv_inv w"
    and fr: "callback_frame (put_session a (received m s) w) w2" and inv2: "srv_inv w2"
    and g: "streams_grow (snd ` set (srv_sessions w) - {a}) (msg_wire m) (put_session a (received m s) w) w2"
    and rd: "chat_redis w2 = snd (Redis_send hi (zincrby_cmd (int n) (s_id s)) (chat_redis w))"
    and run: "talk_step hi (Says a m) w = Inr (put_session a ((received m s)\<lparr>s_reading := [RdHeader 8]\<rparr>) w2)"
    using says_runs[OF assms, of hi] by blast
  let ?w1 = "put_session a (received m s) w"
  let ?s3 = "(received m s)\<lparr>s_reading := [RdHeader 8]\<rparr>"
  let ?w3 = "put_session a ?s3 w2"
  obtain k where sa: "tx_inv s" "s_reading s = [RdHeader k]" "s_messageHandler s = Some message_name"
    using assms(1,2) s unfolding conversing_def by fastforce
  have a2: "heap w2 a = Some (received m s)" using g[unfolded streams_grow_def, rule_format, of a] by simp
  have same: "srv_sessions ?w3 = srv_sessions w" using fr by (simp add: callback_frame_def srv_same_def put_session_def)
  have a3: "tx_inv ?s3" "s_messageHandler ?s3 = Some message_name" "stream_of ?s3 = stream_of s" "s_id ?s3 = s_id s"
    using sa by (simp_all add: received_def tx_inv_def stream_of_def)
  have ok: "sess_ok (received m s)" using inv2 a2 by (simp add: srv_inv_def heap_inv_def)
  have inv3: "srv_inv ?w3"
    by (rule srv_inv_put[OF inv2 a2]) (use ok in \<open>simp_all add: sess_ok_def write_ok_def same_identity_def\<close>)
  note others = listener_grows[OF assms(1) fr g]
  have "\<exists>t' j. heap ?w3 b = Some t' \<and> tx_inv t' \<and> s_reading t' = [RdHeader j] \<and> s_messageHandler t' = Some message_name"
    if b: "registered w b" for b
  proof (cases "b = a")
    case True
    then show ?thesis using a3 by simp
  next
    case False
    obtain t where "heap w b = Some t" using assms(1) b unfolding conversing_def by blast
    then show ?thesis using others[OF b False] False by auto
  qed
  then have conv: "conversing ?w3" using inv3 registered_same[OF same] by (simp add: conversing_def)
  have "\<exists>t'. heap ?w3 b = Some t' \<and> s_id t' = s_id t \<and> stream_of t' = stream_of t @ (if a = b then [] else msg_wire m)"
    if "registered w b" "heap w b = Some t" for b t
    using that others[of b t] s a3 by (cases "b = a") auto
  moreover have "redis_log (chat_redis ?w3) = redis_log (chat_redis w) @
      (if rd_context (chat_redis w) = None then [] else [zincrby_cmd (int n) (ident_of w a)])"
    using rd s by (simp add: Redis_send_log ident_of_def put_session_def)
  moreover have "rd_context (chat_redis ?w3) = None \<longleftrightarrow> rd_context (chat_redis w) = None"
    using rd by (simp add: Redis_send_context put_session_def)
  ultimately show ?thesis
    using run conv same unfolding talk_effect_def by (intro exI[of _ ?w3] conjI allI impI) simp_all
qed

lemma written_effect:
  assumes "conversing w" and "registered w b"
  shows "\<exists>w'. talk_step hi (Written b k) w = Inr w' \<and> talk_effect (\<lambda>c. []) [] w w'"
proof -
  obtain t j where t: "heap w b = Some t" "tx_inv t" "s_reading t = [RdHeader j]" "s_messageHandler t = Some message_name"
    and inv: "srv_inv w" using assms unfolding conversing_def by blast
  show ?thesis
  proof (cases "s_writing t = []")
    case True
    then have "talk_step hi (Written b k) w = Inr w" using t(1) by (simp add: talk_step_def complete_write_def)
    then show ?thesis using assms(1) by (intro exI[of _ w]) (simp add: talk_effect_def)
  next
    case False
    obtain t' where t': "tx_step TxDone t = Inr t'" "tx_inv t'" "stream_of t' = stream_of t"
      using tx_done_step[OF t(2)] by blast
    have same: "s_reading t' = s_reading t" "same_identity t t'"
      using t'(1) False by (auto simp: same_identity_def handleWrite_next_def begin_write_def bind_res_eq_Inr
          Let_def neq_Nil_conv split: if_splits list.splits)
    let ?w' = "put_session b t' w"
    have run: "talk_step hi (Written b k) w = Inr ?w'"
      using complete_write_tx_step[OF t(1) False] t(1) t'(1)
      by (simp add: talk_step_def upd_session_def del: tx_step.simps)
    have "srv_inv ?w'"
      using chat_app.complete_write_inv[of w hi b EcOk k] inv run by (simp add: talk_step_def)
    then have "conversing ?w'"
      using assms(1) t t' same registered_same[of ?w' w]
      by (auto simp: conversing_def same_identity_def)
    then show ?thesis
      using run t t' same by (intro exI[of _ ?w']) (auto simp: talk_effect_def same_identity_def put_session_def)
  qed
qed

subsection \<open>Runs\<close>

lemma talk_effect_trans:
  assumes "talk_effect f cs u v" and "talk_effect g ds v w"
  shows "talk_effect (\<lambda>b. f b @ g b) (cs @ ds) u w"
proof -
  have reg: "registered v = registered u" by (rule registered_same) (use assms(1) in \<open>simp add: talk_effect_def\<close>)
  have "\<exists>t''. heap w b = Some t'' \<and> s_id t'' = s_id t \<and> stream_of t'' = stream_of t @ f b @ g b"
    if b: "registered u b" "heap u b = Some t" for b t
  proof -
    obtain t' where t': "heap v b = Some t'" "s_id t' = s_id t" "stream_of t' = stream_of t @ f b"
      using assms(1) b unfolding talk_effect_def by blast
    then obtain t'' where "heap w b = Some t''" "s_id t'' = s_id t'" "stream_of t'' = stream_of t' @ g b"
      using assms(2) b(1) reg unfolding talk_effect_def by metis
    then show ?thesis using t' by simp
  qed
  then show ?thesis using assms by (simp add: talk_effect_def)
qed

lemma chat_text_strlen: "chat_text m n \<Longrightarrow> strlen (msg_body m) = Inr n"
  using strlen_append[of "take (nat (msg_bodyLength m)) (msg_body m)" n "drop (nat (msg_bodyLength m)) (msg_body m)"]
  by (simp add: chat_text_def)

lemma talk_step_effect:
  assumes "conversing w" and "talk_ok w e"
  shows "\<exists>w'. talk_step hi e w = Inr w' \<and> talk_effect (\<lambda>b. heard b [e]) (scores (ident_of w) [e]) w w'"
proof (cases e)
  case (Says a m)
  then obtain n where n: "registered w a" "chat_text m n" using assms(2) by auto
  have "(\<lambda>b. heard b [e]) = (\<lambda>b. if a = b then [] else msg_wire m)"
    "scores (ident_of w) [e] = [zincrby_cmd (int n) (ident_of w a)]"
    using Says chat_text_strlen[OF n(2)] by auto
  then show ?thesis using says_effect[OF assms(1) n, of hi] Says by simp
next
  case (Written b k)
  then show ?thesis using written_effect[OF assms(1), of b hi k] assms(2) by simp
qed

lemma scores_ident:
  assumes "\<forall>a m. Says a m \<in> set es \<longrightarrow> f a = g a"
  shows "scores f es = scores g es"
  using assms
proof (induction es)
  case (Cons e es)
  have "scores f es = scores g es" using Cons.prems by (intro Cons.IH) simp
  moreover have "f a = g a" if "e = Says a m" for a m using Cons.prems that by simp
  ultimately show ?case by (cases e) (simp_all split: sum.splits)
qed simp

lemma heard_Cons: "heard b (e # es) = heard b [e] @ heard b es"
  by (cases e) simp_all

lemma scores_Cons: "scores f (e # es) = scores f [e] @ scores f es"
  by (cases e) simp_all

lemma talk_run:
  assumes "conversing w" and "\<forall>e \<in> set es. talk_ok w e"
  shows "\<exists>w'. fold_res (talk_step hi) es w = Inr w' \<and> talk_effect (\<lambda>b. heard b es) (scores (ident_of w) es) w w'"
  using assms
proof (induction es arbitrary: w)
  case Nil
  then show ?case by (simp add: talk_effect_def)
next
  case (Cons e es)
  obtain v where v: "talk_step hi e w = Inr v" and ef: "talk_effect (\<lambda>b. heard b [e]) (scores (ident_of w) [e]) w v"
    using talk_step_effect[OF Cons.prems(1)] Cons.prems(2) by (metis list.set_intros(1))
  have reg: "registered v = registered w" by (rule registered_same) (use ef in \<open>simp add: talk_effect_def\<close>)
  have "talk_ok v x = talk_ok w x" for x by (cases x) (simp_all add: reg)
  then obtain w' where w': "fold_res (talk_step hi) es v = Inr w'"
      "talk_effect (\<lambda>b. heard b es) (scores (ident_of v) es) v w'"
    using Cons.IH[of v] Cons.prems(2) ef by (auto simp: talk_effect_def)
  have id: "ident_of v a = ident_of w a" if a: "registered w a" for a
  proof -
    obtain t where t: "heap w a = Some t" using Cons.prems(1) a unfolding conversing_def by blast
    then obtain t' where "heap v a = Some t'" "s_id t' = s_id t" using ef a unfolding talk_effect_def by blast
    then show ?thesis using t by (simp add: ident_of_def)
  qed
  have "scores (ident_of v) es = scores (ident_of w) es"
    using Cons.prems(2) id by (intro scores_ident) fastforce
  then have "talk_effect (\<lambda>b. heard b (e # es)) (scores (ident_of w) (e # es)) w w'"
    using talk_effect_trans[OF ef w'(2)] by (subst heard_Cons, subst scores_Cons) simp
  then show ?case using v w'(1) by auto
qed

subsection \<open>Properties\<close>

text \<open>
  C5. The chat server is a totally ordered broadcast. When every registered session waits for a header
  with its send queue intact, then for every interleaving of whole text messages from registered
  sessions with completions of writes, the run succeeds; each registered session's stream, sent bytes
  and queue together, grows by exactly the messages of the others in the order in which they arrived,
  one order for all; Redis is told each sender's score in that order; and the server is again in such
  a state, so the conversation can go on.
\<close>

theorem chat_total_order:
  assumes "conversing w" and "\<forall>e \<in> set es. talk_ok w e"
  shows "\<exists>w'. fold_res (talk_step hi) es w = Inr w' \<and> conversing w' \<and> srv_sessions w' = srv_sessions w \<and>
    (\<forall>b t. registered w b \<longrightarrow> heap w b = Some t \<longrightarrow>
       (\<exists>t'. heap w' b = Some t' \<and> stream_of t' = stream_of t @ heard b es)) \<and>
    redis_log (chat_redis w') = redis_log (chat_redis w) @
      (if rd_context (chat_redis w) = None then [] else scores (ident_of w) es)"
proof -
  obtain w' where w': "fold_res (talk_step hi) es w = Inr w'"
    "talk_effect (\<lambda>b. heard b es) (scores (ident_of w) es) w w'"
    using talk_run[OF assms, of hi] by blast
  show ?thesis
    using w' unfolding talk_effect_def by (intro exI[of _ w']) blast
qed

text \<open>Two clients greet each other; the first message is written before the second arrives.\<close>

definition two_talking :: chat_world where
  "two_talking = (demo_pair zero_msg)\<lparr>heap :=
     [0 \<mapsto> (demo_session 1 zero_msg)\<lparr>s_reading := [RdHeader 8]\<rparr>,
      1 \<mapsto> (demo_session 2 zero_msg)\<lparr>s_reading := [RdHeader 8]\<rparr>]\<rparr>"

definition hey_msg :: Msg where
  "hey_msg = hi_msg\<lparr>msg_hdr := (msg_hdr hi_msg)\<lparr>hdr_bodyLength := 3\<rparr>\<rparr>"

definition greetings :: "talk_event list" where
  "greetings = [Says 0 hey_msg, Written 1 11, Says 1 hey_msg, Says 0 hey_msg]"

lemma two_talking_conversing: "conversing two_talking"
proof -
  have wf: "wf_msg zero_msg" by (simp add: wf_msg_def zero_msg_def)
  let ?s = "\<lambda>i. (demo_session i zero_msg)\<lparr>s_reading := [RdHeader 8]\<rparr>"
  have same: "two_talking = put_session 0 (?s 1) (put_session 1 (?s 2) (demo_pair zero_msg))"
    by (simp add: two_talking_def put_session_def demo_pair_def fun_upd_twist)
  have "srv_inv (put_session 1 (?s 2) (demo_pair zero_msg))"
    by (rule srv_inv_put[OF demo_pair_inv[OF wf], where s = "demo_session 2 zero_msg"])
      (simp_all add: demo_pair_def sess_ok_def write_ok_def wf same_identity_def)
  then have "srv_inv two_talking"
    unfolding same
    by (rule srv_inv_put[where s = "demo_session 1 zero_msg"])
      (simp_all add: demo_pair_def sess_ok_def write_ok_def wf same_identity_def)
  then show ?thesis
    by (auto simp: conversing_def registered_def getSession_def two_talking_def demo_pair_def tx_inv_def demo_session_def
        split: if_splits)
qed

lemma greetings_ok: "\<forall>e \<in> set greetings. talk_ok two_talking e"
proof -
  have r: "registered two_talking 0" "registered two_talking 1"
    by (auto simp: registered_def getSession_def two_talking_def demo_pair_def intro: exI[of _ 1] exI[of _ 2])
  have "chat_text hey_msg 2"
    by (simp add: chat_text_def strlen_def hey_msg_def hi_msg_def checkHeader_iff msg_bodyLength_def valid_msg_def wf_msg_def)
  then show ?thesis using r by (auto simp: greetings_def)
qed

theorem chat_total_order_witness:
  "\<exists>w' t0 t1. fold_res (talk_step demo_hi) greetings two_talking = Inr w' \<and> heap w' 0 = Some t0 \<and> heap w' 1 = Some t1 \<and>
     stream_of t0 = msg_wire hey_msg \<and> stream_of t1 = msg_wire hey_msg @ msg_wire hey_msg \<and>
     redis_log (chat_redis w') = [zincrby_cmd 2 1, zincrby_cmd 2 2, zincrby_cmd 2 1]"
proof -
  have h: "heap two_talking 0 = Some ((demo_session 1 zero_msg)\<lparr>s_reading := [RdHeader 8]\<rparr>)"
    "heap two_talking 1 = Some ((demo_session 2 zero_msg)\<lparr>s_reading := [RdHeader 8]\<rparr>)"
    "redis_log (chat_redis two_talking) = []" "rd_context (chat_redis two_talking) \<noteq> None"
    by (simp_all add: two_talking_def demo_pair_def demo_chat_def redis_log_def)
  have r: "registered two_talking 0" "registered two_talking 1" using greetings_ok by (auto simp: greetings_def)
  have g: "heard 0 greetings = msg_wire hey_msg" "heard 1 greetings = msg_wire hey_msg @ msg_wire hey_msg"
    "scores (ident_of two_talking) greetings = [zincrby_cmd 2 1, zincrby_cmd 2 2, zincrby_cmd 2 1]"
    using h(1,2) by (simp_all add: greetings_def ident_of_def strlen_def hey_msg_def hi_msg_def)
  obtain w' where w': "fold_res (talk_step demo_hi) greetings two_talking = Inr w'"
    and st: "\<forall>b t. registered two_talking b \<longrightarrow> heap two_talking b = Some t \<longrightarrow>
       (\<exists>t'. heap w' b = Some t' \<and> stream_of t' = stream_of t @ heard b greetings)"
    and lg: "redis_log (chat_redis w') = [zincrby_cmd 2 1, zincrby_cmd 2 2, zincrby_cmd 2 1]"
    using chat_total_order[OF two_talking_conversing greetings_ok, of demo_hi] h(3,4) g(3) by auto
  have "stream_of ((demo_session i zero_msg)\<lparr>s_reading := [RdHeader 8]\<rparr>) = []" for i by (simp add: stream_of_def)
  then show ?thesis
    using st[rule_format, OF r(1) h(1)] st[rule_format, OF r(2) h(2)] w' lg g(1,2) by auto
qed

end
