(* ===== verification/Chat_Group.thy ===== *)
theory Chat_Group
  imports Chat_Order
begin

text \<open>
  The chat server as a group with members that join, speak, fall silent and leave. The specification
  \<open>group\<close> forgets buffers, counters, pools and sockets: of a session it keeps its identifier, what it
  is being read for, and its outbox, the bytes written and the messages waiting; of the server the
  registry, the free identifiers, whether it accepts and whether it runs; of Redis the commands.
  One completion of an asynchronous operation is one step of the specification, whatever the
  interleaving. \<open>group_step\<close> is \<open>None\<close> for what the specification does not describe: short reads,
  negative lengths, texts without terminator, peers that are gone before they are accepted, and
  failures of sessions that already left.
\<close>

subsection \<open>The specification\<close>

datatype hearing = AtHeader | AtBody cpMsgHeader_t

record peer =
  pr_ident :: int
  pr_hearing :: "hearing option"
  pr_outbox :: "(bytes \<times> bytes list) option"

record group =
  gr_peers :: "addr \<Rightarrow> peer option"
  gr_registry :: "int \<Rightarrow> addr option"
  gr_free :: "int list"
  gr_next :: addr
  gr_door :: bool
  gr_running :: bool
  gr_redis :: bool
  gr_log :: "string list"

definition gr_put :: "addr \<Rightarrow> peer \<Rightarrow> group \<Rightarrow> group" where
  "gr_put a p g = g\<lparr>gr_peers := (gr_peers g)(a \<mapsto> p)\<rparr>"

definition gr_member :: "addr \<Rightarrow> peer \<Rightarrow> group \<Rightarrow> bool" where
  "gr_member a p g \<longleftrightarrow> gr_registry g (pr_ident p) = Some a"

definition gr_leave :: "int \<Rightarrow> group \<Rightarrow> group" where
  "gr_leave i g = g\<lparr>gr_registry := (gr_registry g)(i := None), gr_free := gr_free g @ [i]\<rparr>"

definition gr_command :: "string \<Rightarrow> group \<Rightarrow> group" where
  "gr_command cmd g = (if gr_redis g then g\<lparr>gr_log := gr_log g @ [cmd]\<rparr> else g)"

definition post :: "bytes \<Rightarrow> peer \<Rightarrow> peer" where
  "post bs p = p\<lparr>pr_outbox := map_option (\<lambda>(sent, q). (sent, q @ [bs])) (pr_outbox p)\<rparr>"

definition gr_broadcast :: "addr \<Rightarrow> bytes \<Rightarrow> group \<Rightarrow> group" where
  "gr_broadcast a bs g = g\<lparr>gr_peers := (\<lambda>b. map_option
     (\<lambda>p. if b \<noteq> a \<and> gr_member b p g then post bs p else p) (gr_peers g b))\<rparr>"

text \<open>A header that arrived whole, and a body that arrived whole.\<close>

definition group_header :: "addr \<Rightarrow> peer \<Rightarrow> cpMsgHeader_t \<Rightarrow> group \<Rightarrow> group option" where
  "group_header a p h g =
     (if hdr_version h \<noteq> 1 \<or> 1024 < sint (hdr_bodyLength h) then Some g
      else if sint (hdr_bodyLength h) < 0 then None
      else Some (gr_put a (p\<lparr>pr_hearing := Some (AtBody h)\<rparr>) g))"

definition group_body :: "addr \<Rightarrow> peer \<Rightarrow> cpMsgHeader_t \<Rightarrow> bytes \<Rightarrow> group \<Rightarrow> group option" where
  "group_body a p h body g =
     (let g1 = gr_put a (p\<lparr>pr_hearing := Some AtHeader\<rparr>) g in
      if hdr_msgId h = 1 then (case strlen body of Inl e \<Rightarrow> None
        | Inr n \<Rightarrow> Some (gr_command (zadd_cmd (pr_ident p)) g1))
      else if hdr_msgId h = 3 then (case strlen body of Inl e \<Rightarrow> None
        | Inr n \<Rightarrow> Some (gr_broadcast a (header_bytes h @ body)
            (gr_command (zincrby_cmd (int n) (pr_ident p)) g1)))
      else Some g1)"

definition group_read :: "addr \<Rightarrow> error_code \<Rightarrow> bytes \<Rightarrow> group \<Rightarrow> group option" where
  "group_read a ec chunk g = (case gr_peers g a of None \<Rightarrow> None | Some p \<Rightarrow> (case pr_hearing p of
       None \<Rightarrow> None
     | Some AtHeader \<Rightarrow>
         if ec \<noteq> EcOk then (if length chunk \<le> 8 then Some (gr_put a (p\<lparr>pr_hearing := None\<rparr>) g) else None)
         else if length chunk = 8 then group_header a p (header_of_bytes chunk) g else None
     | Some (AtBody h) \<Rightarrow>
         if ec \<noteq> EcOk then
           (if gr_member a p g \<and> length chunk \<le> nat (sint (hdr_bodyLength h))
            then Some (gr_leave (pr_ident p) (gr_put a (p\<lparr>pr_hearing := None\<rparr>) g)) else None)
         else if length chunk = nat (sint (hdr_bodyLength h)) then group_body a p h chunk g else None))"

definition group_write :: "addr \<Rightarrow> error_code \<Rightarrow> group \<Rightarrow> group option" where
  "group_write a ec g = (case gr_peers g a of None \<Rightarrow> None | Some p \<Rightarrow> (case pr_outbox p of
       Some (sent, bs # q) \<Rightarrow>
         if ec = EcOk then Some (gr_put a (p\<lparr>pr_outbox := Some (sent @ bs, q)\<rparr>) g)
         else if gr_member a p g
           then Some (gr_leave (pr_ident p) (gr_put a (p\<lparr>pr_outbox := None\<rparr>) g)) else None
     | _ \<Rightarrow> None))"

definition group_accept :: "error_code \<Rightarrow> endpoint option \<Rightarrow> group \<Rightarrow> group option" where
  "group_accept ec ep g =
     (if ec \<noteq> EcOk \<or> \<not> gr_running g \<or> gr_free g = [] then Some (g\<lparr>gr_door := False\<rparr>)
      else if ep = None then None
      else Some (gr_put (gr_next g) \<lparr>pr_ident = hd (gr_free g), pr_hearing = Some AtHeader, pr_outbox = Some ([], [])\<rparr>
        (g\<lparr>gr_registry := (gr_registry g)(hd (gr_free g) \<mapsto> gr_next g), gr_free := tl (gr_free g),
           gr_next := gr_next g + 1\<rparr>)))"

fun group_step :: "srv_event \<Rightarrow> group \<Rightarrow> group option" where
  "group_step (EvAccept ec ep msg0 tx0 rx0) g =
     (if gr_door g \<and> wf_msg msg0 then group_accept ec ep g else None)"
| "group_step (EvRead a ec chunk) g = group_read a ec chunk g"
| "group_step (EvWrite a ec k) g = group_write a ec g"
| "group_step EvStop g = Some (if gr_running g
     then g\<lparr>gr_registry := (\<lambda>_. None), gr_free := [], gr_running := False\<rparr> else g)"

abbreviation group_run :: "srv_event list \<Rightarrow> group \<Rightarrow> group option" where
  "group_run \<equiv> fold_opt group_step"

subsection \<open>The abstraction\<close>

definition hearing_of :: "TcpSession \<Rightarrow> hearing option" where
  "hearing_of s = (case s_reading s of [] \<Rightarrow> None
     | RdHeader n # rs \<Rightarrow> Some AtHeader | RdBody n # rs \<Rightarrow> Some (AtBody (msg_hdr (s_msg s))))"

text \<open>After a failed write nothing restarts the queue: messages wait and no write is outstanding.\<close>

definition stalled :: "TcpSession \<Rightarrow> bool" where
  "stalled s \<longleftrightarrow> s_writing s = [] \<and> s_sendQue s \<noteq> []"

definition outbox_of :: "TcpSession \<Rightarrow> (bytes \<times> bytes list) option" where
  "outbox_of s = (if stalled s then None else Some (sock_out (s_socket s), map msg_wire (s_sendQue s)))"

definition peer_of :: "TcpSession \<Rightarrow> peer" where
  "peer_of s = \<lparr>pr_ident = s_id s, pr_hearing = hearing_of s, pr_outbox = outbox_of s\<rparr>"

definition group_of :: "chat_world \<Rightarrow> group" where
  "group_of w = \<lparr>gr_peers = (\<lambda>a. map_option peer_of (heap w a)), gr_registry = (\<lambda>i. getSession i w),
     gr_free = srv_free w, gr_next = srv_alloc w, gr_door = (0 < srv_accepting w),
     gr_running = (srv_state w = SrvStart), gr_redis = (rd_context (chat_redis w) \<noteq> None),
     gr_log = redis_log (chat_redis w)\<rparr>"

text \<open>What the sessions and the server keep while the specification describes them.\<close>

definition read_ok :: "TcpSession \<Rightarrow> bool" where
  "read_ok s \<longleftrightarrow> (\<forall>n. s_reading s = [RdHeader n] \<longrightarrow> n = 8) \<and>
     (\<forall>n. s_reading s = [RdBody n] \<longrightarrow> valid_msg (s_msg s) \<and> n = nat (msg_bodyLength (s_msg s)))"

definition peer_ok :: "TcpSession \<Rightarrow> bool" where
  "peer_ok s \<longleftrightarrow> s_messageHandler s = Some message_name \<and> s_closedHandler s = Some close_lambda \<and>
     (stalled s \<or> tx_inv s) \<and> read_ok s"

definition group_ready :: "chat_world \<Rightarrow> bool" where
  "group_ready w \<longleftrightarrow> srv_state w \<noteq> SrvReady \<and> srv_acceptor w \<noteq> None \<and> m_ios (srv_pool w) \<noteq> [] \<and>
     srv_openedHandler w = Some opened_name \<and> srv_closedHandler w = Some closed_name \<and>
     srv_messageHandler w = Some message_name \<and> (0 < srv_accepting w \<longrightarrow> srv_socket w = Some fresh_socket)"

definition group_inv :: "chat_world \<Rightarrow> bool" where
  "group_inv w \<longleftrightarrow> srv_inv w \<and> ids_unique w \<and> group_ready w \<and> (\<forall>a s. heap w a = Some s \<longrightarrow> peer_ok s) \<and>
     (\<forall>i a s. getSession i w = Some a \<longrightarrow> heap w a = Some s \<longrightarrow> \<not> stalled s)"

definition refines_step :: "hiredis \<Rightarrow> srv_event \<Rightarrow> chat_world \<Rightarrow> group \<Rightarrow> bool" where
  "refines_step hi e w g \<longleftrightarrow> (\<exists>w'. exec_event (chat_env hi) e w = Inr w' \<and> group_of w' = g \<and> group_inv w')"

subsection \<open>One session changes\<close>

lemma group_of_put: "group_of (put_session a s w) = gr_put a (peer_of s) (group_of w)"
  by (auto simp: group_of_def gr_put_def put_session_def getSession_def)

lemma gr_put_same: "heap w a = Some s \<Longrightarrow> gr_put a (peer_of s) (group_of w) = group_of w"
  by (auto simp: group_of_def gr_put_def)

lemma group_member: "gr_member a (peer_of s) (group_of w) \<longleftrightarrow> getSession (s_id s) w = Some a"
  by (simp add: gr_member_def group_of_def peer_of_def)

lemma group_of_redis: "group_of (redis_send hi cmd w) = gr_command cmd (group_of w)"
  by (simp add: group_of_def gr_command_def redis_send_def getSession_def Redis_send_log Redis_send_context)

lemma tx_inv_not_stalled: "tx_inv s \<Longrightarrow> \<not> stalled s"
  by (cases "s_sendQue s") (simp_all add: tx_inv_def stalled_def)

lemma group_ready_put [simp]: "group_ready (put_session a s w) = group_ready w"
  by (simp add: group_ready_def)

text \<open>What a session may become: consistent, with the same identity, its queue intact or stalled.\<close>

definition peer_next :: "TcpSession \<Rightarrow> TcpSession \<Rightarrow> bool" where
  "peer_next s s' \<longleftrightarrow> sess_ok s' \<and> same_identity s s' \<and> (stalled s' \<or> tx_inv s') \<and> read_ok s'"

lemma group_inv_peer:
  assumes "group_inv w" and "heap w a = Some s"
  shows "sess_ok s" "peer_ok s" "a < srv_alloc w" "getSession i w = Some a \<Longrightarrow> tx_inv s"
proof -
  show "sess_ok s" "peer_ok s" "a < srv_alloc w"
    using assms by (auto simp: group_inv_def srv_inv_def heap_inv_def)
  show "getSession i w = Some a \<Longrightarrow> tx_inv s" using assms unfolding group_inv_def peer_ok_def by blast
qed

lemma peer_next_ok: "peer_ok s \<Longrightarrow> peer_next s s' \<Longrightarrow> peer_ok s'"
  by (simp add: peer_ok_def peer_next_def same_identity_def)

lemma registered_ident:
  assumes "srv_inv w" and "heap w a = Some s" and "getSession i w = Some a"
  shows "i = s_id s"
  using assms registryD[of w i a] by (simp add: srv_inv_def getSession_def)

lemma group_inv_put:
  assumes "group_inv w" and "heap w a = Some s" and "peer_next s s'"
    and "getSession (s_id s) w = Some a \<Longrightarrow> \<not> stalled s'"
  shows "group_inv (put_session a s' w)"
proof -
  have inv: "srv_inv w" using assms(1) by (simp add: group_inv_def)
  have "srv_inv (put_session a s' w)"
    using srv_inv_put[OF inv assms(2)] assms(3) by (simp add: peer_next_def)
  moreover have "ids_unique (put_session a s' w)" using assms(1) by (simp add: group_inv_def ids_unique_def)
  moreover have "peer_ok t" if "heap (put_session a s' w) b = Some t" for b t
    using that assms(1) peer_next_ok[OF group_inv_peer(2)[OF assms(1,2)] assms(3)]
    by (auto simp: group_inv_def split: if_splits)
  moreover have "\<not> stalled t" if "getSession i (put_session a s' w) = Some b" "heap (put_session a s' w) b = Some t" for i b t
    using that assms(1,4) registered_ident[OF inv assms(2), of i]
    by (auto simp: group_inv_def getSession_def split: if_splits)
  ultimately show ?thesis using assms(1) by (simp add: group_inv_def)
qed

lemma group_leave:
  assumes "group_inv w" and "heap w a = Some s" and "peer_next s s'" and "getSession (s_id s) w = Some a"
  shows "\<exists>w'. handleClose (chat_env hi) a r (put_session a s' w) = Inr w' \<and>
    group_of w' = gr_leave (s_id s) (gr_put a (peer_of s') (group_of w)) \<and> group_inv w'"
proof -
  let ?w1 = "put_session a s' w"
  have inv: "srv_inv w" and iu: "ids_unique w" and rd: "group_ready w" using assms(1) by (simp_all add: group_inv_def)
  have id: "s_id s' = s_id s" using assms(3) by (simp add: peer_next_def same_identity_def)
  let ?w' = "?w1\<lparr>srv_sessions := map_erase (s_id s) (srv_sessions ?w1), srv_free := srv_free ?w1 @ [s_id s]\<rparr>"
  have run: "handleClose (chat_env hi) a r ?w1 = Inr ?w'"
    using handleClose_chat[of ?w1 a s' hi r] rd id by (simp add: group_ready_def)
  have inv1: "srv_inv ?w1" using srv_inv_put[OF inv assms(2)] assms(3) by (simp add: peer_next_def)
  have "ids_unique ?w1" "getSession (s_id s') ?w1 = Some a"
    using iu assms(4) id by (simp_all add: ids_unique_def getSession_def)
  from chat_app.close_releases[OF inv1 this(1) _ this(2) run] have iu': "ids_unique ?w'"
    and get: "getSession j ?w' = (if j = s_id s then None else getSession j w)" for j
    by (simp_all add: id) (simp add: getSession_def)
  have "group_of ?w' = gr_leave (s_id s) (gr_put a (peer_of s') (group_of w))"
    using get by (auto simp: group_of_def gr_leave_def gr_put_def put_session_def)
  moreover have "peer_ok t" if "heap ?w' b = Some t" for b t
    using that assms(1) peer_next_ok[OF group_inv_peer(2)[OF assms(1,2)] assms(3)]
    by (auto simp: group_inv_def split: if_splits)
  moreover have "\<not> stalled t" if "getSession i ?w' = Some b" "heap ?w' b = Some t" for i b t
    using that assms(1) get registered_ident[OF inv assms(2), of i]
    by (auto simp: group_inv_def split: if_splits)
  moreover have "group_ready ?w'" using rd by (simp add: group_ready_def)
  moreover have "srv_inv ?w'" using chat_app.handleClose_inv[OF inv1 run] by blast
  ultimately show ?thesis using run iu' unfolding group_inv_def by blast
qed

subsection \<open>Reads\<close>

lemma hearing_header: "sess_ok s \<Longrightarrow> hearing_of s = Some AtHeader \<longleftrightarrow> (\<exists>n. s_reading s = [RdHeader n])"
  by (cases "s_reading s") (auto simp: hearing_of_def sess_ok_def split: read_op.splits)

lemma hearing_body: "sess_ok s \<Longrightarrow> hearing_of s = Some (AtBody h) \<longleftrightarrow>
    (\<exists>n. s_reading s = [RdBody n]) \<and> h = msg_hdr (s_msg s)"
  by (cases "s_reading s") (auto simp: hearing_of_def sess_ok_def split: read_op.splits)

text \<open>A session that only changes its message object and what it reads keeps identifier and outbox.\<close>

lemma peer_of_read:
  "peer_of (s\<lparr>s_msg := m, s_reading := rs\<rparr>) =
     (peer_of s)\<lparr>pr_hearing := hearing_of (s\<lparr>s_msg := m, s_reading := rs\<rparr>)\<rparr>"
  by (simp add: peer_of_def outbox_of_def stalled_def)

lemma peer_next_quiet:
  assumes "sess_ok s" and "peer_ok s" and "same_identity s s'" and "s_sendQue s' = s_sendQue s"
    and "s_writing s' = s_writing s" and "wf_msg (s_msg s')" and "length (s_reading s') \<le> 1"
    and "read_ok s'"
  shows "peer_next s s'"
  using assms by (auto simp: peer_next_def sess_ok_def write_ok_def peer_ok_def stalled_def tx_inv_def)

lemma quiet_put:
  assumes "group_inv w" and "heap w a = Some s" and "same_identity s s'" and "s_sendQue s' = s_sendQue s"
    and "s_writing s' = s_writing s" and "wf_msg (s_msg s')" and "length (s_reading s') \<le> 1"
    and "read_ok s'"
  shows "group_inv (put_session a s' w)"
proof (rule group_inv_put[OF assms(1,2)])
  show "peer_next s s'" using peer_next_quiet[OF group_inv_peer(1,2)[OF assms(1,2)] assms(3-8)] .
  show "\<not> stalled s'" if "getSession (s_id s) w = Some a"
    using tx_inv_not_stalled[OF group_inv_peer(4)[OF assms(1,2) that]] assms(4,5) by (simp add: stalled_def)
qed

lemma header_failed:
  assumes "group_inv w" and "heap w a = Some s" and "s_reading s = [RdHeader n]" and "ec \<noteq> EcOk"
    and "length chunk \<le> 8"
  shows "refines_step hi (EvRead a ec chunk) w (gr_put a ((peer_of s)\<lparr>pr_hearing := None\<rparr>) (group_of w))"
proof -
  obtain m where m: "deposit 0 chunk (s_msg s) = Inr m" using assms(5) by (simp add: deposit_def)
  have wf: "wf_msg m"
    using deposit_wf[OF _ m] group_inv_peer(1)[OF assms(1,2)] by (simp add: sess_ok_def)
  let ?w' = "put_session a (s\<lparr>s_msg := m, s_reading := []\<rparr>) w"
  have "exec_event (chat_env hi) (EvRead a ec chunk) w = Inr ?w'"
    using assms(2-4) m by (simp add: complete_read_def)
  moreover have "group_of ?w' = gr_put a ((peer_of s)\<lparr>pr_hearing := None\<rparr>) (group_of w)"
    by (simp add: group_of_put peer_of_read hearing_of_def)
  moreover have "group_inv ?w'" using wf by (intro quiet_put[OF assms(1,2)]) (simp_all add: same_identity_def read_ok_def)
  ultimately show ?thesis unfolding refines_step_def by blast
qed

lemma header_arrived:
  assumes "group_inv w" and "heap w a = Some s" and "s_reading s = [RdHeader n]" and "length chunk = 8"
    and "group_header a (peer_of s) (header_of_bytes chunk) (group_of w) = Some g"
  shows "refines_step hi (EvRead a EcOk chunk) w g"
proof -
  let ?h = "header_of_bytes chunk"
  let ?m = "(s_msg s)\<lparr>msg_hdr := ?h\<rparr>"
  have wf: "wf_msg ?m" using group_inv_peer(1)[OF assms(1,2)] by (simp add: sess_ok_def wf_msg_def)
  have d: "deposit 0 chunk (s_msg s) = Inr ?m" using deposit_header[OF assms(4)] .
  show ?thesis
  proof (cases "checkHeader ?m")
    case True
    then have h: "0 \<le> sint (hdr_bodyLength ?h)" "hdr_version ?h = 1" "sint (hdr_bodyLength ?h) \<le> 1024"
      "g = gr_put a ((peer_of s)\<lparr>pr_hearing := Some (AtBody ?h)\<rparr>) (group_of w)"
      using assms(5) by (auto simp: group_header_def checkHeader_iff msg_bodyLength_def split: if_splits)
    let ?k = "unat (word_of_int (msg_bodyLength ?m) :: 64 word)"
    let ?w' = "put_session a (s\<lparr>s_msg := ?m, s_reading := [RdBody ?k]\<rparr>) w"
    have "exec_event (chat_env hi) (EvRead a EcOk chunk) w = Inr ?w'"
      using assms(2,3) d True by (simp add: complete_read_def handleReadHeader_def)
    moreover have "group_of ?w' = g" using h(4) by (simp add: group_of_put peer_of_read hearing_of_def)
    moreover have "?k = nat (msg_bodyLength ?m)"
      using h(1,3) by (intro unat_size_nonneg) (simp_all add: msg_bodyLength_def)
    then have "group_inv ?w'"
      using wf h by (intro quiet_put[OF assms(1,2)])
        (simp_all add: same_identity_def read_ok_def valid_msg_def msg_bodyLength_def)
    ultimately show ?thesis unfolding refines_step_def by blast
  next
    case False
    then have g: "g = group_of w"
      using assms(5) by (auto simp: group_header_def checkHeader_iff msg_bodyLength_def split: if_splits)
    let ?w' = "put_session a (s\<lparr>s_msg := ?m, s_reading := [RdHeader 8]\<rparr>) w"
    have "exec_event (chat_env hi) (EvRead a EcOk chunk) w = Inr ?w'"
      using assms(2,3) d False by (simp add: complete_read_def handleReadHeader_def session_read_def)
    moreover have "(peer_of s)\<lparr>pr_hearing := Some AtHeader\<rparr> = peer_of s"
      using assms(3) by (simp add: peer_of_def hearing_of_def)
    then have "group_of ?w' = g"
      using g gr_put_same[OF assms(2)] by (simp add: group_of_put peer_of_read hearing_of_def)
    moreover have "group_inv ?w'" using wf by (intro quiet_put[OF assms(1,2)]) (simp_all add: same_identity_def read_ok_def)
    ultimately show ?thesis unfolding refines_step_def by blast
  qed
qed

lemma body_failed:
  assumes "group_inv w" and "heap w a = Some s" and "s_reading s = [RdBody n]" and "ec \<noteq> EcOk"
    and "length chunk \<le> nat (msg_bodyLength (s_msg s))" and "getSession (s_id s) w = Some a"
  shows "refines_step hi (EvRead a ec chunk) w
    (gr_leave (s_id s) (gr_put a ((peer_of s)\<lparr>pr_hearing := None\<rparr>) (group_of w)))"
proof -
  note ok = group_inv_peer(1,2)[OF assms(1,2)]
  have len: "length chunk \<le> 1024"
    using assms(3,5) ok(2) by (auto simp: peer_ok_def read_ok_def valid_msg_def)
  let ?m = "(s_msg s)\<lparr>msg_body := overlay 0 chunk (msg_body (s_msg s))\<rparr>"
  let ?s1 = "s\<lparr>s_msg := ?m, s_reading := []\<rparr>"
  have "wf_msg ?m" using ok(1) deposit_wf[OF _ deposit_body[OF len]] by (simp add: sess_ok_def)
  then have nx: "peer_next s ?s1" by (intro peer_next_quiet[OF ok]) (simp_all add: same_identity_def read_ok_def)
  have "exec_event (chat_env hi) (EvRead a ec chunk) w =
      handleClose (chat_env hi) a (close_reason ec) (put_session a ?s1 w)"
    using assms(2-4) ok(2) deposit_body[OF len]
    by (simp add: complete_read_def handleReadBody_def fire_closed_def server_env_def peer_ok_def)
  moreover have "peer_of ?s1 = (peer_of s)\<lparr>pr_hearing := None\<rparr>" by (simp add: peer_of_read hearing_of_def)
  ultimately show ?thesis
    using group_leave[OF assms(1,2) nx assms(6), of hi "close_reason ec"] unfolding refines_step_def by metis
qed

text \<open>A body that arrived whole: the message handler runs, and the next header is awaited.\<close>

abbreviation heard_out :: "bytes \<Rightarrow> TcpSession \<Rightarrow> TcpSession" where
  "heard_out body s \<equiv> (took_body body s)\<lparr>s_reading := [RdHeader 8]\<rparr>"

lemma peer_of_heard: "peer_of (heard_out body s) = (peer_of s)\<lparr>pr_hearing := Some AtHeader\<rparr>"
  by (simp add: peer_of_def hearing_of_def outbox_of_def stalled_def)

lemma took_body_wf:
  assumes "peer_ok s" and "s_reading s = [RdBody n]" and "length body = nat (msg_bodyLength (s_msg s))"
  shows "valid_msg (s_msg (took_body body s))" "wf_msg (s_msg (took_body body s))"
  using took_body_valid(1)[of s body] assms by (simp_all add: peer_ok_def read_ok_def valid_msg_def)

lemma group_inv_redis [simp]: "group_inv (redis_send hi cmd w) = group_inv w"
  by (simp add: group_inv_def redis_send_def ids_unique_def group_ready_def getSession_def)

lemma put_redis: "put_session a s (redis_send hi cmd w) = redis_send hi cmd (put_session a s w)"
  by (simp add: put_session_def redis_send_def)

lemma body_quiet:
  assumes "group_inv w" and "heap w a = Some s" and "s_reading s = [RdBody n]"
    and "length body = nat (msg_bodyLength (s_msg s))" and "hdr_msgId (msg_hdr (s_msg s)) \<noteq> 3"
    and "group_body a (peer_of s) (msg_hdr (s_msg s)) body (group_of w) = Some g"
  shows "refines_step hi (EvRead a EcOk body) w g"
proof -
  let ?w1 = "put_session a (took_body body s) w"
  let ?w2 = "put_session a (heard_out body s) w"
  note ok = group_inv_peer(1,2)[OF assms(1,2)]
  have len: "length body \<le> 1024" using assms(3,4) ok(2) by (auto simp: peer_ok_def read_ok_def valid_msg_def)
  have run: "exec_event (chat_env hi) (EvRead a EcOk body) w =
      bind_res (messageHandler hi a ?w1) (session_read a hdrLength)"
    using complete_body_runs[OF assms(2,3) _ len] ok(2) by (simp add: peer_ok_def)
  have g2: "group_of ?w2 = gr_put a ((peer_of s)\<lparr>pr_hearing := Some AtHeader\<rparr>) (group_of w)"
    by (simp add: group_of_put peer_of_heard)
  have i2: "group_inv ?w2" using took_body_wf(2)[OF ok(2) assms(3,4)] by (intro quiet_put[OF assms(1,2)]) (simp_all add: same_identity_def read_ok_def took_body_def)
  show ?thesis
  proof (cases "hdr_msgId (msg_hdr (s_msg s)) = 1")
    case True
    then obtain k where k: "strlen body = Inr k"
      and g: "g = gr_command (zadd_cmd (s_id s)) (group_of ?w2)"
      using assms(6) g2 by (auto simp: group_body_def Let_def peer_of_def split: sum.splits)
    have "messageHandler hi a ?w1 = Inr (redis_send hi (zadd_cmd (s_id s)) ?w1)"
      using messageHandler_eq[of ?w1 a "took_body body s" hi] True strlen_append[OF k]
      by (simp add: rqCreateUser_def getMsg_def getID_def overlay_0)
    then have "exec_event (chat_env hi) (EvRead a EcOk body) w = Inr (redis_send hi (zadd_cmd (s_id s)) ?w2)"
      using run by (simp add: session_read_def put_redis)
    then show ?thesis using g i2 unfolding refines_step_def by (metis group_inv_redis group_of_redis)
  next
    case False
    have "messageHandler hi a ?w1 = Inr ?w1"
      using messageHandler_eq[of ?w1 a "took_body body s" hi] False assms(5) by simp
    then have "exec_event (chat_env hi) (EvRead a EcOk body) w = Inr ?w2" using run by (simp add: session_read_def)
    moreover have "g = group_of ?w2" using assms(5,6) False g2 by (simp add: group_body_def Let_def)
    ultimately show ?thesis using i2 unfolding refines_step_def by blast
  qed
qed

text \<open>Queueing a message on a session whose queue is intact.\<close>

lemma hearing_of_cong: "s_reading t' = s_reading t \<Longrightarrow> s_msg t' = s_msg t \<Longrightarrow> hearing_of t' = hearing_of t"
  by (simp add: hearing_of_def split: list.splits read_op.splits)

lemma send_peer:
  assumes "tx_inv t" and "valid_msg m" and "session_send m t = Inr t'"
  shows "tx_inv t'" "peer_of t' = post (msg_wire m) (peer_of t)"
proof -
  show "tx_inv t'" using session_send_step[OF assms(1,2)] assms(3) by auto
  then have "\<not> stalled t'" "\<not> stalled t" using assms(1) tx_inv_not_stalled by auto
  moreover have "s_sendQue t' = s_sendQue t @ [m]" "s_socket t' = s_socket t" "s_id t' = s_id t"
    "s_reading t' = s_reading t" "s_msg t' = s_msg t"
    using assms(3) by (auto simp: session_send_def begin_write_def bind_res_eq_Inr Let_def split: if_splits)
  ultimately show "peer_of t' = post (msg_wire m) (peer_of t)"
    using hearing_of_cong[of t' t] by (simp add: peer_of_def post_def outbox_of_def)
qed

lemma broadcast_peer:
  assumes inv: "group_inv w" and fr: "callback_frame w w2" and m: "valid_msg m"
    and sent: "each_sent (snd ` set (srv_sessions w) - {a}) m w w2"
    and h: "heap w b = Some t" "heap w2 b = Some t'"
  shows "peer_ok t' \<and> (stalled t' \<longrightarrow> stalled t) \<and>
    peer_of t' = (if b \<noteq> a \<and> getSession (s_id t) w = Some b then post (msg_wire m) (peer_of t) else peer_of t)"
proof -
  have iw: "srv_inv w" using inv by (simp add: group_inv_def)
  have sess: "b \<in> snd ` set (srv_sessions w) \<longleftrightarrow> getSession (s_id t) w = Some b"
    using registered_sessions[OF iw, of b] registered_ident[OF iw h(1)] by (auto simp: registered_def)
  show ?thesis
  proof (cases "b \<noteq> a \<and> getSession (s_id t) w = Some b")
    case True
    then have "session_send m t = Inr t'"
      using sent[unfolded each_sent_def, rule_format, of b] h sess by auto
    moreover have tx: "tx_inv t" using group_inv_peer(4)[OF inv h(1)] True by blast
    moreover have "same_identity t t'" "s_reading t' = s_reading t" "s_msg t' = s_msg t"
      using calculation(1) by (auto simp: session_send_def begin_write_def
          same_identity_def bind_res_eq_Inr Let_def split: if_splits list.splits)
    ultimately show ?thesis
      using True send_peer[OF tx m] tx_inv_not_stalled[of t'] group_inv_peer(2)[OF inv h(1)]
      by (simp add: peer_ok_def read_ok_def same_identity_def)
  next
    case False
    then have "t' = t" using sent[unfolded each_sent_def, rule_format, of b] h sess by auto
    then show ?thesis using False group_inv_peer(2)[OF inv h(1)] by auto
  qed
qed

lemma group_broadcast:
  assumes inv: "group_inv w" "srv_inv w2" and fr: "callback_frame w w2" and m: "valid_msg m"
    and sent: "each_sent (snd ` set (srv_sessions w) - {a}) m w w2"
    and rd: "chat_redis w2 = snd (Redis_send hi cmd (chat_redis w))"
  shows "group_of w2 = gr_broadcast a (msg_wire m) (gr_command cmd (group_of w)) \<and> group_inv w2"
proof
  have same: "srv_same w w2" using fr by (simp add: callback_frame_def)
  have get: "getSession i w2 = getSession i w" for i using same by (simp add: getSession_def srv_same_def)
  have dom: "heap w2 b = None \<longleftrightarrow> heap w b = None" for b
    using fr unfolding callback_frame_def by (metis domIff)
  note cell = broadcast_peer[OF inv(1) fr m sent]
  have "gr_peers (group_of w2) b = gr_peers (gr_broadcast a (msg_wire m) (gr_command cmd (group_of w))) b" for b
  proof (cases "heap w b")
    case None
    then show ?thesis using dom[of b] by (simp add: group_of_def gr_broadcast_def gr_command_def)
  next
    case (Some t)
    then obtain t' where t': "heap w2 b = Some t'" using dom[of b] by auto
    have "gr_peers (gr_command cmd (group_of w)) b = Some (peer_of t)"
      "gr_member b (peer_of t) (gr_command cmd (group_of w)) \<longleftrightarrow> getSession (s_id t) w = Some b"
      using Some by (simp_all add: gr_command_def group_of_def gr_member_def peer_of_def)
    moreover have "gr_peers (group_of w2) b = Some (peer_of t')" using t' by (simp add: group_of_def)
    ultimately show ?thesis using cell[OF Some t'] by (simp add: gr_broadcast_def)
  qed
  then show "group_of w2 = gr_broadcast a (msg_wire m) (gr_command cmd (group_of w))"
    using same rd get
    by (auto simp: group_of_def gr_broadcast_def gr_command_def srv_same_def Redis_send_log Redis_send_context fun_eq_iff)
  show "group_inv w2"
    unfolding group_inv_def
  proof (intro conjI allI impI)
    show "srv_inv w2" by (rule inv(2))
    show "ids_unique w2" "group_ready w2"
      using inv(1) same by (simp_all add: group_inv_def ids_unique_def group_ready_def srv_same_def)
    fix b t'
    assume t': "heap w2 b = Some t'"
    then obtain t where t: "heap w b = Some t" using dom[of b] by auto
    then show "peer_ok t'" using cell t' by blast
  next
    fix i b t'
    assume i: "getSession i w2 = Some b" and t': "heap w2 b = Some t'"
    then obtain t where t: "heap w b = Some t" using dom[of b] by auto
    then show "\<not> stalled t'" using cell[OF t t'] inv(1) i get unfolding group_inv_def by metis
  qed
qed

lemma broadcast_put:
  "gr_put a p (gr_broadcast a bs (gr_command cmd (gr_put a q g))) = gr_broadcast a bs (gr_command cmd (gr_put a p g))"
  by (cases g) (auto simp: gr_put_def gr_broadcast_def gr_command_def gr_member_def fun_eq_iff)

lemma body_text:
  assumes "group_inv w" and "heap w a = Some s" and "s_reading s = [RdBody n]"
    and "length body = nat (msg_bodyLength (s_msg s))" and "hdr_msgId (msg_hdr (s_msg s)) = 3"
    and "group_body a (peer_of s) (msg_hdr (s_msg s)) body (group_of w) = Some g"
  shows "refines_step hi (EvRead a EcOk body) w g"
proof -
  note ok = group_inv_peer(1,2)[OF assms(1,2)]
  let ?s1 = "took_body body s"
  let ?w1 = "put_session a ?s1 w"
  have v: "valid_msg (s_msg s)" "s_messageHandler s = Some message_name" using ok(2) assms(3) by (simp_all add: peer_ok_def read_ok_def)
  note v1 = took_body_wf[OF ok(2) assms(3,4)]
  have inv: "srv_inv w" using assms(1) by (simp add: group_inv_def)
  obtain k where k: "strlen body = Inr k" and g: "g = gr_broadcast a (header_bytes (msg_hdr (s_msg s)) @ body)
      (gr_command (zincrby_cmd (int k) (s_id s)) (gr_put a (peer_of (heard_out body s)) (group_of w)))"
    using assms(5,6) by (auto simp: group_body_def Let_def peer_of_heard split: sum.splits) (simp add: peer_of_def)
  have "\<forall>i b. getSession i w = Some b \<longrightarrow> b \<noteq> a \<longrightarrow> (\<exists>t. heap w b = Some t \<and> tx_inv t)"
    using group_inv_peer(4)[OF assms(1)] inv registryD[of w] unfolding srv_inv_def getSession_def by blast
  from text_body_runs[OF inv assms(2,3) v(2,1) assms(5,4) k this, of hi] obtain w2 where
    run: "complete_read (server_env (chat_env hi)) a EcOk body w = Inr (put_session a (heard_out body s) w2)"
    and w2: "srv_inv w2" "callback_frame ?w1 w2"
      "each_sent (snd ` set (srv_sessions ?w1) - {a}) (s_msg ?s1) ?w1 w2"
      "chat_redis w2 = snd (Redis_send hi (zincrby_cmd (int k) (s_id s)) (chat_redis ?w1))"
    by (auto simp: put_session_def)
  have "group_inv ?w1" using v1 by (intro quiet_put[OF assms(1,2)]) (simp_all add: read_ok_def)
  note b = group_broadcast[OF this w2(1,2) v1(1) w2(3,4)]
  have "group_of (put_session a (heard_out body s) w2) = g"
    using b g took_body_valid(2)[OF v(1) assms(4)] by (simp add: group_of_put broadcast_put)
  moreover have "heap w2 a = Some ?s1" using w2(3)[unfolded each_sent_def, rule_format, of a] by simp
  then have "group_inv (put_session a (heard_out body s) w2)"
    using quiet_put[of w2 a ?s1 "heard_out body s"] b v1 by (simp add: same_identity_def read_ok_def)
  ultimately show ?thesis using run unfolding refines_step_def by auto
qed

lemma group_of_peer: "heap w a = Some s \<Longrightarrow> gr_peers (group_of w) a = Some (peer_of s)"
  by (simp add: group_of_def)

lemma peer_of_simps [simp]:
  "pr_ident (peer_of s) = s_id s" "pr_hearing (peer_of s) = hearing_of s" "pr_outbox (peer_of s) = outbox_of s"
  by (simp_all add: peer_of_def)

lemma read_refines:
  assumes "group_inv w" and "group_step (EvRead a ec chunk) (group_of w) = Some g"
  shows "refines_step hi (EvRead a ec chunk) w g"
proof -
  obtain s where s: "heap w a = Some s"
    using assms(2) by (auto simp: group_read_def group_of_def split: option.splits)
  note ok = group_inv_peer(1)[OF assms(1) s]
  have r: "group_read a ec chunk (group_of w) = Some g" using assms(2) by simp
  then obtain x where x: "hearing_of s = Some x"
    using group_of_peer[OF s] by (auto simp: group_read_def split: option.splits)
  show ?thesis
  proof (cases x)
    case AtHeader
    then obtain n where n: "s_reading s = [RdHeader n]" using x hearing_header[OF ok] by auto
    show ?thesis
      using r x AtHeader group_of_peer[OF s] header_failed[OF assms(1) s n] header_arrived[OF assms(1) s n]
      by (auto simp: group_read_def split: if_splits)
  next
    case (AtBody h)
    then obtain n where n: "s_reading s = [RdBody n]" and h: "h = msg_hdr (s_msg s)" using x hearing_body[OF ok] by auto
    have m: "msg_bodyLength (s_msg s) = sint (hdr_bodyLength h)" by (simp add: h msg_bodyLength_def)
    show ?thesis
    proof (cases "ec = EcOk")
      case True
      then have "length chunk = nat (msg_bodyLength (s_msg s))"
        "group_body a (peer_of s) (msg_hdr (s_msg s)) chunk (group_of w) = Some g"
        using r x AtBody group_of_peer[OF s] h m by (auto simp: group_read_def split: if_splits)
      then show ?thesis
        using True body_quiet[OF assms(1) s n] body_text[OF assms(1) s n]
        by (cases "hdr_msgId (msg_hdr (s_msg s)) = 3") auto
    next
      case False
      then show ?thesis
        using r x AtBody group_of_peer[OF s] h m body_failed[OF assms(1) s n]
        by (auto simp: group_read_def group_member split: if_splits)
    qed
  qed
qed

subsection \<open>Writes\<close>

lemma outbox_pending:
  assumes "peer_ok s" and "outbox_of s = Some (sent, bs # q)"
  obtains m ms where "s_sendQue s = m # ms" "bs = msg_wire m" "q = map msg_wire ms" "sent = sock_out (s_socket s)"
    "s_writing s = [bs]" "tx_inv s"
proof -
  have st: "\<not> stalled s" using assms(2) by (auto simp: outbox_of_def split: if_splits)
  then have tx: "tx_inv s" using assms(1) by (simp add: peer_ok_def)
  obtain m ms where m: "s_sendQue s = m # ms" "bs = msg_wire m" "q = map msg_wire ms" "sent = sock_out (s_socket s)"
    using assms(2) st by (cases "s_sendQue s") (auto simp: outbox_of_def)
  have "s_writing s = [bs]" using tx m(1,2) by (simp add: tx_inv_def)
  then show ?thesis using that m tx by blast
qed

lemma write_done_peer:
  assumes "peer_ok s" and "sess_ok s" and "outbox_of s = Some (sent, bs # q)"
  shows "\<exists>s'. tx_step TxDone s = Inr s' \<and> tx_inv s' \<and> peer_next s s' \<and>
    peer_of s' = (peer_of s)\<lparr>pr_outbox := Some (sent @ bs, q)\<rparr>"
proof -
  obtain m ms where m: "s_sendQue s = m # ms" "bs = msg_wire m" "q = map msg_wire ms" "sent = sock_out (s_socket s)"
    and w: "s_writing s = [bs]" and tx: "tx_inv s"
    by (rule outbox_pending[OF assms(1,3)])
  obtain s' where s': "tx_step TxDone s = Inr s'" "tx_inv s'" "stream_of s' = stream_of s" "s_sendQue s' = ms"
    using tx_done_step[OF tx] m(1) by auto
  have same: "s_reading s' = s_reading s" "s_msg s' = s_msg s" "same_identity s s'"
    using s'(1) w by (auto simp: same_identity_def handleWrite_next_def begin_write_def bind_res_eq_Inr
        Let_def split: if_splits list.splits)
  have out: "sock_out (s_socket s') = sent @ bs" using s'(3,4) m by (simp add: stream_of_def)
  have "sess_ok (s\<lparr>s_writing := [], s_socket := (s_socket s)\<lparr>sock_out := sock_out (s_socket s) @ bs\<rparr>\<rparr>)"
    using assms(2) by (simp add: sess_ok_def write_ok_def)
  then have "sess_ok s'"
    using s'(1) w handleWrite_next_ok[of "s\<lparr>s_writing := [], s_socket := (s_socket s)\<lparr>sock_out := sock_out (s_socket s) @ bs\<rparr>\<rparr>" s']
    by simp
  then have "peer_next s s'" using same s'(2) assms(1) by (simp add: peer_next_def peer_ok_def read_ok_def)
  moreover have "peer_of s' = (peer_of s)\<lparr>pr_outbox := Some (sent @ bs, q)\<rparr>"
    using hearing_of_cong[OF same(1,2)] same(3) out s'(4) m(3) tx_inv_not_stalled[OF s'(2)]
    by (simp add: peer_of_def outbox_of_def same_identity_def)
  ultimately show ?thesis using s' by blast
qed

lemma write_done:
  assumes "group_inv w" and "heap w a = Some s" and "outbox_of s = Some (sent, bs # q)"
  shows "refines_step hi (EvWrite a EcOk k) w (gr_put a ((peer_of s)\<lparr>pr_outbox := Some (sent @ bs, q)\<rparr>) (group_of w))"
proof -
  note ok = group_inv_peer(1,2)[OF assms(1,2)]
  obtain s' where s': "tx_step TxDone s = Inr s'" "tx_inv s'" "peer_next s s'"
    "peer_of s' = (peer_of s)\<lparr>pr_outbox := Some (sent @ bs, q)\<rparr>"
    using write_done_peer[OF ok(2,1) assms(3)] by blast
  have "s_writing s \<noteq> []" by (rule outbox_pending[OF ok(2) assms(3)]) simp
  then have "exec_event (chat_env hi) (EvWrite a EcOk k) w = Inr (put_session a s' w)"
    using complete_write_tx_step[OF assms(2)] assms(2) s'(1) by (simp del: tx_step.simps)
  moreover have "group_inv (put_session a s' w)"
    using group_inv_put[OF assms(1,2) s'(3)] tx_inv_not_stalled[OF s'(2)] by blast
  ultimately show ?thesis using s'(4) unfolding refines_step_def by (metis group_of_put)
qed

lemma write_failed:
  assumes "group_inv w" and "heap w a = Some s" and "outbox_of s = Some (sent, bs # q)" and "ec \<noteq> EcOk"
    and "getSession (s_id s) w = Some a"
  shows "refines_step hi (EvWrite a ec k) w
    (gr_leave (s_id s) (gr_put a ((peer_of s)\<lparr>pr_outbox := None\<rparr>) (group_of w)))"
proof -
  note ok = group_inv_peer(1,2)[OF assms(1,2)]
  obtain m ms where m: "s_sendQue s = m # ms" and w: "s_writing s = [bs]"
    by (rule outbox_pending[OF ok(2) assms(3)])
  let ?s1 = "s\<lparr>s_writing := [], s_socket := (s_socket s)\<lparr>sock_out := sock_out (s_socket s) @ take k bs\<rparr>\<rparr>"
  have st: "stalled ?s1" using m by (simp add: stalled_def)
  have nx: "peer_next s ?s1"
    using ok st by (simp add: peer_next_def sess_ok_def write_ok_def same_identity_def peer_ok_def read_ok_def)
  have "exec_event (chat_env hi) (EvWrite a ec k) w =
      handleClose (chat_env hi) a (close_reason ec) (put_session a ?s1 w)"
    using assms(2,4) w ok(2)
    by (simp add: complete_write_def handleWrite_def fire_closed_def server_env_def peer_ok_def write_out_def)
  moreover have "peer_of ?s1 = (peer_of s)\<lparr>pr_outbox := None\<rparr>"
    using st hearing_of_cong[of ?s1 s] by (simp add: peer_of_def outbox_of_def)
  ultimately show ?thesis
    using group_leave[OF assms(1,2) nx assms(5), of hi "close_reason ec"] unfolding refines_step_def by metis
qed

lemma write_refines:
  assumes "group_inv w" and "group_step (EvWrite a ec k) (group_of w) = Some g"
  shows "refines_step hi (EvWrite a ec k) w g"
proof -
  obtain s where s: "heap w a = Some s"
    using assms(2) by (auto simp: group_write_def group_of_def split: option.splits)
  have r: "group_write a ec (group_of w) = Some g" using assms(2) by simp
  then obtain sent bs q where o: "outbox_of s = Some (sent, bs # q)"
    using group_of_peer[OF s] by (auto simp: group_write_def split: option.splits list.splits)
  then show ?thesis
    using r group_of_peer[OF s] write_done[OF assms(1) s o] write_failed[OF assms(1) s o]
    by (auto simp: group_write_def group_member split: if_splits)
qed

subsection \<open>Accepts\<close>

text \<open>While identifiers are unique and the server runs, it is full exactly when none is free.\<close>

lemma full_iff_no_free:
  assumes "srv_inv w" and "ids_unique w" and "srv_state w = SrvStart"
  shows "maxSession (srv_config w) \<le> length (srv_sessions w) \<longleftrightarrow> srv_free w = []"
proof
  assume full: "maxSession (srv_config w) \<le> length (srv_sessions w)"
  have sm: "smap_inv (srv_sessions w)" using assms(1) by (simp add: srv_inv_def registry_inv_def)
  have fin: "finite (srv_ids w)" "card (srv_ids w) = maxSession (srv_config w)" by (simp_all add: srv_ids_def)
  have "length (srv_sessions w) = card (map_keys (srv_sessions w))" using sm.size_card[OF sm] by (simp add: map_keys_def)
  then have "map_keys (srv_sessions w) = srv_ids w"
    using registry_keys_ids[OF assms(1)] fin full by (metis card_seteq)
  moreover have "set (srv_free w) \<subseteq> srv_ids w" "set (srv_free w) \<inter> map_keys (srv_sessions w) = {}"
    using assms(1,2) by (simp_all add: srv_inv_def pool_ids_inv_def ids_unique_def)
  ultimately show "srv_free w = []" by (metis inf.absorb1 set_empty)
next
  assume "srv_free w = []"
  then show "maxSession (srv_config w) \<le> length (srv_sessions w)"
    using srv_inv_free_nonempty[OF assms(1)] assms(3) by fastforce
qed

lemma accept_drops:
  assumes "group_inv w" and "0 < srv_accepting w" and "ec \<noteq> EcOk \<or> srv_state w \<noteq> SrvStart \<or> srv_free w = []"
  shows "refines_step hi (EvAccept ec ep msg0 tx0 rx0) w ((group_of w)\<lparr>gr_door := False\<rparr>)"
proof -
  have inv: "srv_inv w" "ids_unique w" "group_ready w" and one: "srv_accepting w - 1 = 0"
    using assms(1,2) by (auto simp: group_inv_def srv_inv_def)
  let ?w' = "\<lambda>sk. w\<lparr>srv_accepting := 0, srv_socket := sk\<rparr>"
  have "ec \<noteq> EcOk \<or> srv_state w = SrvStop \<or> maxSession (srv_config w) \<le> length (srv_sessions w)"
    using assms(3) full_iff_no_free[OF inv(1,2)] inv(3) by (cases "srv_state w") (auto simp: group_ready_def)
  then have "\<exists>sk. complete_accept (chat_env hi) ec ep msg0 tx0 rx0 w = Inr (?w' sk)"
    using inv(3) assms(2) one
    by (auto simp: complete_accept_def Let_def group_ready_def intro: exI[of _ "srv_socket w"])
  then obtain sk where "exec_event (chat_env hi) (EvAccept ec ep msg0 tx0 rx0) w = Inr (?w' sk)" by auto
  moreover have "group_of (?w' sk) = (group_of w)\<lparr>gr_door := False\<rparr>" by (simp add: group_of_def getSession_def)
  moreover have "group_inv (?w' sk)"
    using assms(1) by (simp add: group_inv_def srv_inv_defs ids_unique_def group_ready_def getSession_def)
  ultimately show ?thesis unfolding refines_step_def by blast
qed

text \<open>The session object an accept creates.\<close>

definition newcomer :: "chat_world \<Rightarrow> endpoint \<Rightarrow> Msg \<Rightarrow> 64 word \<Rightarrow> 64 word \<Rightarrow> TcpSession" where
  "newcomer w ep msg0 tx0 rx0 = \<lparr>s_socket = fresh_socket\<lparr>sock_open := True, sock_peer := Some ep, sock_reuse := True,
       sock_nodelay := noDelay (srv_config w)\<rparr>,
     s_id = hd (srv_free w), s_state = SessOpened, s_remoteEndpoint = ep, s_msg = msg0, s_sendQue = [],
     s_minReceive = minReceive (srv_config w), s_maxReceiveBufferSize = maxReceiveBufferSize (srv_config w),
     s_tx = tx0, s_rx = rx0, s_openedHandler = Some opened_name, s_closedHandler = Some close_lambda,
     s_messageHandler = Some message_name, s_reading = [RdHeader 8], s_writing = [], s_connecting = 0\<rparr>"

lemma accept_runs:
  assumes "group_inv w" and "0 < srv_accepting w" and "srv_state w = SrvStart" and "srv_free w = i # free"
  shows "\<exists>p. m_ios p = m_ios (srv_pool w) \<and> complete_accept (chat_env hi) EcOk (Some ep) msg0 tx0 rx0 w =
    Inr ((put_session (srv_alloc w) (newcomer w ep msg0 tx0 rx0) w)\<lparr>srv_free := free, srv_alloc := srv_alloc w + 1,
      srv_sessions := map_emplace i (srv_alloc w) (srv_sessions w), srv_socket := Some fresh_socket, srv_pool := p\<rparr>)"
proof -
  let ?a = "srv_alloc w"
  let ?w0 = "w\<lparr>srv_accepting := srv_accepting w - 1\<rparr>"
  let ?s1 = "(newcomer w ep msg0 tx0 rx0)\<lparr>s_state := SessReady, s_reading := []\<rparr>"
  let ?w1 = "(put_session ?a ?s1 (?w0\<lparr>srv_free := free, srv_socket := None, srv_alloc := ?a + 1\<rparr>))
    \<lparr>srv_sessions := map_emplace i ?a (srv_sessions w)\<rparr>"
  have rd: "srv_socket w = Some fresh_socket" "srv_openedHandler w = Some opened_name" "srv_acceptor w \<noteq> None"
    "srv_messageHandler w = Some message_name" "m_ios (srv_pool w) \<noteq> []" and inv: "srv_inv w" "ids_unique w"
    using assms(1,2) by (simp_all add: group_inv_def group_ready_def)
  have one: "srv_accepting w = 1" using inv(1) assms(2) by (simp add: srv_inv_def)
  have room: "length (srv_sessions w) < maxSession (srv_config w)"
    using full_iff_no_free[OF inv assms(3)] assms(4) by (simp add: not_le[symmetric])
  have r: "register_session (Some ep) msg0 tx0 rx0 ?w0 = Inr (?a, ?w1)"
    using rd assms(4)
    by (simp add: register_session_def TcpSession_server_def getID_def Let_def newcomer_def fresh_socket_def)
  let ?w2 = "put_session ?a (newcomer w ep msg0 tx0 rx0) ?w1"
  have st: "session_start (server_env (chat_env hi)) ?a ?w1 = Inr ?w2"
    using session_start_chat[of ?w1 ?a ?s1 hi] by (simp add: newcomer_def)
  obtain w' where w': "startAccept ?w2 = Inr w'" using startAccept_succeeds[of ?w2] rd(3,5) by auto
  then obtain j p where g: "getIoService (srv_pool ?w2) = Inr (j, p)"
    and eq: "w' = ?w2\<lparr>srv_socket := Some fresh_socket, srv_accepting := srv_accepting ?w2 + 1, srv_pool := pool_run p\<rparr>"
    by (rule startAccept_cases)
  have "complete_accept (chat_env hi) EcOk (Some ep) msg0 tx0 rx0 w = Inr w'"
    using assms(2,3) room r st w' by (simp add: complete_accept_def)
  moreover have "m_ios (pool_run p) = m_ios (srv_pool w)" using getIoService_keeps[OF g] by (simp add: pool_run_def)
  ultimately show ?thesis
    using eq one by (intro exI[of _ "pool_run p"]) (simp add: put_session_def)
qed

lemma accept_joins:
  assumes "group_inv w" and "0 < srv_accepting w" and "srv_state w = SrvStart" and "srv_free w = i # free"
    and "wf_msg msg0"
  shows "refines_step hi (EvAccept EcOk (Some ep) msg0 tx0 rx0) w
    (gr_put (srv_alloc w) \<lparr>pr_ident = i, pr_hearing = Some AtHeader, pr_outbox = Some ([], [])\<rparr>
      ((group_of w)\<lparr>gr_registry := (gr_registry (group_of w))(i \<mapsto> srv_alloc w), gr_free := free,
         gr_next := srv_alloc w + 1\<rparr>))"
proof -
  let ?a = "srv_alloc w"
  let ?s = "newcomer w ep msg0 tx0 rx0"
  have inv: "srv_inv w" "ids_unique w" "group_ready w" using assms(1) by (simp_all add: group_inv_def)
  have sm: "smap_inv (srv_sessions w)" using inv(1) by (simp add: srv_inv_def registry_inv_def)
  obtain p w' where p: "m_ios p = m_ios (srv_pool w)"
    and run: "complete_accept (chat_env hi) EcOk (Some ep) msg0 tx0 rx0 w = Inr w'"
    and w': "w' = (put_session ?a ?s w)\<lparr>srv_free := free, srv_alloc := ?a + 1,
      srv_sessions := map_emplace i ?a (srv_sessions w), srv_socket := Some fresh_socket, srv_pool := p\<rparr>"
    using accept_runs[OF assms(1-4), of hi ep msg0 tx0 rx0] by blast
  have room: "length (srv_sessions w) < maxSession (srv_config w)"
    using full_iff_no_free[OF inv(1,2) assms(3)] assms(4) by (simp add: not_le[symmetric])
  have fresh: "map_find i (srv_sessions w) = None" and iu: "ids_unique w'"
    using chat_app.accept_allocates[OF inv(1,2) assms(5,2) _ room run] assms(3,4) by (auto simp: getSession_def)
  have get: "getSession j w' = (if j = i then Some ?a else getSession j w)" for j
    using fresh w' map_find_emplace[OF sm] by (auto simp: getSession_def)
  have pk: "peer_of ?s = \<lparr>pr_ident = i, pr_hearing = Some AtHeader, pr_outbox = Some ([], [])\<rparr>"
    using assms(4) by (simp add: peer_of_def hearing_of_def outbox_of_def stalled_def newcomer_def fresh_socket_def)
  have "group_of w' = gr_put ?a (peer_of ?s)
      ((group_of w)\<lparr>gr_registry := (gr_registry (group_of w))(i \<mapsto> ?a), gr_free := free, gr_next := ?a + 1\<rparr>)"
    using get by (auto simp: group_of_def gr_put_def w' put_session_def fun_eq_iff)
  moreover have "group_inv w'"
    unfolding group_inv_def
  proof (intro conjI allI impI)
    show "srv_inv w'" using chat_app.complete_accept_inv[OF inv(1) run assms(5)] .
    show "ids_unique w'" by (rule iu)
    show "group_ready w'" using inv(3) p by (simp add: w' group_ready_def)
    have new: "peer_ok ?s" "\<not> stalled ?s" by (simp_all add: peer_ok_def read_ok_def newcomer_def tx_inv_def stalled_def)
    show "peer_ok t" if "heap w' b = Some t" for b t
      using that assms(1) new by (auto simp: w' group_inv_def split: if_splits)
    show "\<not> stalled t" if "getSession j w' = Some b" "heap w' b = Some t" for j b t
      using that assms(1) new get by (auto simp: w' group_inv_def split: if_splits)
  qed
  ultimately show ?thesis using run pk unfolding refines_step_def by auto
qed

lemma accept_refines:
  assumes "group_inv w" and "group_step (EvAccept ec ep msg0 tx0 rx0) (group_of w) = Some g"
  shows "refines_step hi (EvAccept ec ep msg0 tx0 rx0) w g"
proof -
  have door: "0 < srv_accepting w" "wf_msg msg0" and acc: "group_accept ec ep (group_of w) = Some g"
    using assms(2) by (auto simp: group_of_def split: if_splits)
  have f: "gr_running (group_of w) \<longleftrightarrow> srv_state w = SrvStart" "gr_free (group_of w) = srv_free w"
    "gr_next (group_of w) = srv_alloc w" by (simp_all add: group_of_def)
  show ?thesis
  proof (cases "ec \<noteq> EcOk \<or> srv_state w \<noteq> SrvStart \<or> srv_free w = []")
    case True
    then have "g = (group_of w)\<lparr>gr_door := False\<rparr>" using acc f by (auto simp: group_accept_def)
    then show ?thesis using accept_drops[OF assms(1) door(1) True] by simp
  next
    case False
    then obtain i free ep' where i: "srv_free w = i # free" "ec = EcOk" "srv_state w = SrvStart" "ep = Some ep'"
      using acc by (cases "srv_free w"; cases ep) (auto simp: group_accept_def f)
    then show ?thesis
      using acc accept_joins[OF assms(1) door(1) i(3,1) door(2), of hi ep' tx0 rx0] f by (simp add: group_accept_def)
  qed
qed

subsection \<open>Stopping\<close>

lemma close_entries_run:
  assumes "\<forall>e \<in> set es. heap w (snd e) \<noteq> None"
  shows "\<exists>w'. fold_res close_entry es w = Inr w' \<and> srv_same w w' \<and> chat_redis w' = chat_redis w \<and>
    (\<forall>b. heap w' b = heap w b \<or> (\<exists>t. heap w b = Some t \<and> heap w' b = Some (session_close t)))"
  using assms
proof (induction es arbitrary: w)
  case (Cons e es)
  obtain t where t: "heap w (snd e) = Some t" using Cons.prems by auto
  let ?w1 = "put_session (snd e) (session_close t) w"
  have "\<forall>x \<in> set es. heap ?w1 (snd x) \<noteq> None" using Cons.prems by simp
  from Cons.IH[OF this] obtain w' where w': "fold_res close_entry es ?w1 = Inr w'" "srv_same ?w1 w'"
    "chat_redis w' = chat_redis ?w1"
    "\<forall>b. heap w' b = heap ?w1 b \<or> (\<exists>u. heap ?w1 b = Some u \<and> heap w' b = Some (session_close u))" by blast
  have "session_close (session_close t) = session_close t" by (simp add: session_close_def)
  then have "heap w' b = heap w b \<or> (\<exists>u. heap w b = Some u \<and> heap w' b = Some (session_close u))" for b
    using w'(4)[rule_format, of b] t by (cases "b = snd e") auto
  moreover have "srv_same w w'" using srv_same_trans[OF srv_same_put w'(2)] .
  moreover have "close_entry e w = Inr ?w1" "chat_redis ?w1 = chat_redis w"
    using t by (simp_all add: close_entry_def put_session_def)
  ultimately show ?case using w'(1,3) by simp
qed simp

lemma close_peer:
  "peer_of (session_close s) = peer_of s" "peer_ok (session_close s) = peer_ok s" "stalled (session_close s) = stalled s"
  using hearing_of_cong[of "session_close s" s]
  by (simp_all add: session_close_def peer_of_def outbox_of_def stalled_def peer_ok_def read_ok_def tx_inv_def)

lemma stop_refines:
  assumes "group_inv w" and "group_step EvStop (group_of w) = Some g"
  shows "refines_step hi EvStop w g"
proof (cases "srv_state w = SrvStart")
  case True
  have inv: "srv_inv w" "group_ready w" using assms(1) by (simp_all add: group_inv_def)
  then obtain acc where acc: "srv_acceptor w = Some acc" by (auto simp: group_ready_def)
  let ?w0 = "w\<lparr>srv_acceptor := Some (acc\<lparr>acc_open := False\<rparr>)\<rparr>"
  have sm: "smap_inv (srv_sessions w)" "registry_inv w" using inv(1) by (simp_all add: srv_inv_def registry_inv_def)
  have "heap ?w0 (snd e) \<noteq> None" if "e \<in> set (srv_sessions w)" for e
    using that map_find_iff[OF sm(1), of "fst e" "snd e"] registryD[OF sm(2), of "fst e" "snd e"] by auto
  then obtain w1 where w1: "fold_res close_entry (srv_sessions w) ?w0 = Inr w1" "srv_same ?w0 w1"
    "chat_redis w1 = chat_redis ?w0"
    "\<forall>b. heap w1 b = heap ?w0 b \<or> (\<exists>t. heap ?w0 b = Some t \<and> heap w1 b = Some (session_close t))"
    using close_entries_run[of "srv_sessions w" ?w0] by blast
  let ?w' = "w1\<lparr>srv_sessions := [], srv_free := [], srv_state := SrvStop\<rparr>"
  have run: "server_stop w = Inr ?w'" using True acc w1(1) by (simp add: server_stop_def)
  have peers: "map_option peer_of (heap w1 b) = map_option peer_of (heap w b)" for b
    using w1(4)[rule_format, of b] close_peer(1) by auto
  have "g = (group_of w)\<lparr>gr_registry := (\<lambda>_. None), gr_free := [], gr_running := False\<rparr>"
    using assms(2) True by (simp add: group_of_def)
  then have "group_of ?w' = g"
    using w1(2,3) peers by (simp add: group_of_def srv_same_def getSession_def fun_eq_iff)
  moreover have "peer_ok t" if "heap ?w' b = Some t" for b t
    using that w1(4)[rule_format, of b] assms(1) close_peer(2) by (auto simp: group_inv_def)
  moreover have "group_ready ?w'" using inv(2) w1(2) by (simp add: group_ready_def srv_same_def)
  ultimately show ?thesis
    using run server_stop_inv[OF inv(1) run]
    unfolding refines_step_def by (auto simp: group_inv_def ids_unique_def getSession_def)
next
  case False
  then show ?thesis
    using assms by (auto simp: refines_step_def server_stop_def group_of_def)
qed

lemma step_refines:
  assumes "group_inv w" and "group_step e (group_of w) = Some g"
  shows "refines_step hi e w g"
proof (cases e)
  case (EvAccept ec ep msg0 tx0 rx0)
  then show ?thesis using accept_refines[OF assms(1)] assms(2) by blast
next
  case (EvRead a ec chunk)
  then show ?thesis using read_refines[OF assms(1)] assms(2) by blast
next
  case (EvWrite a ec k)
  then show ?thesis using write_refines[OF assms(1)] assms(2) by blast
next
  case EvStop
  then show ?thesis using stop_refines[OF assms(1)] assms(2) by blast
qed

interpretation group_sim: forward_simulation "exec_event (chat_env hi)" group_step group_of group_inv for hi
  by unfold_locales (use step_refines in \<open>unfold refines_step_def, blast\<close>)

lemmas run_refines = group_sim.run_simulates

subsection \<open>Orderly events\<close>

text \<open>
  What the specification asks of the environment, in terms of the server: a peer that is going to be registered is
  still there; a successful read fills its buffer, and a header of the right version has no negative length; a text or
  a new user's name is terminated within its body; and a session whose body read or write fails is registered at
  that moment, that is, it has not reported its end before and the server has not been stopped.
\<close>

definition orderly_read :: "addr \<Rightarrow> error_code \<Rightarrow> bytes \<Rightarrow> TcpSession \<Rightarrow> chat_world \<Rightarrow> bool" where
  "orderly_read a ec chunk s w \<longleftrightarrow> (case s_reading s of
       [] \<Rightarrow> True
     | RdHeader n # rs \<Rightarrow> ec = EcOk \<longrightarrow> length chunk = n \<and>
         (hdr_version (header_of_bytes chunk) = 1 \<longrightarrow> 0 \<le> sint (hdr_bodyLength (header_of_bytes chunk)))
     | RdBody n # rs \<Rightarrow>
         if ec = EcOk then length chunk = n \<and> (msg_msgId (s_msg s) \<in> {1, 3} \<longrightarrow> 0 \<in> set chunk)
         else getSession (s_id s) w = Some a)"

fun orderly :: "srv_event \<Rightarrow> chat_world \<Rightarrow> bool" where
  "orderly (EvAccept ec peer msg0 tx0 rx0) w \<longleftrightarrow>
     (ec = EcOk \<and> srv_state w \<noteq> SrvStop \<and> srv_free w \<noteq> [] \<longrightarrow> peer \<noteq> None)"
| "orderly (EvRead a ec chunk) w \<longleftrightarrow> (case heap w a of None \<Rightarrow> False | Some s \<Rightarrow> orderly_read a ec chunk s w)"
| "orderly (EvWrite a ec k) w \<longleftrightarrow> (case heap w a of None \<Rightarrow> False
     | Some s \<Rightarrow> ec \<noteq> EcOk \<longrightarrow> getSession (s_id s) w = Some a)"
| "orderly EvStop w \<longleftrightarrow> True"

inductive orderly_run :: "hiredis \<Rightarrow> chat_world \<Rightarrow> chat_world \<Rightarrow> bool" for hi w0 where
  orderly_init: "orderly_run hi w0 w0"
| orderly_step: "orderly_run hi w0 w \<Longrightarrow> enabled e w \<Longrightarrow> orderly e w \<Longrightarrow> exec_event (chat_env hi) e w = Inr w' \<Longrightarrow>
    orderly_run hi w0 w'"

inductive_cases orderly_runE: "orderly_run hi w0 w"

lemma msgId_word: "msg_msgId m = 1 \<longleftrightarrow> hdr_msgId (msg_hdr m) = 1" "msg_msgId m = 3 \<longleftrightarrow> hdr_msgId (msg_hdr m) = 3"
  by (simp_all only: msg_msgId_def sint32_ids)

lemma orderly_read_described:
  assumes "group_inv w" and "enabled (EvRead a ec chunk) w" and "orderly (EvRead a ec chunk) w"
  shows "\<exists>g. group_step (EvRead a ec chunk) (group_of w) = Some g"
proof -
  obtain s r rs where s: "heap w a = Some s" and r: "s_reading s = r # rs" "length chunk \<le> read_size r"
    using assms(2) by (auto split: option.splits list.splits)
  have o: "orderly_read a ec chunk s w" using assms(3) s by simp
  note ok = group_inv_peer(1,2)[OF assms(1) s]
  have rs: "rs = []" using ok(1) r(1) by (simp add: sess_ok_def)
  show ?thesis
  proof (cases r)
    case (RdHeader n)
    then have "n = 8" "hearing_of s = Some AtHeader" using ok(2) r(1) rs by (auto simp: peer_ok_def read_ok_def hearing_of_def)
    then show ?thesis
      using o r RdHeader group_of_peer[OF s]
      by (auto simp: orderly_read_def group_read_def group_header_def)
  next
    case (RdBody n)
    then have n: "n = nat (sint (hdr_bodyLength (msg_hdr (s_msg s))))" "hearing_of s = Some (AtBody (msg_hdr (s_msg s)))"
      using ok(2) r(1) rs by (auto simp: peer_ok_def read_ok_def hearing_of_def msg_bodyLength_def)
    then show ?thesis
      using o r RdBody group_of_peer[OF s]
      by (auto simp: orderly_read_def group_read_def group_body_def group_member msgId_word strlen_def Let_def
          split: if_splits)
  qed
qed

lemma orderly_described:
  assumes "group_inv w" and "enabled e w" and "orderly e w"
  shows "\<exists>g. group_step e (group_of w) = Some g"
proof (cases e)
  case (EvAccept ec ep msg0 tx0 rx0)
  then show ?thesis using assms(2,3) by (auto simp: group_of_def group_accept_def)
next
  case (EvRead a ec chunk)
  then show ?thesis using orderly_read_described assms by blast
next
  case (EvWrite a ec k)
  then obtain s where s: "heap w a = Some s" "s_writing s \<noteq> []" and o: "ec \<noteq> EcOk \<longrightarrow> getSession (s_id s) w = Some a"
    using assms(2,3) by (auto split: option.splits)
  have "\<not> stalled s" "tx_inv s"
    using s(2) group_inv_peer(2)[OF assms(1) s(1)] by (auto simp: stalled_def peer_ok_def)
  then obtain m ms where "outbox_of s = Some (sock_out (s_socket s), msg_wire m # map msg_wire ms)"
    using s(2) by (cases "s_sendQue s") (auto simp: outbox_of_def tx_inv_def)
  then show ?thesis using o EvWrite group_of_peer[OF s(1)] by (simp add: group_write_def group_member)
qed simp

lemma orderly_run_inv: "orderly_run hi w0 w \<Longrightarrow> group_inv w0 \<Longrightarrow> group_inv w"
proof (induction rule: orderly_run.induct)
  case (orderly_step w e w')
  then obtain g where "group_step e (group_of w) = Some g" using orderly_described by blast
  with step_refines[of w e g hi] orderly_step show ?case by (auto simp: refines_step_def simp del: exec_event.simps)
qed

subsection \<open>The start\<close>

definition group_start :: "nat \<Rightarrow> string list \<Rightarrow> group" where
  "group_start n log = \<lparr>gr_peers = (\<lambda>_. None), gr_registry = (\<lambda>_. None), gr_free = map int [1..<n + 1], gr_next = 0,
     gr_door = True, gr_running = True, gr_redis = True, gr_log = log\<rparr>"

lemma boot_started:
  assumes "chat_boot hi os name config ip port = Inr w" and "srv_state w = SrvStart"
  shows "group_ready w" "srv_accepting w = 1" "srv_free w = map int [1..<maxSession config + 1]"
    "rd_context (chat_redis w) \<noteq> None"
proof -
  from assms(1) obtain w0 where w0: "ChatServer_new name config = Inr w0" and st: "chat_start hi os ip port w0 = Inr w"
    by (auto simp: chat_boot_def bind_res_eq_Inr)
  note new = ChatServer_new_inv[OF w0]
  obtain v where v: "TcpServer_new name config = Inr v" "srv_free w0 = srv_free v"
    by (rule ChatServer_new_cases[OF w0]) (simp add: that tcp_world.defs)
  have "map int [1..<maxSession config + 1] = map (\<lambda>j. 1 + int j) [0..<maxSession config]"
    by (simp add: map_Suc_upt[symmetric] o_def del: upt_Suc)
  then have free0: "srv_free w0 = map int [1..<maxSession config + 1]"
    using v by (auto simp: TcpServer_new_eq simp del: upt_Suc split: if_splits)
  from st obtain w1 where w1: "w1 = w0\<lparr>chat_redis := snd (Redis_connect hi ip (chat_redis w0)),
      srv_openedHandler := Some opened_name, srv_closedHandler := Some closed_name,
      srv_messageHandler := Some message_name\<rparr>"
    and ok: "fst (Redis_connect hi ip (chat_redis w0))" and l: "listen os (ip, word_of_int port) w1 = Inr w"
    by (cases rule: chat_start_cases) (use new assms(2) in auto)
  note e = listen_effect[OF l]
  show "srv_accepting w = 1" "srv_free w = map int [1..<maxSession config + 1]"
    using e(5,2) w1 new free0 by simp_all
  obtain i p where g: "getIoService (srv_pool w1) = Inr (i, p)"
    and sa: "startAccept (w1\<lparr>srv_pool := p, srv_acceptor := Some \<lparr>acc_endpoint = (ip, word_of_int port), acc_open = True\<rparr>,
      srv_state := SrvStart\<rparr>) = Inr w"
    by (rule listen_cases[OF l]) (rule that)
  from startAccept_cases[OF sa] w1 show "group_ready w"
    using listen_ready[OF l] e(5) new by (fastforce simp: group_ready_def chat_ready_def)
  from startAccept_cases[OF sa] w1 have "chat_redis w = snd (Redis_connect hi ip (chat_redis w0))" by fastforce
  then show "rd_context (chat_redis w) \<noteq> None"
    using ok by (auto simp: Redis_connect_def Let_def split: option.splits)
qed

lemma boot_group:
  assumes "chat_boot hi os name config ip port = Inr w" and "srv_state w = SrvStart"
  shows "group_inv w" "group_of w = group_start (maxSession config) (redis_log (chat_redis w))"
proof -
  note b = chat_boot_inv[OF assms(1)] and s = boot_started[OF assms]
  have h: "heap w a = None" for a
    using b by (cases "heap w a") (auto simp: srv_inv_def heap_inv_def)
  then show "group_inv w" using b s(1) by (simp add: group_inv_def)
  show "group_of w = group_start (maxSession config) (redis_log (chat_redis w))"
    using h b s(2-4) assms(2) by (simp add: group_of_def group_start_def getSession_def fun_eq_iff)
qed

subsection \<open>What members hear\<close>

text \<open>
  The log of a run: every text with its speaker and with the address the next newcomer would get, so that
  exactly the sessions at smaller addresses had joined when it was said.
\<close>

definition said :: "srv_event \<Rightarrow> group \<Rightarrow> (addr \<times> bytes) option" where
  "said e g = (case e of
       EvRead a ec chunk \<Rightarrow> (case gr_peers g a of None \<Rightarrow> None | Some p \<Rightarrow> (case pr_hearing p of
           Some (AtBody h) \<Rightarrow> if ec = EcOk \<and> hdr_msgId h = 3 then Some (a, header_bytes h @ chunk) else None
         | _ \<Rightarrow> None))
     | _ \<Rightarrow> None)"

fun chat_log :: "srv_event list \<Rightarrow> group \<Rightarrow> (addr \<times> addr \<times> bytes) list" where
  "chat_log [] g = []"
| "chat_log (e # es) g = (case said e g of None \<Rightarrow> [] | Some (a, bs) \<Rightarrow> [(gr_next g, a, bs)]) @
     (case group_step e g of None \<Rightarrow> [] | Some g' \<Rightarrow> chat_log es g')"

definition hears :: "addr \<Rightarrow> (addr \<times> addr \<times> bytes) list \<Rightarrow> bytes" where
  "hears b log = concat (map (\<lambda>(n, a, bs). if b < n \<and> a \<noteq> b then bs else []) log)"

definition outflow :: "peer \<Rightarrow> bytes" where
  "outflow p = (case pr_outbox p of None \<Rightarrow> [] | Some (sent, q) \<Rightarrow> sent @ concat q)"

definition stream_in :: "group \<Rightarrow> addr \<Rightarrow> bytes" where
  "stream_in g b = (case gr_peers g b of None \<Rightarrow> [] | Some p \<Rightarrow> outflow p)"

lemma stream_in_simps [simp]:
  "stream_in (gr_put a p g) b = (if b = a then outflow p else stream_in g b)"
  "stream_in (gr_leave i g) b = stream_in g b" "stream_in (gr_command cmd g) b = stream_in g b"
  "stream_in (g\<lparr>gr_door := d\<rparr>) b = stream_in g b" "stream_in (g\<lparr>gr_registry := r\<rparr>) b = stream_in g b"
  "stream_in (g\<lparr>gr_free := f\<rparr>) b = stream_in g b" "stream_in (g\<lparr>gr_next := n\<rparr>) b = stream_in g b"
  "stream_in (g\<lparr>gr_running := d\<rparr>) b = stream_in g b"
  "outflow (p\<lparr>pr_hearing := h\<rparr>) = outflow p"
  by (simp_all add: stream_in_def gr_put_def gr_leave_def gr_command_def outflow_def)

lemma gr_fields [simp]:
  "gr_registry (gr_put a p g) = gr_registry g" "gr_next (gr_put a p g) = gr_next g"
  "gr_registry (gr_command cmd g) = gr_registry g" "gr_next (gr_command cmd g) = gr_next g"
  "gr_registry (gr_broadcast a bs g) = gr_registry g" "gr_next (gr_broadcast a bs g) = gr_next g"
  "gr_registry (gr_leave i g) = (gr_registry g)(i := None)" "gr_next (gr_leave i g) = gr_next g"
  "gr_peers (gr_put a p g) = (gr_peers g)(a \<mapsto> p)" "gr_peers (gr_leave i g) = gr_peers g"
  "gr_peers (gr_command cmd g) = gr_peers g"
  by (simp_all add: gr_put_def gr_command_def gr_broadcast_def gr_leave_def)

text \<open>
  Peers lie below the next address; registered ones carry their identifier and have an outbox; free
  identifiers are not registered.
\<close>

definition group_wf :: "group \<Rightarrow> bool" where
  "group_wf g \<longleftrightarrow> (\<forall>a p. gr_peers g a = Some p \<longrightarrow> a < gr_next g) \<and>
     (\<forall>i b. gr_registry g i = Some b \<longrightarrow> (\<exists>p. gr_peers g b = Some p \<and> pr_ident p = i \<and> pr_outbox p \<noteq> None)) \<and>
     (\<forall>i \<in> set (gr_free g). gr_registry g i = None)"

lemma group_wf_of: "group_inv w \<Longrightarrow> group_wf (group_of w)"
proof -
  assume inv: "group_inv w"
  have "\<exists>s. heap w b = Some s \<and> s_id s = i \<and> \<not> stalled s" if "getSession i w = Some b" for i b
    using inv that registryD[of w i b] unfolding group_inv_def srv_inv_def getSession_def by blast
  moreover have "a < srv_alloc w" if "heap w a = Some s" for a s using group_inv_peer(3)[OF inv that] .
  moreover have "getSession i w = None" if "i \<in> set (srv_free w)" for i
    using inv that sm.keys_find[of "srv_sessions w" i]
    by (auto simp: group_inv_def ids_unique_def getSession_def srv_inv_def registry_inv_def map_keys_def)
  ultimately show ?thesis by (fastforce simp: group_wf_def group_of_def peer_of_def outbox_of_def)
qed

lemma stream_in_broadcast:
  assumes "gr_registry g i = Some b" and "gr_peers g b = Some p" and "pr_ident p = i" and "pr_outbox p \<noteq> None"
  shows "stream_in (gr_broadcast a bs g) b = stream_in g b @ (if a \<noteq> b then bs else [])"
  using assms by (auto simp: stream_in_def gr_broadcast_def gr_member_def post_def outflow_def)

lemma stream_in_absent: "group_wf g \<Longrightarrow> gr_next g \<le> b \<Longrightarrow> stream_in g b = [] \<and> gr_peers g b = None"
  by (cases "gr_peers g b") (auto simp: group_wf_def stream_in_def)

text \<open>One step: a member of the result was a member before or has just joined, and its stream grew by what was said.\<close>

definition heard_now :: "srv_event \<Rightarrow> group \<Rightarrow> addr \<Rightarrow> bytes" where
  "heard_now e g b = (case said e g of None \<Rightarrow> [] | Some (a, bs) \<Rightarrow> if b < gr_next g \<and> a \<noteq> b then bs else [])"

lemma read_heard:
  assumes "group_wf g" and "group_read a ec chunk g = Some g'" and "gr_registry g' i = Some b"
  shows "gr_registry g i = Some b \<and> gr_next g' = gr_next g \<and>
    stream_in g' b = stream_in g b @ heard_now (EvRead a ec chunk) g b"
proof -
  obtain p x where p: "gr_peers g a = Some p" and x: "pr_hearing p = Some x"
    using assms(2) by (auto simp: group_read_def split: option.splits)
  have out: "outflow p = stream_in g a" using p by (simp add: stream_in_def)
  have reg: "gr_registry g i = Some b \<and> gr_next g' = gr_next g"
    using assms(2,3) p x
    by (auto simp: group_read_def group_header_def group_body_def Let_def split: hearing.splits if_splits sum.splits)
  then obtain q where q: "gr_peers g b = Some q" "pr_ident q = i" "pr_outbox q \<noteq> None" "b < gr_next g"
    using assms(1) unfolding group_wf_def by blast
  show ?thesis
  proof (cases "\<exists>h. x = AtBody h \<and> ec = EcOk \<and> hdr_msgId h = 3")
    case True
    then obtain h n where h: "x = AtBody h" "ec = EcOk" "hdr_msgId h = 3"
      and g': "g' = gr_broadcast a (header_bytes h @ chunk) (gr_command (zincrby_cmd (int n) (pr_ident p))
        (gr_put a (p\<lparr>pr_hearing := Some AtHeader\<rparr>) g))"
      using assms(2) p x by (auto simp: group_read_def group_body_def Let_def split: if_splits sum.splits)
    let ?g = "gr_command (zincrby_cmd (int n) (pr_ident p)) (gr_put a (p\<lparr>pr_hearing := Some AtHeader\<rparr>) g)"
    have "\<exists>q'. gr_peers ?g b = Some q' \<and> pr_ident q' = i \<and> pr_outbox q' \<noteq> None" using p q by auto
    then have "stream_in g' b = stream_in g b @ (if a \<noteq> b then header_bytes h @ chunk else [])"
      using stream_in_broadcast[of ?g i b] reg out unfolding g' by (auto simp del: append_assoc)
    then show ?thesis using reg h p x q(4) by (simp add: heard_now_def said_def)
  next
    case False
    then have "heard_now (EvRead a ec chunk) g b = []"
      using p x by (auto simp: heard_now_def said_def split: hearing.splits)
    moreover have "stream_in g' b = stream_in g b"
      using assms(2) False p x out
      by (auto simp: group_read_def group_header_def group_body_def Let_def split: hearing.splits if_splits sum.splits)
    ultimately show ?thesis using reg by simp
  qed
qed

lemma write_heard:
  assumes "group_wf g" and "group_write a ec g = Some g'" and "gr_registry g' i = Some b"
  shows "gr_registry g i = Some b \<and> gr_next g' = gr_next g \<and> stream_in g' b = stream_in g b"
proof -
  obtain p sent bs q where p: "gr_peers g a = Some p" "pr_outbox p = Some (sent, bs # q)"
    using assms(2) by (auto simp: group_write_def split: option.splits list.splits)
  show ?thesis
  proof (cases "ec = EcOk")
    case True
    then have "g' = gr_put a (p\<lparr>pr_outbox := Some (sent @ bs, q)\<rparr>) g" using assms(2) p by (simp add: group_write_def)
    then show ?thesis using assms(3) p by (simp add: stream_in_def outflow_def)
  next
    case False
    then have g': "g' = gr_leave (pr_ident p) (gr_put a (p\<lparr>pr_outbox := None\<rparr>) g)"
      using assms(2) p by (auto simp: group_write_def split: if_splits)
    then have i: "gr_registry g i = Some b" "i \<noteq> pr_ident p" using assms(3) by (auto split: if_splits)
    then have "b \<noteq> a" using assms(1) p(1) unfolding group_wf_def by fastforce
    then show ?thesis using g' i by simp
  qed
qed

lemma accept_heard:
  assumes "group_wf g" and "group_accept ec ep g = Some g'" and "gr_registry g' i = Some b"
  shows "(b < gr_next g \<longrightarrow> gr_registry g i = Some b) \<and> stream_in g' b = stream_in g b"
proof (cases "ec \<noteq> EcOk \<or> \<not> gr_running g \<or> gr_free g = []")
  case True
  then show ?thesis using assms(2,3) by (auto simp: group_accept_def)
next
  case False
  then have g': "g' = gr_put (gr_next g) \<lparr>pr_ident = hd (gr_free g), pr_hearing = Some AtHeader, pr_outbox = Some ([], [])\<rparr>
        (g\<lparr>gr_registry := (gr_registry g)(hd (gr_free g) \<mapsto> gr_next g), gr_free := tl (gr_free g), gr_next := gr_next g + 1\<rparr>)"
    using assms(2) by (auto simp: group_accept_def split: if_splits)
  then show ?thesis
    using assms(3) stream_in_absent[OF assms(1), of "gr_next g"] by (auto simp: outflow_def split: if_splits)
qed

lemma step_next: "group_step e g = Some g' \<Longrightarrow> gr_next g \<le> gr_next g'"
  by (cases e) (auto simp: group_accept_def group_read_def group_write_def group_header_def group_body_def Let_def
      split: option.splits hearing.splits if_splits sum.splits list.splits)

lemma step_heard:
  assumes "group_wf g" and "group_step e g = Some g'" and "group_wf g'"
    and "gr_registry g' i = Some b \<or> gr_next g' \<le> b"
  shows "(gr_registry g' i = Some b \<longrightarrow> b < gr_next g \<longrightarrow> gr_registry g i = Some b) \<and>
    stream_in g' b = stream_in g b @ heard_now e g b"
proof (cases "gr_next g' \<le> b")
  case True
  then have "gr_next g \<le> b" using step_next[OF assms(2)] by simp
  then show ?thesis
    using True stream_in_absent[OF assms(1)] stream_in_absent[OF assms(3)]
    by (simp add: heard_now_def split: option.splits)
next
  case False
  then have r: "gr_registry g' i = Some b" using assms(4) by simp
  show ?thesis
  proof (cases e)
    case (EvAccept ec ep msg0 tx0 rx0)
    then have "group_accept ec ep g = Some g'" "heard_now e g b = []"
      using assms(2) by (auto simp: heard_now_def said_def split: if_splits)
    then show ?thesis using accept_heard[OF assms(1) _ r] by auto
  next
    case (EvRead a ec chunk)
    then show ?thesis using read_heard[OF assms(1) _ r] assms(2) by auto
  next
    case (EvWrite a ec k)
    then have "heard_now e g b = []" by (simp add: heard_now_def said_def)
    then show ?thesis using write_heard[OF assms(1) _ r] assms(2) EvWrite by auto
  next
    case EvStop
    then show ?thesis using assms(2) r by (auto simp: heard_now_def said_def split: if_splits)
  qed
qed

lemma run_heard:
  assumes "group_inv w" and "group_run es (group_of w) = Some g" and "gr_registry g i = Some b"
  shows "(b < gr_next (group_of w) \<longrightarrow> gr_registry (group_of w) i = Some b) \<and>
    stream_in g b = stream_in (group_of w) b @ hears b (chat_log es (group_of w))"
  using assms
proof (induction es arbitrary: w)
  case Nil
  then show ?case by (simp add: hears_def)
next
  case (Cons e es)
  obtain g1 where g1: "group_step e (group_of w) = Some g1" "group_run es g1 = Some g"
    using Cons.prems(2) by (auto split: option.splits)
  obtain w1 where w1: "group_of w1 = g1" "group_inv w1"
    using group_sim.simulate[OF Cons.prems(1) g1(1), of demo_hi] by blast
  have IH: "b < gr_next g1 \<longrightarrow> gr_registry g1 i = Some b" "stream_in g b = stream_in g1 b @ hears b (chat_log es g1)"
    using Cons.IH[OF w1(2)] w1(1) g1(2) Cons.prems(3) by auto
  note wf = group_wf_of[OF Cons.prems(1)] group_wf_of[OF w1(2), unfolded w1(1)]
  have s: "gr_registry g1 i = Some b \<longrightarrow> b < gr_next (group_of w) \<longrightarrow> gr_registry (group_of w) i = Some b"
    "stream_in g1 b = stream_in (group_of w) b @ heard_now e (group_of w) b"
    using step_heard[OF wf(1) g1(1) wf(2), of i b] IH(1) by (meson not_le)+
  have "hears b (chat_log (e # es) (group_of w)) = heard_now e (group_of w) b @ hears b (chat_log es g1)"
    using g1(1) by (auto simp: hears_def heard_now_def split: option.splits)
  then show ?case using IH s step_next[OF g1(1)] by simp
qed

subsection \<open>Sessions whose peer hung up\<close>

definition hung_up :: "int \<Rightarrow> addr \<Rightarrow> group \<Rightarrow> bool" where
  "hung_up i a g \<longleftrightarrow> gr_registry g i = Some a \<and>
     (\<exists>p. gr_peers g a = Some p \<and> pr_ident p = i \<and> pr_hearing p = None)"

text \<open>Only a failed write to it, or a stop, takes such a session out of the registry.\<close>

definition spares :: "addr \<Rightarrow> srv_event \<Rightarrow> bool" where
  "spares a e \<longleftrightarrow> (case e of EvStop \<Rightarrow> False | EvWrite b ec k \<Rightarrow> b = a \<longrightarrow> ec = EcOk | _ \<Rightarrow> True)"

lemma hung_up_broadcast: "hung_up i a g \<Longrightarrow> hung_up i a (gr_broadcast b bs g)"
proof -
  assume "hung_up i a g"
  then obtain p where "gr_registry g i = Some a" "gr_peers g a = Some p" "pr_ident p = i" "pr_hearing p = None"
    by (auto simp: hung_up_def)
  then show ?thesis by (simp add: hung_up_def gr_broadcast_def post_def)
qed

lemma hung_up_command: "hung_up i a g \<Longrightarrow> hung_up i a (gr_command cmd g)"
  by (simp add: hung_up_def)

lemma hung_up_put: "hung_up i a g \<Longrightarrow> b \<noteq> a \<Longrightarrow> hung_up i a (gr_put b p g)"
  by (simp add: hung_up_def)

lemma hung_up_leave: "hung_up i a g \<Longrightarrow> j \<noteq> i \<Longrightarrow> hung_up i a (gr_leave j g)"
  by (simp add: hung_up_def)

lemmas hung_up_intros = hung_up_broadcast hung_up_command hung_up_put hung_up_leave

lemma hung_up_step:
  assumes "group_wf g" and "group_step e g = Some g'" and "hung_up i a g" and "spares a e"
  shows "hung_up i a g'"
proof (cases e)
  case (EvAccept ec ep msg0 tx0 rx0)
  have "a \<noteq> gr_next g" "gr_free g \<noteq> [] \<Longrightarrow> hd (gr_free g) \<noteq> i"
    using assms(1,3) hd_in_set[of "gr_free g"] unfolding group_wf_def hung_up_def by fastforce+
  then show ?thesis
    using assms(2,3) EvAccept by (auto simp: group_accept_def hung_up_def split: if_splits)
next
  case (EvRead b ec chunk)
  then obtain p x where p: "gr_peers g b = Some p" "pr_hearing p = Some x"
    using assms(2) by (auto simp: group_read_def split: option.splits)
  then have "b \<noteq> a" "gr_member b p g \<Longrightarrow> pr_ident p \<noteq> i" using assms(3) by (auto simp: hung_up_def gr_member_def)
  then show ?thesis
    using assms(2,3) EvRead p
    by (auto simp: group_read_def group_header_def group_body_def Let_def intro!: hung_up_intros
        split: hearing.splits if_splits sum.splits)
next
  case (EvWrite b ec k)
  then obtain p sent bs q where p: "gr_peers g b = Some p" "pr_outbox p = Some (sent, bs # q)"
    using assms(2) by (auto simp: group_write_def split: option.splits list.splits)
  show ?thesis
  proof (cases "b = a")
    case True
    then show ?thesis using assms(2-4) EvWrite p by (auto simp: group_write_def spares_def hung_up_def)
  next
    case False
    then have "gr_member b p g \<Longrightarrow> pr_ident p \<noteq> i" using assms(3) by (auto simp: hung_up_def gr_member_def)
    then show ?thesis
      using assms(2,3) EvWrite p False by (auto simp: group_write_def intro!: hung_up_intros split: if_splits)
  qed
next
  case EvStop
  then show ?thesis using assms(4) by (simp add: spares_def)
qed

lemma hung_up_run:
  assumes "group_inv w" and "group_run es (group_of w) = Some g" and "hung_up i a (group_of w)"
    and "\<forall>e \<in> set es. spares a e"
  shows "hung_up i a g"
  by (rule group_sim.run_keeps[where P = "hung_up i a" and Q = "spares a", OF assms])
    (use hung_up_step group_wf_of in blast)

lemma member_stream:
  assumes "group_inv w" and "getSession i w = Some b"
  obtains t where "heap w b = Some t" "s_id t = i" "stream_of t = stream_in (group_of w) b"
proof -
  obtain t where t: "heap w b = Some t" "s_id t = i"
    using assms registryD[of w i b] unfolding group_inv_def srv_inv_def getSession_def by blast
  have "\<not> stalled t" using assms t(1) unfolding group_inv_def by blast
  then have "stream_of t = stream_in (group_of w) b"
    using t(1) by (simp add: stream_in_def group_of_def outflow_def outbox_of_def stream_of_def)
  then show ?thesis using that t by blast
qed

subsection \<open>Properties\<close>

lemma boot_run:
  assumes "chat_boot hi os name config ip port = Inr w0" and "getState w0 = SrvStart"
    and "group_run es (group_start (maxSession config) (redis_log (chat_redis w0))) = Some g"
  obtains w where "fold_res (exec_event (chat_env hi)) es w0 = Inr w" "group_of w = g" "group_inv w"
  using run_refines[of w0 es g hi] boot_group[OF assms(1)] assms(2,3) by (auto simp: getState_def)

text \<open>
  C2. The chat server implements the group specification. From a boot that listens, every sequence of
  completions of accepts, reads, writes, with failures, and stops, that the specification describes
  runs on the server without a fault and leads to the state the specification computes, seen through
  the abstraction: who is registered under which identifier, which identifiers are free, what each
  session waits for, what it was sent and what waits in its queue, whether the server still accepts and
  runs, and the commands sent to Redis. No identifier is free twice or free and registered.
\<close>

theorem chat_server_refines_group:
  assumes "chat_boot hi os name config ip port = Inr w0" and "getState w0 = SrvStart"
    and "group_run es (group_start (maxSession config) (redis_log (chat_redis w0))) = Some g"
  shows "\<exists>w. fold_res (exec_event (chat_env hi)) es w0 = Inr w \<and> group_of w = g \<and> ids_unique w"
proof -
  obtain w where "fold_res (exec_event (chat_env hi)) es w0 = Inr w" "group_of w = g" "group_inv w"
    by (rule boot_run[OF assms])
  then show ?thesis unfolding group_inv_def by blast
qed

text \<open>
  Two clients connect; the first announces a text and a third connection is refused while the text is
  on its way; the body arrives, the second client gets it, and the first one hangs up.
\<close>

definition demo_peer :: "endpoint option" where
  "demo_peer = Some (''10.0.0.1'', 4000)"

definition hey_header :: cpMsgHeader_t where
  "hey_header = \<lparr>hdr_version = 1, hdr_result = 0, hdr_bodyLength = 3, hdr_msgId = 3\<rparr>"

definition hey_events :: "srv_event list" where
  "hey_events = [EvAccept EcOk demo_peer zero_msg 0 0, EvAccept EcOk demo_peer zero_msg 0 0,
     EvRead 0 EcOk (header_bytes hey_header), EvAccept EcOk demo_peer zero_msg 0 0, EvRead 0 EcOk [72, 105, 0],
     EvWrite 1 EcOk 11, EvRead 0 EcEof []]"

definition hey_group :: group where
  "hey_group = \<lparr>gr_peers = [0 \<mapsto> \<lparr>pr_ident = 1, pr_hearing = None, pr_outbox = Some ([], [])\<rparr>,
       1 \<mapsto> \<lparr>pr_ident = 2, pr_hearing = Some AtHeader, pr_outbox = Some (header_bytes hey_header @ [72, 105, 0], [])\<rparr>],
     gr_registry = [1 \<mapsto> 0, 2 \<mapsto> 1], gr_free = [], gr_next = 2, gr_door = False, gr_running = True,
     gr_redis = True, gr_log = [zincrby_cmd 2 1]\<rparr>"

lemma hey_sint: "sint (3 :: 16 word) = 3"
  by simp

lemma hey_run: "group_run hey_events (group_start 2 []) = Some hey_group"
proof -
  have "wf_msg zero_msg" by (simp add: wf_msg_def zero_msg_def)
  moreover have "map int [1..<2 + 1] = [1, 2]" by (simp add: upt_rec)
  ultimately show ?thesis
    by (simp add: hey_events_def group_start_def demo_peer_def group_accept_def group_read_def group_header_def
        group_body_def group_write_def gr_put_def gr_broadcast_def gr_command_def gr_member_def post_def Let_def
        hey_header_def hey_sint strlen_def hey_group_def fun_eq_iff)
qed

lemma demo_start:
  "group_start (maxSession demo_config) (redis_log (chat_redis demo_chat)) = group_start 2 []" "getState demo_chat = SrvStart"
  by (simp_all add: demo_chat_def redis_log_def demo_config_def getState_def)

lemmas demo_run = hey_run[folded demo_start(1)]

theorem chat_server_refines_group_witness:
  "\<exists>w. fold_res (exec_event (chat_env demo_hi)) hey_events demo_chat = Inr w \<and> group_of w = hey_group"
  using chat_server_refines_group[OF demo_boot demo_start(2) demo_run] by blast

text \<open>
  C3. Members agree on what was said. After any run the specification describes, from a boot that listens,
  with clients joining, failing and leaving at any point, one log explains every registered session: the
  bytes written to it and waiting for it are exactly the texts the others said since it joined, in the
  order of the log. Texts of sessions that have left since are included, and its own are not.
\<close>

theorem chat_members_agree:
  assumes "chat_boot hi os name config ip port = Inr w0" and "getState w0 = SrvStart"
    and "group_run es (group_start (maxSession config) (redis_log (chat_redis w0))) = Some g"
  shows "\<exists>w. fold_res (exec_event (chat_env hi)) es w0 = Inr w \<and>
    (\<forall>i b. getSession i w = Some b \<longrightarrow> (\<exists>t. heap w b = Some t \<and> getID t = i \<and>
       stream_of t = hears b (chat_log es (group_start (maxSession config) (redis_log (chat_redis w0))))))"
proof -
  obtain w where w: "fold_res (exec_event (chat_env hi)) es w0 = Inr w" "group_of w = g" "group_inv w"
    by (rule boot_run[OF assms])
  note b = boot_group[OF assms(1)] assms(2)
  have "\<exists>t. heap w b = Some t \<and> getID t = i \<and>
      stream_of t = hears b (chat_log es (group_start (maxSession config) (redis_log (chat_redis w0))))"
    if r: "getSession i w = Some b" for i b
  proof -
    obtain t where t: "heap w b = Some t" "s_id t = i" "stream_of t = stream_in (group_of w) b"
      by (rule member_stream[OF w(3) r])
    have "gr_registry g i = Some b" using r w(2) by (auto simp: group_of_def)
    with run_heard[of w0 es g i b] have "stream_in g b = stream_in (group_of w0) b @ hears b (chat_log es (group_of w0))"
      using b assms(2,3) by (simp add: getState_def)
    then show ?thesis using t w(2) b assms(2) by (simp add: getID_def stream_in_def group_start_def getState_def)
  qed
  then show ?thesis using w(1) by blast
qed

lemma hey_log: "chat_log hey_events (group_start 2 []) = [(2, 0, header_bytes hey_header @ [72, 105, 0])]"
proof -
  have "wf_msg zero_msg" by (simp add: wf_msg_def zero_msg_def)
  moreover have "map int [1..<2 + 1] = [1, 2]" by (simp add: upt_rec)
  ultimately show ?thesis
    by (simp add: hey_events_def group_start_def demo_peer_def group_accept_def group_read_def group_header_def
        group_body_def group_write_def gr_put_def gr_broadcast_def gr_command_def gr_member_def post_def Let_def
        hey_header_def hey_sint strlen_def said_def)
qed

theorem chat_members_agree_witness:
  "\<exists>w t0 t1. fold_res (exec_event (chat_env demo_hi)) hey_events demo_chat = Inr w \<and>
     getSession 1 w = Some 0 \<and> heap w 0 = Some t0 \<and> stream_of t0 = [] \<and>
     getSession 2 w = Some 1 \<and> heap w 1 = Some t1 \<and> stream_of t1 = header_bytes hey_header @ [72, 105, 0]"
proof -
  obtain w where w: "fold_res (exec_event (chat_env demo_hi)) hey_events demo_chat = Inr w"
    and all: "\<forall>i b. getSession i w = Some b \<longrightarrow> (\<exists>t. heap w b = Some t \<and> getID t = i \<and>
      stream_of t = hears b (chat_log hey_events (group_start 2 [])))"
    using chat_members_agree[OF demo_boot demo_start(2) demo_run] unfolding demo_start(1) by blast
  have "group_of w = hey_group"
    by (rule boot_run[OF demo_boot demo_start(2) demo_run]) (simp add: w)
  then have r: "getSession 1 w = Some 0" "getSession 2 w = Some 1"
    by (auto simp: group_of_def hey_group_def fun_eq_iff)
  have "hears 0 (chat_log hey_events (group_start 2 [])) = []"
    "hears 1 (chat_log hey_events (group_start 2 [])) = header_bytes hey_header @ [72, 105, 0]"
    by (simp_all add: hey_log hears_def)
  then show ?thesis using w r all[rule_format, OF r(1)] all[rule_format, OF r(2)] by auto
qed

text \<open>
  C26. A client that hangs up between messages is never missed. Once its session has no read left, it stays
  registered through every further run, as long as no write to it fails and the server is not stopped: its
  identifier stays taken, it is never read again, and everything the others say is queued for it.
\<close>

theorem hung_up_stays_registered:
  assumes "chat_boot hi os name config ip port = Inr w0" and "getState w0 = SrvStart"
    and "group_run es (group_start (maxSession config) (redis_log (chat_redis w0))) = Some g" and "hung_up i a g"
    and "group_run later g = Some g'" and "\<forall>e \<in> set later. spares a e"
  shows "\<exists>w t. fold_res (exec_event (chat_env hi)) (es @ later) w0 = Inr w \<and> getSession i w = Some a \<and>
    heap w a = Some t \<and> getID t = i \<and> s_reading t = [] \<and> stream_of t = stream_in g a @ hears a (chat_log later g)"
proof -
  obtain w where w: "fold_res (exec_event (chat_env hi)) es w0 = Inr w" "group_of w = g" "group_inv w"
    by (rule boot_run[OF assms(1-3)])
  obtain w' where w': "fold_res (exec_event (chat_env hi)) later w = Inr w'" "group_of w' = g'" "group_inv w'"
    using run_refines[OF w(3), of later g' hi] assms(5) w(2) by blast
  have h: "hung_up i a g'" using hung_up_run[OF w(3)] assms(4-6) w(2) by blast
  then have r: "getSession i w' = Some a" using w'(2) by (auto simp: hung_up_def group_of_def)
  obtain t where t: "heap w' a = Some t" "s_id t = i" "stream_of t = stream_in (group_of w') a"
    by (rule member_stream[OF w'(3) r])
  have "hearing_of t = None" using h t(1) w'(2) by (auto simp: hung_up_def group_of_def)
  then have "s_reading t = []" by (auto simp: hearing_of_def split: list.splits read_op.splits)
  moreover have "stream_in g' a = stream_in g a @ hears a (chat_log later g)"
    using run_heard[OF w(3)] assms(5) w(2) h by (auto simp: hung_up_def)
  ultimately show ?thesis using w(1) w'(1,2) r t by (auto simp: fold_res_append getID_def)
qed

definition more_events :: "srv_event list" where
  "more_events = [EvRead 1 EcOk (header_bytes hey_header), EvRead 1 EcOk [72, 105, 0]]"

theorem hung_up_stays_registered_witness:
  "\<exists>w t. fold_res (exec_event (chat_env demo_hi)) (hey_events @ more_events) demo_chat = Inr w \<and>
     getSession 1 w = Some 0 \<and> heap w 0 = Some t \<and> s_reading t = [] \<and>
     stream_of t = header_bytes hey_header @ [72, 105, 0]"
proof -
  have h: "hung_up 1 0 hey_group" by (simp add: hung_up_def hey_group_def)
  have s: "\<forall>e \<in> set more_events. spares 0 e" by (simp add: more_events_def spares_def)
  have "\<exists>g'. group_run more_events hey_group = Some g'"
    by (simp add: more_events_def hey_group_def group_read_def group_header_def group_body_def gr_put_def Let_def
        hey_header_def hey_sint strlen_def)
  then obtain g' where g': "group_run more_events hey_group = Some g'" by blast
  have "stream_in hey_group 0 = []" by (simp add: stream_in_def hey_group_def outflow_def)
  moreover have "hears 0 (chat_log more_events hey_group) = header_bytes hey_header @ [72, 105, 0]"
    by (simp add: more_events_def hey_group_def group_read_def group_header_def group_body_def gr_put_def Let_def
        hey_header_def hey_sint strlen_def said_def hears_def)
  ultimately show ?thesis
    using hung_up_stays_registered[OF demo_boot demo_start(2) demo_run h g' s] by auto
qed

text \<open>
  C4. An orderly environment never makes the server fail. In every state reached from a boot that listens by
  orderly completions, every further orderly completion that can occur is handled without a fault and
  as the group specification says. Orderly means: a peer that is going to be registered is still there; successful
  reads fill their buffer; a header of version 1 has a length that is not negative; texts and new users' names are
  terminated within their body; and a session whose body read or write fails is registered at that moment, so it has
  not reported its end before and the server has not been stopped.
\<close>

theorem orderly_server_never_faults:
  assumes "chat_boot hi os name config ip port = Inr w0" and "getState w0 = SrvStart"
    and "orderly_run hi w0 w" and "enabled e w" and "orderly e w"
  shows "\<exists>w'. exec_event (chat_env hi) e w = Inr w' \<and> group_step e (group_of w) = Some (group_of w') \<and> ids_unique w'"
proof -
  have inv: "group_inv w" using orderly_run_inv[OF assms(3)] boot_group(1)[OF assms(1)] assms(2) by (simp add: getState_def)
  then obtain g where g: "group_step e (group_of w) = Some g" using orderly_described assms(4,5) by blast
  with step_refines[OF inv g, of hi] show ?thesis unfolding refines_step_def group_inv_def by auto
qed

theorem orderly_server_never_faults_witness:
  "\<exists>w'. exec_event (chat_env demo_hi) (EvAccept EcOk demo_peer zero_msg 0 0) demo_chat = Inr w' \<and>
     gr_registry (group_of w') 1 = Some 0"
proof -
  have "enabled (EvAccept EcOk demo_peer zero_msg 0 0) demo_chat" "orderly (EvAccept EcOk demo_peer zero_msg 0 0) demo_chat"
    by (simp_all add: demo_chat_def demo_peer_def wf_msg_def zero_msg_def)
  from orderly_server_never_faults[OF demo_boot demo_start(2) orderly_init this] obtain w' where
    w': "exec_event (chat_env demo_hi) (EvAccept EcOk demo_peer zero_msg 0 0) demo_chat = Inr w'"
      "group_step (EvAccept EcOk demo_peer zero_msg 0 0) (group_of demo_chat) = Some (group_of w')" by blast
  have "map_option (\<lambda>g. gr_registry g 1) (group_step (EvAccept EcOk demo_peer zero_msg 0 0) (group_of demo_chat)) = Some (Some 0)"
    by (simp add: group_accept_def group_of_def demo_chat_def demo_peer_def wf_msg_def zero_msg_def)
  then show ?thesis using w' by simp
qed

end
