(* ===== verification/Com_Util.thy ===== *)
theory Com_Util
  imports Torinet_Prelude
begin

unbundle bit_operations_syntax

text \<open>
  The helpers of \<open>include/com.h\<close> between \<open>#if 0\<close> and \<open>#endif\<close>: byte swapping and packing of
  integers, the conversion of capture timestamps, range checks, and the keys and hash functors of
  flow and fragment tables. The section is switched off in the build; it is modelled because it
  is self-contained. Addresses and endpoints are Boost's: they are a type parameter with Boost's
  total order, and an argument \<open>view\<close> tells which of the three cases of the functors an address is
  in and with which bytes. \<open>boost::hash_combine\<close> is the argument \<open>combine\<close>.
\<close>

subsection \<open>Integers\<close>

definition swap64 :: "64 word \<Rightarrow> 64 word" where
  "swap64 a =
     drop_bit 56 (a AND 0xff00000000000000) OR
     drop_bit 40 (a AND 0x00ff000000000000) OR
     drop_bit 24 (a AND 0x0000ff0000000000) OR
     drop_bit 8 (a AND 0x000000ff00000000) OR
     push_bit 8 (a AND 0x00000000ff000000) OR
     push_bit 24 (a AND 0x0000000000ff0000) OR
     push_bit 40 (a AND 0x000000000000ff00) OR
     push_bit 56 (a AND 0x00000000000000ff)"

definition htonll :: "64 word \<Rightarrow> 64 word" where "htonll a = swap64 a"
definition ntohll :: "64 word \<Rightarrow> 64 word" where "ntohll a = swap64 a"

definition mask64 :: "32 word \<Rightarrow> 32 word \<Rightarrow> 64 word" where
  "mask64 a b = push_bit 32 (ucast a) OR ucast b"

definition upper32 :: "64 word \<Rightarrow> 32 word" where "upper32 k = ucast (drop_bit 32 k)"
definition lower32 :: "64 word \<Rightarrow> 32 word" where "lower32 k = ucast (k AND 0xffffffff)"

definition mask32 :: "16 word \<Rightarrow> 16 word \<Rightarrow> 32 word" where
  "mask32 a b = push_bit 16 (ucast a) OR ucast b"

definition upper16 :: "32 word \<Rightarrow> 16 word" where "upper16 k = ucast (drop_bit 16 k)"
definition lower16 :: "32 word \<Rightarrow> 16 word" where "lower16 k = ucast (k AND 0x0000ffff)"

text \<open>The four bytes of an IPv4 address in host order, most significant first, and its text.\<close>

definition ip_octets :: "32 word \<Rightarrow> bytes" where
  "ip_octets ip = [ucast (drop_bit 24 (ip AND 0xff000000)), ucast (drop_bit 16 (ip AND 0x00ff0000)),
     ucast (drop_bit 8 (ip AND 0x0000ff00)), ucast (ip AND 0x000000ff)]"

definition ip2str :: "32 word \<Rightarrow> string" where
  "ip2str ip = (let p = ip_octets ip in
     to_string (uint (p ! 0)) @ ''.'' @ to_string (uint (p ! 1)) @ ''.'' @
     to_string (uint (p ! 2)) @ ''.'' @ to_string (uint (p ! 3)))"

text \<open>
  \<open>get_unix_time(erfts)\<close>: 32 bits of seconds and 32 bits of binary fraction to microseconds. The
  fields of \<open>timeval\<close> are 64-bit integers.
\<close>

definition get_unix_time :: "64 word \<Rightarrow> 64 word" where
  "get_unix_time erfts =
     (let sec = drop_bit 32 erfts;
          lts = (erfts AND 0xffffffff) * 1000 * 1000;
          lts' = lts + push_bit 1 (lts AND 0x80000000);
          usec = drop_bit 32 lts';
          (sec', usec') = (if usec \<ge> 1000000 then (sec + 1, usec - 1000000) else (sec, usec))
      in sec' * 1000000 + usec')"

subsection \<open>Range checks\<close>

definition chk_shm_size :: "int \<Rightarrow> bool" where "chk_shm_size n \<longleftrightarrow> n \<ge> 1 \<and> n \<le> 32"
definition chk_erf_size :: "int \<Rightarrow> bool" where "chk_erf_size n \<longleftrightarrow> n \<ge> 100 \<and> n \<le> 1000"
definition chk_http_tmout :: "int \<Rightarrow> bool" where
  "chk_http_tmout n \<longleftrightarrow> n \<ge> 100 \<and> n \<le> 60000 \<and> n mod 100 = 0"
definition chk_svc_elaps :: "int \<Rightarrow> bool" where "chk_svc_elaps n \<longleftrightarrow> n \<ge> 10 \<and> n \<le> 3600"
definition chk_adr_dir :: "string \<Rightarrow> bool" where "chk_adr_dir d \<longleftrightarrow> d \<noteq> [] \<and> length d \<le> 255"
definition chk_erf_dir :: "string \<Rightarrow> bool" where "chk_erf_dir d \<longleftrightarrow> d \<noteq> [] \<and> length d \<le> 255"
definition chk_svc_dur :: "int \<Rightarrow> bool" where
  "chk_svc_dur n \<longleftrightarrow> n \<noteq> 0 \<and> n mod 10 = 0 \<and> n \<le> 100"
definition chk_svc_vol :: "int \<Rightarrow> bool" where "chk_svc_vol n \<longleftrightarrow> n \<ge> 1 \<and> n \<le> 4294967295"

subsection \<open>Keys\<close>

text \<open>Each key with its comparison operators, as the source writes them.\<close>

datatype 'e ip_key = IpKey (ip_src: 'e) (ip_dst: 'e)

definition ip_key_less :: "'e::linorder ip_key \<Rightarrow> 'e ip_key \<Rightarrow> bool" where
  "ip_key_less j k = (if ip_src j \<noteq> ip_src k then ip_src j < ip_src k else ip_dst j < ip_dst k)"

definition ip_key_eq :: "'e ip_key \<Rightarrow> 'e ip_key \<Rightarrow> bool" where
  "ip_key_eq j k \<longleftrightarrow> ip_src j = ip_src k \<and> ip_dst j = ip_dst k"

definition ip_key_neq :: "'e ip_key \<Rightarrow> 'e ip_key \<Rightarrow> bool" where
  "ip_key_neq j k \<longleftrightarrow> ip_src j \<noteq> ip_src k \<or> ip_dst j \<noteq> ip_dst k"

datatype 'e sctp_frag_key = SctpFragKey (sctp_src: 'e) (sctp_dst: 'e) (sctp_id: "64 word")

definition sctp_frag_key_less :: "'e::linorder sctp_frag_key \<Rightarrow> 'e sctp_frag_key \<Rightarrow> bool" where
  "sctp_frag_key_less j k =
     (if sctp_src j \<noteq> sctp_src k then sctp_src j < sctp_src k
      else if sctp_dst j \<noteq> sctp_dst k then sctp_dst j < sctp_dst k
      else sctp_id j < sctp_id k)"

definition sctp_frag_key_eq :: "'e sctp_frag_key \<Rightarrow> 'e sctp_frag_key \<Rightarrow> bool" where
  "sctp_frag_key_eq j k \<longleftrightarrow>
     sctp_src j = sctp_src k \<and> sctp_dst j = sctp_dst k \<and> sctp_id j = sctp_id k"

definition sctp_frag_key_neq :: "'e sctp_frag_key \<Rightarrow> 'e sctp_frag_key \<Rightarrow> bool" where
  "sctp_frag_key_neq j k \<longleftrightarrow>
     sctp_src j \<noteq> sctp_src k \<or> sctp_dst j \<noteq> sctp_dst k \<or> sctp_id j \<noteq> sctp_id k"

datatype 'a ip_frag_key = IpFragKey (frag_src: 'a) (frag_dst: 'a) (frag_id: "32 word")

definition ip_frag_key_less :: "'a::linorder ip_frag_key \<Rightarrow> 'a ip_frag_key \<Rightarrow> bool" where
  "ip_frag_key_less j k =
     (if frag_src j \<noteq> frag_src k then frag_src j < frag_src k
      else if frag_dst j \<noteq> frag_dst k then frag_dst j < frag_dst k
      else frag_id j < frag_id k)"

definition ip_frag_key_eq :: "'a ip_frag_key \<Rightarrow> 'a ip_frag_key \<Rightarrow> bool" where
  "ip_frag_key_eq j k \<longleftrightarrow>
     frag_src j = frag_src k \<and> frag_dst j = frag_dst k \<and> frag_id j = frag_id k"

datatype wui64_key = Wui64Key (imsi: "64 word")

definition wui64_key_less :: "wui64_key \<Rightarrow> wui64_key \<Rightarrow> bool" where
  "wui64_key_less j k \<longleftrightarrow> imsi j < imsi k"

definition wui64_key_eq :: "wui64_key \<Rightarrow> wui64_key \<Rightarrow> bool" where
  "wui64_key_eq j k \<longleftrightarrow> imsi j = imsi k"

definition wui64_key_to_string :: "wui64_key \<Rightarrow> string" where
  "wui64_key_to_string k = ''imsi['' @ to_string (uint (imsi k)) @ ''] ''"

subsection \<open>Hash functors\<close>

datatype addr_view = AddrV4 bytes | AddrV6 bytes | AddrOther string

datatype hash_item = HashByte byte | HashText string | HashPort "16 word" | HashId "64 word"
  | HashId32 "32 word"

text \<open>The branch over an address that every functor repeats.\<close>

definition hash_address :: "('s \<Rightarrow> hash_item \<Rightarrow> 's) \<Rightarrow> addr_view \<Rightarrow> 's \<Rightarrow> 's" where
  "hash_address combine v seed = (case v of
       AddrV4 bt \<Rightarrow> foldl (\<lambda>s b. combine s (HashByte b)) seed bt
     | AddrV6 bt \<Rightarrow> foldl (\<lambda>s b. combine s (HashByte b)) seed bt
     | AddrOther t \<Rightarrow> combine seed (HashText t))"

definition ip_1_hash :: "('s \<Rightarrow> hash_item \<Rightarrow> 's) \<Rightarrow> 's \<Rightarrow> ('a \<Rightarrow> addr_view) \<Rightarrow> 'a \<Rightarrow> 's" where
  "ip_1_hash combine zero view k = hash_address combine (view k) zero"

definition ip_2_hash ::
  "('s \<Rightarrow> hash_item \<Rightarrow> 's) \<Rightarrow> 's \<Rightarrow> ('e \<Rightarrow> addr_view) \<Rightarrow> ('e \<Rightarrow> 16 word) \<Rightarrow> 'e \<Rightarrow> 's" where
  "ip_2_hash combine zero view port k =
     combine (hash_address combine (view k) zero) (HashPort (port k))"

definition ip_4_hash ::
  "('s \<Rightarrow> hash_item \<Rightarrow> 's) \<Rightarrow> 's \<Rightarrow> ('e \<Rightarrow> addr_view) \<Rightarrow> ('e \<Rightarrow> 16 word) \<Rightarrow> 'e ip_key \<Rightarrow> 's" where
  "ip_4_hash combine zero view port k =
     (let s1 = hash_address combine (view (ip_src k)) zero;
          s2 = combine s1 (HashPort (port (ip_src k)));
          s3 = hash_address combine (view (ip_dst k)) s2
      in combine s3 (HashPort (port (ip_dst k))))"

definition sctp_frag_hash ::
  "('s \<Rightarrow> hash_item \<Rightarrow> 's) \<Rightarrow> 's \<Rightarrow> ('e \<Rightarrow> addr_view) \<Rightarrow> ('e \<Rightarrow> 16 word) \<Rightarrow> 'e sctp_frag_key \<Rightarrow> 's" where
  "sctp_frag_hash combine zero view port k =
     (let s1 = hash_address combine (view (sctp_src k)) zero;
          s2 = combine s1 (HashPort (port (sctp_src k)));
          s3 = hash_address combine (view (sctp_dst k)) s2;
          s4 = combine s3 (HashPort (port (sctp_dst k)))
      in combine s4 (HashId (sctp_id k)))"

text \<open>This functor asks only whether an address is IPv4; \<open>to_v6\<close> throws on anything else.\<close>

definition hash_address_v6 ::
  "('s \<Rightarrow> hash_item \<Rightarrow> 's) \<Rightarrow> addr_view \<Rightarrow> 's \<Rightarrow> 's res" where
  "hash_address_v6 combine v seed = (case v of
       AddrOther t \<Rightarrow> Inl SystemError
     | _ \<Rightarrow> Inr (hash_address combine v seed))"

definition ip_frag_hash ::
  "('s \<Rightarrow> hash_item \<Rightarrow> 's) \<Rightarrow> 's \<Rightarrow> ('a \<Rightarrow> addr_view) \<Rightarrow> 'a ip_frag_key \<Rightarrow> 's res" where
  "ip_frag_hash combine zero view k =
     bind_res (hash_address_v6 combine (view (frag_src k)) zero) (\<lambda>s1.
     bind_res (hash_address_v6 combine (view (frag_dst k)) s1) (\<lambda>s2.
       Inr (combine s2 (HashId32 (frag_id k)))))"

definition wui64_hash :: "('s \<Rightarrow> hash_item \<Rightarrow> 's) \<Rightarrow> 's \<Rightarrow> wui64_key \<Rightarrow> 's" where
  "wui64_hash combine zero k = combine zero (HashId (imsi k))"

subsection \<open>Addresses, endpoints and the construction of keys\<close>

text \<open>
  \<open>mk\<close> is Boost's address constructor, which takes the bytes of an IPv4 or IPv6 address, and
  \<open>mkep\<close> its endpoint constructor. The IPv6 overloads read sixteen bytes behind a pointer.
\<close>

definition get_addr_v4 :: "(addr_view \<Rightarrow> 'a) \<Rightarrow> 32 word \<Rightarrow> 'a" where
  "get_addr_v4 mk ip = mk (AddrV4 (ip_octets ip))"

definition get_addr_v6 :: "(addr_view \<Rightarrow> 'a) \<Rightarrow> bytes \<Rightarrow> 'a res" where
  "get_addr_v6 mk ip = (if length ip < 16 then Inl OverRead else Inr (mk (AddrV6 (take 16 ip))))"

definition get_ep_v4 :: "(addr_view \<Rightarrow> 'a) \<Rightarrow> ('a \<Rightarrow> 16 word \<Rightarrow> 'e) \<Rightarrow> 32 word \<Rightarrow> 16 word \<Rightarrow> 'e" where
  "get_ep_v4 mk mkep ip port = mkep (get_addr_v4 mk ip) port"

definition get_ep_v6 ::
  "(addr_view \<Rightarrow> 'a) \<Rightarrow> ('a \<Rightarrow> 16 word \<Rightarrow> 'e) \<Rightarrow> bytes \<Rightarrow> 16 word \<Rightarrow> 'e res" where
  "get_ep_v6 mk mkep ip port = bind_res (get_addr_v6 mk ip) (\<lambda>a. Inr (mkep a port))"

definition ip_key_set_v4 ::
  "(addr_view \<Rightarrow> 'a) \<Rightarrow> ('a \<Rightarrow> 16 word \<Rightarrow> 'e) \<Rightarrow> 32 word \<Rightarrow> 32 word \<Rightarrow> 16 word \<Rightarrow> 16 word \<Rightarrow> 'e ip_key" where
  "ip_key_set_v4 mk mkep s d sp dp = IpKey (get_ep_v4 mk mkep s sp) (get_ep_v4 mk mkep d dp)"

definition ip_key_set_v6 ::
  "(addr_view \<Rightarrow> 'a) \<Rightarrow> ('a \<Rightarrow> 16 word \<Rightarrow> 'e) \<Rightarrow> bytes \<Rightarrow> bytes \<Rightarrow> 16 word \<Rightarrow> 16 word \<Rightarrow> 'e ip_key res" where
  "ip_key_set_v6 mk mkep s d sp dp =
     bind_res (get_ep_v6 mk mkep s sp) (\<lambda>src. bind_res (get_ep_v6 mk mkep d dp) (\<lambda>dst. Inr (IpKey src dst)))"

definition ip_key_set_address :: "('a \<Rightarrow> 16 word \<Rightarrow> 'e) \<Rightarrow> 'a \<Rightarrow> 'a \<Rightarrow> 16 word \<Rightarrow> 16 word \<Rightarrow> 'e ip_key" where
  "ip_key_set_address mkep s d sp dp = IpKey (mkep s sp) (mkep d dp)"

definition ip_key_set_ep :: "'e \<Rightarrow> 'e \<Rightarrow> 'e ip_key" where
  "ip_key_set_ep s d = IpKey s d"

text \<open>The identifier of a fragment is 16, 32 or 64 bits wide at the call and widened to 64.\<close>

definition sctp_frag_key_set_v4 ::
  "(addr_view \<Rightarrow> 'a) \<Rightarrow> ('a \<Rightarrow> 16 word \<Rightarrow> 'e) \<Rightarrow> 32 word \<Rightarrow> 32 word \<Rightarrow> 16 word \<Rightarrow> 16 word \<Rightarrow> 16 word
     \<Rightarrow> 'e sctp_frag_key" where
  "sctp_frag_key_set_v4 mk mkep s d sp dp i =
     SctpFragKey (get_ep_v4 mk mkep s sp) (get_ep_v4 mk mkep d dp) (ucast i)"

definition sctp_frag_key_set_v6 ::
  "(addr_view \<Rightarrow> 'a) \<Rightarrow> ('a \<Rightarrow> 16 word \<Rightarrow> 'e) \<Rightarrow> bytes \<Rightarrow> bytes \<Rightarrow> 16 word \<Rightarrow> 16 word \<Rightarrow> 32 word
     \<Rightarrow> 'e sctp_frag_key res" where
  "sctp_frag_key_set_v6 mk mkep s d sp dp i =
     bind_res (get_ep_v6 mk mkep s sp) (\<lambda>src. bind_res (get_ep_v6 mk mkep d dp) (\<lambda>dst.
       Inr (SctpFragKey src dst (ucast i))))"

definition sctp_frag_key_set_v6_wide ::
  "(addr_view \<Rightarrow> 'a) \<Rightarrow> ('a \<Rightarrow> 16 word \<Rightarrow> 'e) \<Rightarrow> bytes \<Rightarrow> bytes \<Rightarrow> 16 word \<Rightarrow> 16 word \<Rightarrow> 64 word
     \<Rightarrow> 'e sctp_frag_key res" where
  "sctp_frag_key_set_v6_wide mk mkep s d sp dp i =
     bind_res (get_ep_v6 mk mkep s sp) (\<lambda>src. bind_res (get_ep_v6 mk mkep d dp) (\<lambda>dst.
       Inr (SctpFragKey src dst i)))"

definition sctp_frag_key_set_address ::
  "('a \<Rightarrow> 16 word \<Rightarrow> 'e) \<Rightarrow> 'a \<Rightarrow> 'a \<Rightarrow> 16 word \<Rightarrow> 16 word \<Rightarrow> 32 word \<Rightarrow> 'e sctp_frag_key" where
  "sctp_frag_key_set_address mkep s d sp dp i = SctpFragKey (mkep s sp) (mkep d dp) (ucast i)"

definition sctp_frag_key_set_ep16 :: "'e \<Rightarrow> 'e \<Rightarrow> 16 word \<Rightarrow> 'e sctp_frag_key" where
  "sctp_frag_key_set_ep16 s d i = SctpFragKey s d (ucast i)"

definition sctp_frag_key_set_ep32 :: "'e \<Rightarrow> 'e \<Rightarrow> 32 word \<Rightarrow> 'e sctp_frag_key" where
  "sctp_frag_key_set_ep32 s d i = SctpFragKey s d (ucast i)"

definition sctp_frag_key_set_ep64 :: "'e \<Rightarrow> 'e \<Rightarrow> 64 word \<Rightarrow> 'e sctp_frag_key" where
  "sctp_frag_key_set_ep64 s d i = SctpFragKey s d i"

definition ip_frag_key_set_v4 :: "(addr_view \<Rightarrow> 'a) \<Rightarrow> 32 word \<Rightarrow> 32 word \<Rightarrow> 16 word \<Rightarrow> 'a ip_frag_key" where
  "ip_frag_key_set_v4 mk s d i = IpFragKey (get_addr_v4 mk s) (get_addr_v4 mk d) (ucast i)"

definition ip_frag_key_set_v6 :: "(addr_view \<Rightarrow> 'a) \<Rightarrow> bytes \<Rightarrow> bytes \<Rightarrow> 32 word \<Rightarrow> 'a ip_frag_key res" where
  "ip_frag_key_set_v6 mk s d i =
     bind_res (get_addr_v6 mk s) (\<lambda>src. bind_res (get_addr_v6 mk d) (\<lambda>dst. Inr (IpFragKey src dst i)))"

definition ip_frag_key_set_address :: "'a \<Rightarrow> 'a \<Rightarrow> 32 word \<Rightarrow> 'a ip_frag_key" where
  "ip_frag_key_set_address s d i = IpFragKey s d i"

text \<open>
  The texts of the keys are formatted into 256 bytes on the stack; \<open>text\<close> is Boost's
  \<open>address::to_string\<close>. \<open>%08x\<close> prints at least eight digits, which a 32-bit number never exceeds.
\<close>

definition sprintf_to :: "nat \<Rightarrow> string \<Rightarrow> string res" where
  "sprintf_to cap s = (if length s < cap then Inr s else Inl BufferOverflow)"

definition hex_char :: "nat \<Rightarrow> char" where
  "hex_char d = (if d < 10 then char_of (48 + d) else char_of (87 + d))"

definition hex08 :: "32 word \<Rightarrow> string" where
  "hex08 w = map (\<lambda>k. hex_char (unat (drop_bit (4 * k) w AND 0xf))) [7, 6, 5, 4, 3, 2, 1, 0]"

definition endpoint_text :: "('e \<Rightarrow> string) \<Rightarrow> ('e \<Rightarrow> 16 word) \<Rightarrow> 'e \<Rightarrow> string" where
  "endpoint_text text port e = text e @ ''('' @ to_string (uint (port e)) @ '')''"

definition ip_key_to_string :: "('e \<Rightarrow> string) \<Rightarrow> ('e \<Rightarrow> 16 word) \<Rightarrow> 'e ip_key \<Rightarrow> string res" where
  "ip_key_to_string text port k = sprintf_to 256
     (''src='' @ endpoint_text text port (ip_src k) @ '',dst='' @ endpoint_text text port (ip_dst k))"

definition sctp_frag_key_to_string ::
  "('e \<Rightarrow> string) \<Rightarrow> ('e \<Rightarrow> 16 word) \<Rightarrow> 'e sctp_frag_key \<Rightarrow> string res" where
  "sctp_frag_key_to_string text port k = sprintf_to 256
     (''src='' @ endpoint_text text port (sctp_src k) @ '',dst='' @ endpoint_text text port (sctp_dst k)
      @ '',id('' @ to_string (uint (sctp_id k)) @ '')'')"

definition ip_frag_key_to_string :: "('a \<Rightarrow> string) \<Rightarrow> 'a ip_frag_key \<Rightarrow> string res" where
  "ip_frag_key_to_string text k = sprintf_to 256
     (''src='' @ text (frag_src k) @ '',dst='' @ text (frag_dst k) @ '',id=0x'' @ hex08 (frag_id k))"

subsection \<open>The keys are linearly ordered by their operators\<close>

instantiation ip_key :: (linorder) linorder
begin

definition less_ip_key :: "'a ip_key \<Rightarrow> 'a ip_key \<Rightarrow> bool" where
  "less_ip_key j k = ip_key_less j k"

definition less_eq_ip_key :: "'a ip_key \<Rightarrow> 'a ip_key \<Rightarrow> bool" where
  "less_eq_ip_key j k = (ip_key_less j k \<or> j = k)"

instance
  by standard
    (auto simp: less_ip_key_def less_eq_ip_key_def ip_key_less_def split: if_splits,
      metis ip_key.expand not_less_iff_gr_or_eq)

end

instantiation sctp_frag_key :: (linorder) linorder
begin

definition less_sctp_frag_key :: "'a sctp_frag_key \<Rightarrow> 'a sctp_frag_key \<Rightarrow> bool" where
  "less_sctp_frag_key j k = sctp_frag_key_less j k"

definition less_eq_sctp_frag_key :: "'a sctp_frag_key \<Rightarrow> 'a sctp_frag_key \<Rightarrow> bool" where
  "less_eq_sctp_frag_key j k = (sctp_frag_key_less j k \<or> j = k)"

instance
  by standard
    (auto simp: less_sctp_frag_key_def less_eq_sctp_frag_key_def sctp_frag_key_less_def split: if_splits,
      metis sctp_frag_key.expand not_less_iff_gr_or_eq)

end

instantiation ip_frag_key :: (linorder) linorder
begin

definition less_ip_frag_key :: "'a ip_frag_key \<Rightarrow> 'a ip_frag_key \<Rightarrow> bool" where
  "less_ip_frag_key j k = ip_frag_key_less j k"

definition less_eq_ip_frag_key :: "'a ip_frag_key \<Rightarrow> 'a ip_frag_key \<Rightarrow> bool" where
  "less_eq_ip_frag_key j k = (ip_frag_key_less j k \<or> j = k)"

instance
  by standard
    (auto simp: less_ip_frag_key_def less_eq_ip_frag_key_def ip_frag_key_less_def split: if_splits,
      metis ip_frag_key.expand not_less_iff_gr_or_eq)

end

instantiation wui64_key :: linorder
begin

definition less_wui64_key :: "wui64_key \<Rightarrow> wui64_key \<Rightarrow> bool" where
  "less_wui64_key j k = wui64_key_less j k"

definition less_eq_wui64_key :: "wui64_key \<Rightarrow> wui64_key \<Rightarrow> bool" where
  "less_eq_wui64_key j k = (wui64_key_less j k \<or> j = k)"

instance
  by standard
    (auto simp: less_wui64_key_def less_eq_wui64_key_def wui64_key_less_def,
      metis wui64_key.expand not_less_iff_gr_or_eq)

end

subsection \<open>Lemmas on the integers\<close>

lemma and_field: "a AND push_bit n (mask k) = push_bit n (take_bit k (drop_bit n (a :: 64 word)))"
  by (rule bit_word_eqI) (auto simp: bit_simps)

lemma byte_masks:
  "(0xff00000000000000 :: 64 word) = push_bit 56 (mask 8)"
  "(0x00ff000000000000 :: 64 word) = push_bit 48 (mask 8)"
  "(0x0000ff0000000000 :: 64 word) = push_bit 40 (mask 8)"
  "(0x000000ff00000000 :: 64 word) = push_bit 32 (mask 8)"
  "(0x00000000ff000000 :: 64 word) = push_bit 24 (mask 8)"
  "(0x0000000000ff0000 :: 64 word) = push_bit 16 (mask 8)"
  "(0x000000000000ff00 :: 64 word) = push_bit 8 (mask 8)"
  "(0x00000000000000ff :: 64 word) = push_bit 0 (mask 8)"
  by (simp_all add: mask_eq_exp_minus_1 push_bit_eq_mult)

lemma bit_swap64_at:
  assumes "k < 8" and "r < 8"
  shows "bit (swap64 a) (8 * k + r) = bit a (8 * (7 - k) + r)"
proof -
  from assms(1) have "k \<in> {0, 1, 2, 3, 4, 5, 6, 7}" by auto
  then show ?thesis
    unfolding swap64_def byte_masks and_field
    using assms(2) by (elim insertE emptyE) (simp_all add: bit_simps)
qed

lemma bit_swap64: "bit (swap64 a) n \<longleftrightarrow> n < 64 \<and> bit a (8 * (7 - n div 8) + n mod 8)"
proof (cases "n < 64")
  case True
  then have "n div 8 < 8" "n mod 8 < 8" by auto
  from bit_swap64_at[OF this, of a] True show ?thesis by simp
next
  case False
  then show ?thesis using bit_imp_le_length[of "swap64 a" n] by auto
qed

lemma swap64_involution: "swap64 (swap64 a) = a"
proof (rule bit_word_eqI)
  fix n
  assume n: "n < LENGTH(64)"
  then have "n div 8 < 8" by auto
  then have "(8 * (7 - n div 8) + n mod 8) div 8 = 7 - n div 8" "7 - (7 - n div 8) = n div 8"
    by auto
  with n show "bit (swap64 (swap64 a)) n = bit a n"
    by (auto simp: bit_swap64)
qed

lemma swap64_byte: 
  assumes "k < 8" shows "(ucast (drop_bit (8 * k) (swap64 a)) :: byte) = ucast (drop_bit (8 * (7 - k)) a)"
proof (rule bit_word_eqI)
  fix r
  assume "r < LENGTH(8)"
  then show "bit (ucast (drop_bit (8 * k) (swap64 a)) :: byte) r = bit (ucast (drop_bit (8 * (7 - k)) a) :: byte) r"
    using bit_swap64_at[OF assms, of r a] assms by (auto simp: bit_simps)
qed

lemma halves: "upper32 (mask64 x y) = x" "lower32 (mask64 x y) = y" "mask64 (upper32 a) (lower32 a) = a"
   "upper16 (mask32 u v) = u" "lower16 (mask32 u v) = v"
proof -
  have m: "(0xffffffff :: 64 word) = mask 32" "(0xffff :: 32 word) = mask 16" by (simp_all add: mask_eq_exp_minus_1)
  have hi: "32 \<le> n \<Longrightarrow> \<not> bit y n" "16 \<le> n \<Longrightarrow> \<not> bit v n" for n
    using bit_imp_le_length[of y n] bit_imp_le_length[of v n] by auto
  show "upper32 (mask64 x y) = x" "lower32 (mask64 x y) = y" "mask64 (upper32 a) (lower32 a) = a"
   "upper16 (mask32 u v) = u" "lower16 (mask32 u v) = v"
  unfolding upper32_def mask64_def lower32_def upper16_def mask32_def lower16_def m
  by (rule bit_word_eqI, auto simp: bit_simps hi)+
qed

lemma half_up:
  assumes "0 \<le> (x :: int)"
  shows "(x + (x div 2 ^ 31 mod 2) * 2 ^ 32) div 2 ^ 32 = (x + 2 ^ 31) div 2 ^ 32"
proof -
  define y r where "y = x div 2 ^ 31" and "r = x mod 2 ^ 31"
  have x: "x = 2 ^ 31 * y + r" "0 \<le> r" "r < 2 ^ 31" by (simp_all add: y_def r_def)
  have "(2 ^ 31 * z + r) div 2 ^ 32 = z div 2" for z :: int
  proof -
    have "(2 ^ 31 * z + r) div 2 ^ 31 = z" using x(2,3) by simp
    then have "((2 ^ 31 * z + r) div 2 ^ 31) div 2 = z div 2" by simp
    then show ?thesis by (simp add: zdiv_zmult2_eq[symmetric])
  qed
  from this[of "y + (y mod 2) * 2"] this[of "y + 1"]
  have "(x + (y mod 2) * 2 ^ 32) div 2 ^ 32 = (y + (y mod 2) * 2) div 2"
    "(x + 2 ^ 31) div 2 ^ 32 = (y + 1) div 2"
    unfolding x(1) by (simp_all add: algebra_simps)
  moreover have "(y + (y mod 2) * 2) div 2 = (y + 1) div 2" by presburger
  ultimately show ?thesis by (simp add: y_def)
qed

lemma uint_high: "uint (drop_bit 32 (t :: 64 word)) = uint t div 2 ^ 32"
  by (simp add: drop_bit_eq_div uint_div)

lemma uint_low: "uint ((t :: 64 word) AND 0xffffffff) = uint t mod 2 ^ 32"
proof -
  have "t AND 0xffffffff = take_bit 32 t" by (simp add: take_bit_eq_mask mask_eq_exp_minus_1)
  then show ?thesis by (simp add: take_bit_eq_mod uint_mod)
qed

lemma uint_mult_small:
  "uint (a :: 64 word) * uint b < 2 ^ 64 \<Longrightarrow> uint (a * b) = uint a * uint b"
  by (simp add: uint_word_ariths)

lemma uint_bit31: "uint ((t :: 64 word) AND 0x80000000) = uint t div 2 ^ 31 mod 2 * 2 ^ 31"
proof -
  have m: "(0x80000000 :: 64 word) = push_bit 31 (mask 1)" by (simp add: push_bit_eq_mult)
  have e: "uint (t AND 0x80000000) = uint (push_bit 31 (take_bit 1 (drop_bit 31 t)))"
    unfolding m and_field by (rule refl)
  have x: "uint (take_bit 1 (drop_bit 31 t)) = uint t div 2 ^ 31 mod 2"
    by (simp add: take_bit_eq_mod drop_bit_eq_div uint_div uint_mod)
  have "push_bit 31 (take_bit 1 (drop_bit 31 t)) = take_bit 1 (drop_bit 31 t) * 0x80000000"
    by (simp add: push_bit_eq_mult)
  then show ?thesis
    using e x uint_mult_small[of "take_bit 1 (drop_bit 31 t)" "0x80000000"] by simp
qed

lemma uint_add_small:
  "uint (a :: 64 word) + uint b < 2 ^ 64 \<Longrightarrow> uint (a + b) = uint a + uint b"
  by (simp add: uint_word_ariths)

lemma get_unix_time_eq: "uint (get_unix_time t) = (uint t * 1000000 + 2 ^ 31) div 2 ^ 32"
proof -
  define s f where "s = uint t div 2 ^ 32" and "f = uint t mod 2 ^ 32"
  have t: "uint t = s * 2 ^ 32 + f" by (simp add: s_def f_def)
  have sf: "0 \<le> s" "s < 2 ^ 32" "0 \<le> f" "f < 2 ^ 32"
    using uint_lt2p[of t] uint_ge_0[of t] unfolding s_def f_def by (simp_all add: div_int_pos_iff)
  have u1: "uint ((t AND 0xffffffff) * 1000) = f * 1000"
    using uint_mult_small[of "t AND 0xffffffff" 1000] sf by (simp add: uint_low f_def)
  define L where "L = (t AND 0xffffffff) * 1000 * 1000"
  have lts: "uint L = f * 1000000"
    using uint_mult_small[of "(t AND 0xffffffff) * 1000" 1000] sf u1 by (simp add: L_def)
  define q where "q = f * 1000000 div 2 ^ 31 mod 2"
  have q: "0 \<le> q" "q \<le> 1" by (simp_all add: q_def)
  define P where "P = push_bit 1 (L AND 0x80000000)"
  have bit31: "uint (L AND 0x80000000) = q * 2 ^ 31" by (simp only: uint_bit31 lts q_def)
  have "P = (L AND 0x80000000) * 2" by (simp add: P_def push_bit_eq_mult)
  then have b: "uint P = q * 2 ^ 32"
    using uint_mult_small[of "L AND 0x80000000" 2] q bit31 by simp
  have lts': "uint (L + P) = f * 1000000 + q * 2 ^ 32"
    using uint_add_small[of L P] lts b sf q by simp
  define u where "u = (f * 1000000 + 2 ^ 31) div 2 ^ 32"
  define D S where "D = drop_bit 32 (L + P)" and "S = drop_bit 32 t"
  have usec: "uint D = u"
    using half_up[of "f * 1000000"] sf by (simp only: D_def uint_high lts' q_def u_def)
  have u: "0 \<le> u" "u \<le> 1000000" using sf unfolding u_def by (simp_all add: div_int_pos_iff)
  have sec: "uint S = s" by (simp only: S_def uint_high s_def)
  have total: "(uint t * 1000000 + 2 ^ 31) div 2 ^ 32 = s * 1000000 + u"
    unfolding t u_def by (simp add: algebra_simps)
  have ge: "1000000 \<le> D \<longleftrightarrow> 1000000 \<le> u"
    using usec by (simp only: word_le_def) simp
  have res: "uint (a * 1000000 + b) = uint a * 1000000 + uint b"
    if "uint a \<le> 2 ^ 32" "uint b \<le> 1000000" for a b :: "64 word"
    using uint_mult_small[of a 1000000] uint_add_small[of "a * 1000000" b] that by simp
  have eq: "get_unix_time t =
      (if D \<ge> 1000000 then (S + 1) * 1000000 + (D - 1000000) else S * 1000000 + D)"
    unfolding D_def S_def P_def L_def get_unix_time_def Let_def
    by (simp only: prod.case split: if_split) blast
  show ?thesis
  proof (cases "1000000 \<le> u")
    case True
    then have "u = 1000000" using u by simp
    with usec have "D = 1000000" by (simp add: word_uint_eq_iff)
    moreover have "uint (S + 1) = s + 1"
      using uint_add_small[of "S" 1] sec sf by simp
    ultimately show ?thesis
      using res[of "S + 1" 0] sf \<open>u = 1000000\<close> total
      by (simp add: eq)
  next
    case False
    then show ?thesis
      using res[of "S" "D"] sf u sec usec total ge
      by (simp add: eq)
  qed
qed

subsection \<open>Lemmas on addresses and texts\<close>

lemma ip_octets_le32: "ip_octets ip = rev (le32 ip)"
proof -
  have m: "(0xff000000 :: 32 word) = push_bit 24 (mask 8)" "(0x00ff0000 :: 32 word) = push_bit 16 (mask 8)"
    "(0x0000ff00 :: 32 word) = push_bit 8 (mask 8)" "(0x000000ff :: 32 word) = mask 8"
    by (simp_all add: mask_eq_exp_minus_1 push_bit_eq_mult)
  show ?thesis
    unfolding ip_octets_def le32_def m rev.simps append.simps
    by (intro arg_cong2[where f = Cons] refl; rule bit_word_eqI; auto simp: bit_simps)
qed

lemma ip_octets_inject [simp]: "ip_octets a = ip_octets b \<longleftrightarrow> a = b"
proof
  assume "ip_octets a = ip_octets b"
  then have "le32 a = le32 b" by (simp add: ip_octets_le32)
  then have "rd32 (le32 a ! 0) (le32 a ! 1) (le32 a ! 2) (le32 a ! 3) =
      rd32 (le32 b ! 0) (le32 b ! 1) (le32 b ! 2) (le32 b ! 3)" by simp
  then show "a = b" by (simp add: le32_def numeral_3_eq_3 numeral_2_eq_2)
qed simp

lemma to_string_no_dot: "CHR ''.'' \<notin> set (to_string i)"
proof -
  have "CHR ''.'' \<noteq> digit_char d" if "d < 10" for d
  proof
    assume "CHR ''.'' = digit_char d"
    then have "of_char (CHR ''.'') = (of_char (digit_char d) :: nat)" by simp
    then have "of_char (digit_char d) = (46 :: nat)" by simp
    with that show False by (simp add: digit_char_def)
  qed
  then have "CHR ''.'' \<notin> digit_char ` set (nat_digits n)" for n
    using nat_digits_less_10 by blast
  then show ?thesis by (simp add: to_string_def to_string_nat_def)
qed

lemma length_to_string_uint:
  assumes "uint (w :: 'a :: len word) < 10 ^ Suc k"
  shows "length (to_string (uint w)) \<le> Suc k"
proof -
  have "int (unat w) < int (10 ^ Suc k)" using assms by simp
  then have "unat w < 10 ^ Suc k" by (simp only: of_nat_less_iff)
  from length_nat_digits[OF this] show ?thesis by (simp add: to_string_def to_string_nat_def)
qed

lemma length_octet: "length (to_string (uint (b :: byte))) \<le> 3"
  using length_to_string_uint[of b 2] uint_lt2p[of b] by simp

lemma length_port: "length (to_string (uint (p :: 16 word))) \<le> 5"
  using length_to_string_uint[of p 4] uint_lt2p[of p] by simp

lemma length_id: "length (to_string (uint (i :: 64 word))) \<le> 20"
  using length_to_string_uint[of i 19] uint_lt2p[of i] by simp

lemma ip2str_eq_iff: "ip2str a = ip2str b \<longleftrightarrow> a = b"
proof
  assume eq: "ip2str a = ip2str b"
  obtain a0 a1 a2 a3 b0 b1 b2 b3 where o: "ip_octets a = [a0, a1, a2, a3]" "ip_octets b = [b0, b1, b2, b3]"
    by (simp add: ip_octets_def)
  let ?t = "\<lambda>x. to_string (uint (x :: byte))"
  have eq': "?t a0 @ CHR ''.'' # ?t a1 @ CHR ''.'' # ?t a2 @ CHR ''.'' # ?t a3 =
      ?t b0 @ CHR ''.'' # ?t b1 @ CHR ''.'' # ?t b2 @ CHR ''.'' # ?t b3"
    using eq by (simp add: ip2str_def o numeral_3_eq_3 numeral_2_eq_2)
  note dot = to_string_no_dot[of "uint (_ :: byte)"]
  from append_sep_inject[OF eq' dot dot]
  have 0: "?t a0 = ?t b0" and r: "?t a1 @ CHR ''.'' # ?t a2 @ CHR ''.'' # ?t a3 =
      ?t b1 @ CHR ''.'' # ?t b2 @ CHR ''.'' # ?t b3" by simp_all
  from append_sep_inject[OF r dot dot]
  have 1: "?t a1 = ?t b1" and r2: "?t a2 @ CHR ''.'' # ?t a3 = ?t b2 @ CHR ''.'' # ?t b3" by simp_all
  from append_sep_inject[OF r2 dot dot] have 2: "?t a2 = ?t b2" "?t a3 = ?t b3" by simp_all
  from 0 1 2 have "ip_octets a = ip_octets b"
    unfolding o by (simp add: inj_eq[OF inj_to_string] word_uint_eq_iff)
  then show "a = b" by simp
qed simp

lemma length_ip2str: "length (ip2str ip) \<le> 15"
  using length_octet[of "ip_octets ip ! 0"] length_octet[of "ip_octets ip ! 1"]
    length_octet[of "ip_octets ip ! 2"] length_octet[of "ip_octets ip ! 3"]
  by (simp add: ip2str_def Let_def)

lemma foldl_bytes: "foldl (\<lambda>s b. f s (HashByte b)) seed bt = foldl f seed (map HashByte bt)"
  by (induction bt arbitrary: seed) auto

subsection \<open>Properties\<close>

text \<open>
  The text of an IPv4 address determines the address, and with its terminator it fits the static
  buffer of 64 bytes; so do the texts of keys their 256 bytes, for addresses of at most 80
  characters.
\<close>

theorem address_texts:
  "(ip2str a = ip2str b \<longleftrightarrow> a = b) \<and> length (ip2str a) < 64 \<and>
   (length (addr_text (sctp_src k)) \<le> 80 \<and> length (addr_text (sctp_dst k)) \<le> 80 \<longrightarrow>
     sctp_frag_key_to_string addr_text port k = Inr (''src='' @ endpoint_text addr_text port (sctp_src k) @
       '',dst='' @ endpoint_text addr_text port (sctp_dst k) @ '',id('' @ to_string (uint (sctp_id k)) @ '')''))"
  using length_ip2str[of a] length_port[of "port (sctp_src k)"] length_port[of "port (sctp_dst k)"]
    length_id[of "sctp_id k"]
  by (auto simp: ip2str_eq_iff sctp_frag_key_to_string_def sprintf_to_def endpoint_text_def)

theorem address_texts_witness:
  "sctp_frag_key_to_string (\<lambda>e. ''host'') (\<lambda>e. 80) (SctpFragKey 1 (2 :: nat) 7) =
     Inr ''src=host(80),dst=host(80),id(7)''"
  using address_texts[where addr_text = "\<lambda>e. ''host''" and port = "\<lambda>e. 80" and k = "SctpFragKey 1 (2 :: nat) 7"]
  by (simp add: endpoint_text_def to_string_def to_string_nat_def nat_digits.simps digit_char_def char_of_def bit_0)

text \<open>
  The hash of a flow key set from two IPv4 addresses and ports combines, in this order, the four
  bytes of the source from the most significant on, its port, the bytes of the destination and its
  port, and for a fragment key the identifier after them; for IPv6 the sixteen bytes instead of the
  four. This rests on the endpoint's giving back the address and port it was built from.
\<close>

theorem key_hash_of_numbers:
  assumes "\<And>v p. view (mkep (mk v) p) = v" and "\<And>x p. port (mkep x p) = p"
  shows "ip_4_hash combine zero view port (ip_key_set_v4 mk mkep s d sp dp) =
      foldl combine zero (map HashByte (ip_octets s) @ HashPort sp # map HashByte (ip_octets d) @ [HashPort dp]) \<and>
    sctp_frag_hash combine zero view port (sctp_frag_key_set_v4 mk mkep s d sp dp i) =
      foldl combine zero (map HashByte (ip_octets s) @ HashPort sp # map HashByte (ip_octets d) @
        [HashPort dp, HashId (ucast i)]) \<and>
    (length s6 = 16 \<and> length d6 = 16 \<longrightarrow> (\<exists>k. ip_key_set_v6 mk mkep s6 d6 sp dp = Inr k \<and>
      ip_4_hash combine zero view port k =
        foldl combine zero (map HashByte s6 @ HashPort sp # map HashByte d6 @ [HashPort dp])))"
  using assms
  by (auto simp: ip_4_hash_def sctp_frag_hash_def ip_key_set_v4_def sctp_frag_key_set_v4_def ip_key_set_v6_def
      get_ep_v4_def get_addr_v4_def get_ep_v6_def get_addr_v6_def hash_address_def foldl_bytes Let_def)

theorem key_hash_of_numbers_witness:
  "ip_4_hash (\<lambda>s x. s @ [x]) [] fst snd (ip_key_set_v4 (\<lambda>v. v) Pair 0x7f000001 0x0a000002 80 90) =
     [HashByte 127, HashByte 0, HashByte 0, HashByte 1, HashPort 80,
      HashByte 10, HashByte 0, HashByte 0, HashByte 2, HashPort 90]"
  using key_hash_of_numbers[where view = fst and mkep = Pair and mk = "\<lambda>v. v" and port = snd
      and combine = "\<lambda>s x. s @ [x]" and zero = "[]" and s = "0x7f000001" and d = "0x0a000002"
      and sp = 80 and dp = 90]
  by (simp add: ip_octets_def)

text \<open>
  C37. \<open>swap64\<close> reverses the order of the bytes, so the two conversions are each other's inverse, and
  packing two halves with \<open>mask64\<close> or \<open>mask32\<close> is undone by the upper and lower macros.
\<close>

theorem com_integers_roundtrip:
  "ntohll (htonll a) = a \<and> htonll (ntohll a) = a \<and>
   (\<forall>k \<in> {0..7}. (ucast (drop_bit (8 * k) (swap64 a)) :: byte) = ucast (drop_bit (8 * (7 - k)) a)) \<and>
   upper32 (mask64 x y) = x \<and> lower32 (mask64 x y) = y \<and> mask64 (upper32 a) (lower32 a) = a \<and>
   upper16 (mask32 u v) = u \<and> lower16 (mask32 u v) = v"
  using swap64_involution swap64_byte halves by (simp add: ntohll_def htonll_def)

theorem com_integers_roundtrip_witness:
  "ntohll (htonll 0x0102030405060708) = 0x0102030405060708 \<and> upper32 (mask64 7 9) = 7"
  using com_integers_roundtrip[of "0x0102030405060708" 7 9 0 0] by blast

text \<open>
  \<open>get_unix_time\<close> is the timestamp in microseconds rounded to the nearest, halves up, for every
  64-bit capture timestamp; the intermediate products never wrap.
\<close>

theorem get_unix_time_rounds:
  "uint (get_unix_time t) = (uint t * 1000000 + 2 ^ 31) div 2 ^ 32"
  using get_unix_time_eq .

text \<open>
  C38. The operators of the key types fit ordered containers: for each, \<open>operator<\<close> is irreflexive and
  transitive, two keys neither of which is less are exactly the ones \<open>operator==\<close> calls equal, and
  \<open>operator!=\<close>, where there is one, is the negation.
\<close>

theorem key_operators_ordered:
  "\<not> sctp_frag_key_less j j \<and> \<not> ip_key_less u u \<and> \<not> ip_frag_key_less p p \<and>
   (sctp_frag_key_less j k \<and> sctp_frag_key_less k l \<longrightarrow> sctp_frag_key_less j l) \<and>
   (ip_key_less u v \<and> ip_key_less v x \<longrightarrow> ip_key_less u x) \<and>
   (ip_frag_key_less p q \<and> ip_frag_key_less q r \<longrightarrow> ip_frag_key_less p r) \<and>
   (\<not> sctp_frag_key_less j k \<and> \<not> sctp_frag_key_less k j \<longleftrightarrow> sctp_frag_key_eq j k) \<and>
   (\<not> ip_key_less u v \<and> \<not> ip_key_less v u \<longleftrightarrow> ip_key_eq u v) \<and>
   (\<not> ip_frag_key_less p q \<and> \<not> ip_frag_key_less q p \<longleftrightarrow> ip_frag_key_eq p q) \<and>
   (sctp_frag_key_neq j k \<longleftrightarrow> \<not> sctp_frag_key_eq j k) \<and> (ip_key_neq u v \<longleftrightarrow> \<not> ip_key_eq u v)"
proof -
  have "sctp_frag_key_eq j k \<longleftrightarrow> j = k" "ip_key_eq u v \<longleftrightarrow> u = v" "ip_frag_key_eq p q \<longleftrightarrow> p = q"
    by (auto simp: sctp_frag_key_eq_def ip_key_eq_def ip_frag_key_eq_def sctp_frag_key.expand
        ip_key.expand ip_frag_key.expand)
  moreover have "sctp_frag_key_neq j k \<longleftrightarrow> \<not> sctp_frag_key_eq j k" "ip_key_neq u v \<longleftrightarrow> \<not> ip_key_eq u v"
    by (auto simp: sctp_frag_key_neq_def sctp_frag_key_eq_def ip_key_neq_def ip_key_eq_def)
  ultimately show ?thesis
    unfolding less_sctp_frag_key_def[symmetric] less_ip_key_def[symmetric] less_ip_frag_key_def[symmetric]
    by (auto intro: less_trans)
qed

theorem key_operators_ordered_witness:
  "ip_key_less (IpKey (1 :: nat) 5) (IpKey 2 0) \<and> ip_key_less (IpKey (2 :: nat) 0) (IpKey 2 4) \<and>
   ip_key_less (IpKey (1 :: nat) 5) (IpKey 2 4)"
proof -
  have l: "ip_key_less (IpKey (1 :: nat) 5) (IpKey 2 0)" "ip_key_less (IpKey (2 :: nat) 0) (IpKey 2 4)"
    by (simp_all add: ip_key_less_def)
  then show ?thesis
    using key_operators_ordered[of "SctpFragKey (0 :: nat) 0 0" "IpKey (1 :: nat) 5"
        "IpFragKey (0 :: nat) 0 0" "SctpFragKey 0 0 0" "SctpFragKey 0 0 0" "IpKey 2 0" "IpKey 2 4"
        "IpFragKey 0 0 0" "IpFragKey 0 0 0"]
    by blast
qed

end
