(* ===== verification/Com_Base.thy ===== *)
theory Com_Base
  imports Com_Util
begin

text \<open>
  The rest of \<open>include/com.h\<close> (the home directory, logging, the clock, the enumerations, \<open>ipc_ip\<close> and the
  constructors of the keys) and \<open>Src/Singleton.h\<close>. The environment, the clock and log4cxx are
  parameters: \<open>enabled\<close> tells for which levels the configured logger writes.
\<close>

subsection \<open>Environment and logging\<close>

definition get_home :: "(string \<Rightarrow> string option) \<Rightarrow> string" where
  "get_home getenv = (case getenv ''TEST'' of None \<Rightarrow> ''/home/ywoh/test'' | Some home \<Rightarrow> home)"

datatype log_level = L_TRC | L_DEB | L_INF | L_WAR | L_ERR | L_FAT

fun log_level_val :: "log_level \<Rightarrow> int" where
  "log_level_val L_TRC = 5000"
| "log_level_val L_DEB = 10000"
| "log_level_val L_INF = 20000"
| "log_level_val L_WAR = 30000"
| "log_level_val L_ERR = 40000"
| "log_level_val L_FAT = 50000"

definition LOG_MAXLEN :: nat where
  "LOG_MAXLEN = 1024 * 4"

text \<open>\<open>snprintf\<close> with a bound writes at most one character less; \<open>msg\<close> is the formatted text.\<close>

definition snprintf_to :: "nat \<Rightarrow> string \<Rightarrow> string" where
  "snprintf_to cap s = take (cap - 1) s"

definition LOG :: "(int \<Rightarrow> bool) \<Rightarrow> int \<Rightarrow> string \<Rightarrow> (int \<times> string) list \<Rightarrow> (int \<times> string) list" where
  "LOG enabled lev msg lines =
     (if enabled lev then lines @ [(lev, snprintf_to LOG_MAXLEN msg)] else lines)"

definition SLOG :: "(int \<Rightarrow> bool) \<Rightarrow> string \<Rightarrow> (int \<times> string) list \<Rightarrow> (int \<times> string) list" where
  "SLOG enabled lfunc = LOG enabled (log_level_val L_TRC) (''['' @ lfunc @ ''] start'')"

definition ELOG :: "(int \<Rightarrow> bool) \<Rightarrow> string \<Rightarrow> (int \<times> string) list \<Rightarrow> (int \<times> string) list" where
  "ELOG enabled lfunc = LOG enabled (log_level_val L_TRC) (''['' @ lfunc @ ''] end'')"

record log_state =
  log_name :: string
  log_config :: string
  log_enabled :: "int \<Rightarrow> bool"
  log_lines :: "(int \<times> string) list"

text \<open>\<open>configure\<close> gives the levels of a configuration file; its name is formatted into 256 bytes.\<close>

definition initLog4cxx :: "(string \<Rightarrow> int \<Rightarrow> bool) \<Rightarrow> string \<Rightarrow> log_state \<Rightarrow> log_state res" where
  "initLog4cxx configure p_exe w =
     bind_res (sprintf_to 256 ''../config/log4cxx.ini'') (\<lambda>config.
       Inr (w\<lparr>log_name := p_exe, log_config := config, log_enabled := configure config,
              log_lines := ELOG (configure config) ''initLog4cxx'' (log_lines w)\<rparr>))"

subsection \<open>The clock\<close>

definition get_unix_time_now :: "int \<times> int \<Rightarrow> 64 word" where
  "get_unix_time_now tv = word_of_int (fst tv * 1000000 + snd tv)"

subsection \<open>Enumerations and structures\<close>

datatype app_type = NONE_APP | APP_HTTP | APP_STREAMING | APP_AFREECA

fun app_type_val :: "app_type \<Rightarrow> int" where
  "app_type_val NONE_APP = 0"
| "app_type_val APP_HTTP = 1"
| "app_type_val APP_STREAMING = 2"
| "app_type_val APP_AFREECA = 3"

datatype bound_type = NONE_BOUND | IN_BOUND | OUT_BOUND

fun bound_type_val :: "bound_type \<Rightarrow> int" where
  "bound_type_val NONE_BOUND = 0"
| "bound_type_val IN_BOUND = 1"
| "bound_type_val OUT_BOUND = 2"

record ipc_ip =
  ii_ip :: bytes
  ii_port :: "16 word"
  ii_ver :: "16 word"

definition ipc_ip_new :: ipc_ip where
  "ipc_ip_new = \<lparr>ii_ip = replicate 48 0, ii_port = 0, ii_ver = 0\<rparr>"

subsection \<open>Constructors of the keys\<close>

text \<open>\<open>none\<close> is Boost's default endpoint or address.\<close>

definition ip_key_default :: "'e \<Rightarrow> 'e ip_key" where
  "ip_key_default none = IpKey none none"

definition ip_key_copy :: "'e ip_key \<Rightarrow> 'e ip_key" where
  "ip_key_copy k = IpKey (ip_src k) (ip_dst k)"

definition ip_key_new_ep :: "'e \<Rightarrow> 'e \<Rightarrow> 'e ip_key" where
  "ip_key_new_ep s d = IpKey s d"

definition ip_key_new_v4 ::
  "(addr_view \<Rightarrow> 'a) \<Rightarrow> ('a \<Rightarrow> 16 word \<Rightarrow> 'e) \<Rightarrow> 32 word \<Rightarrow> 32 word \<Rightarrow> 16 word \<Rightarrow> 16 word \<Rightarrow> 'e ip_key" where
  "ip_key_new_v4 mk mkep s d sp dp = ip_key_set_v4 mk mkep s d sp dp"

definition ip_key_new_v6 ::
  "(addr_view \<Rightarrow> 'a) \<Rightarrow> ('a \<Rightarrow> 16 word \<Rightarrow> 'e) \<Rightarrow> bytes \<Rightarrow> bytes \<Rightarrow> 16 word \<Rightarrow> 16 word \<Rightarrow> 'e ip_key res" where
  "ip_key_new_v6 mk mkep s d sp dp = ip_key_set_v6 mk mkep s d sp dp"

definition ip_key_new_address :: "('a \<Rightarrow> 16 word \<Rightarrow> 'e) \<Rightarrow> 'a \<Rightarrow> 'a \<Rightarrow> 16 word \<Rightarrow> 16 word \<Rightarrow> 'e ip_key" where
  "ip_key_new_address mkep s d sp dp = ip_key_set_address mkep s d sp dp"

definition sctp_frag_key_default :: "'e \<Rightarrow> 'e sctp_frag_key" where
  "sctp_frag_key_default none = SctpFragKey none none 0"

definition sctp_frag_key_copy :: "'e sctp_frag_key \<Rightarrow> 'e sctp_frag_key" where
  "sctp_frag_key_copy k = SctpFragKey (sctp_src k) (sctp_dst k) (sctp_id k)"

definition sctp_frag_key_new16 :: "'e \<Rightarrow> 'e \<Rightarrow> 16 word \<Rightarrow> 'e sctp_frag_key" where
  "sctp_frag_key_new16 s d i = SctpFragKey s d (ucast i)"

definition sctp_frag_key_new32 :: "'e \<Rightarrow> 'e \<Rightarrow> 32 word \<Rightarrow> 'e sctp_frag_key" where
  "sctp_frag_key_new32 s d i = SctpFragKey s d (ucast i)"

definition sctp_frag_key_new64 :: "'e \<Rightarrow> 'e \<Rightarrow> 64 word \<Rightarrow> 'e sctp_frag_key" where
  "sctp_frag_key_new64 s d i = SctpFragKey s d i"

definition sctp_frag_key_new_v4 ::
  "(addr_view \<Rightarrow> 'a) \<Rightarrow> ('a \<Rightarrow> 16 word \<Rightarrow> 'e) \<Rightarrow> 32 word \<Rightarrow> 32 word \<Rightarrow> 16 word \<Rightarrow> 16 word \<Rightarrow> 16 word
     \<Rightarrow> 'e sctp_frag_key" where
  "sctp_frag_key_new_v4 mk mkep s d sp dp i = sctp_frag_key_set_v4 mk mkep s d sp dp i"

definition sctp_frag_key_new_v6 ::
  "(addr_view \<Rightarrow> 'a) \<Rightarrow> ('a \<Rightarrow> 16 word \<Rightarrow> 'e) \<Rightarrow> bytes \<Rightarrow> bytes \<Rightarrow> 16 word \<Rightarrow> 16 word \<Rightarrow> 32 word
     \<Rightarrow> 'e sctp_frag_key res" where
  "sctp_frag_key_new_v6 mk mkep s d sp dp i = sctp_frag_key_set_v6 mk mkep s d sp dp i"

definition ip_frag_key_default :: "'a \<Rightarrow> 'a ip_frag_key" where
  "ip_frag_key_default none = IpFragKey none none 0"

definition ip_frag_key_copy :: "'a ip_frag_key \<Rightarrow> 'a ip_frag_key" where
  "ip_frag_key_copy k = IpFragKey (frag_src k) (frag_dst k) (frag_id k)"

definition ip_frag_key_new16 :: "'a \<Rightarrow> 'a \<Rightarrow> 16 word \<Rightarrow> 'a ip_frag_key" where
  "ip_frag_key_new16 s d i = IpFragKey s d (ucast i)"

definition ip_frag_key_new32 :: "'a \<Rightarrow> 'a \<Rightarrow> 32 word \<Rightarrow> 'a ip_frag_key" where
  "ip_frag_key_new32 s d i = IpFragKey s d i"

definition ip_frag_key_new_v4 :: "(addr_view \<Rightarrow> 'a) \<Rightarrow> 32 word \<Rightarrow> 32 word \<Rightarrow> 16 word \<Rightarrow> 'a ip_frag_key" where
  "ip_frag_key_new_v4 mk s d i = ip_frag_key_set_v4 mk s d i"

definition ip_frag_key_new_v6 :: "(addr_view \<Rightarrow> 'a) \<Rightarrow> bytes \<Rightarrow> bytes \<Rightarrow> 32 word \<Rightarrow> 'a ip_frag_key res" where
  "ip_frag_key_new_v6 mk s d i = ip_frag_key_set_v6 mk s d i"

subsection \<open>Singleton\<close>

text \<open>\<open>_instance\<close>, null at first, and the number of objects constructed so far, which names the next one.\<close>

record singleton =
  sg_instance :: "addr option"
  sg_built :: nat

definition getInstance :: "singleton \<Rightarrow> addr option \<times> singleton" where
  "getInstance g =
     (let g1 = (if sg_instance g = None then g\<lparr>sg_instance := Some (sg_built g), sg_built := sg_built g + 1\<rparr> else g)
      in (sg_instance g1, g1))"

fun getInstances :: "nat \<Rightarrow> singleton \<Rightarrow> addr option list \<times> singleton" where
  "getInstances 0 g = ([], g)"
| "getInstances (Suc n) g =
     (let (p, g1) = getInstance g; (ps, g2) = getInstances n g1 in (p # ps, g2))"

subsection \<open>Lemmas\<close>

text \<open>However often it is asked for, there is one object and everybody gets it.\<close>

lemma getInstances_after:
  "sg_instance g = Some a \<Longrightarrow> getInstances n g = (replicate n (Some a), g)"
  by (induction n) (simp_all add: getInstance_def)

theorem singleton_one_object:
  assumes "sg_instance g = None"
  shows "getInstances (Suc n) g =
    (replicate (Suc n) (Some (sg_built g)), g\<lparr>sg_instance := Some (sg_built g), sg_built := sg_built g + 1\<rparr>)"
  using assms getInstances_after[of "g\<lparr>sg_instance := Some (sg_built g), sg_built := sg_built g + 1\<rparr>"]
  by (simp add: getInstance_def)

text \<open>
  The clock's seconds and microseconds can be read back from the timestamp.
\<close>

theorem get_unix_time_now_splits:
  assumes "0 \<le> s" and "s * 1000000 + u < 2 ^ 64" and "0 \<le> u" and "u < 1000000"
  shows "uint (get_unix_time_now (s, u)) div 1000000 = s \<and> uint (get_unix_time_now (s, u)) mod 1000000 = u"
proof -
  have "uint (word_of_int n :: 64 word) = n" if "0 \<le> n" "n < 2 ^ 64" for n :: int
    using that by (simp add: unsigned_of_int take_bit_int_eq_self)
  from this[of "s * 1000000 + u"] have "uint (get_unix_time_now (s, u)) = s * 1000000 + u"
    unfolding get_unix_time_now_def fst_conv snd_conv using assms by linarith
  then show ?thesis using assms(3,4) by simp
qed

text \<open>
  A line of the log is a prefix of its message and fits the buffer with its terminator.
\<close>

theorem log_lines_fit:
  assumes "\<forall>(lev, l) \<in> set lines. length l < LOG_MAXLEN"
  shows "(\<forall>(lev, l) \<in> set (LOG enabled lev0 msg lines). length l < LOG_MAXLEN) \<and>
    (length msg < LOG_MAXLEN \<longrightarrow> enabled lev0 \<longrightarrow> LOG enabled lev0 msg lines = lines @ [(lev0, msg)])"
  using assms by (auto simp: LOG_def snprintf_to_def LOG_MAXLEN_def)

end
