(* ===== verification/Local_Sessions.thy ===== *)
theory Local_Sessions
  imports Tcp_Session
begin

text \<open>
  The datagram and local-socket sessions outside the current build: \<open>Src/IfSession.h\<close>,
  \<open>Src/UdpSession.h\<close>, \<open>Src/UdpSession.cpp\<close>, \<open>Src/IpcSession.h\<close>, \<open>Src/IpcSession.cpp\<close> and
  \<open>Src/IpcServer.h\<close>. They report to a \<open>SessionHandler\<close>, here a record of functions on the world.
  As for TCP, an \<open>async_*\<close> call adds an outstanding operation that the environment completes; unlike
  there, \<open>async_read\<close> succeeds only with the whole buffer filled, and a datagram longer than the
  buffer is cut.
\<close>

subsection \<open>Data\<close>

text \<open>\<open>read\<close> gets \<open>msgId\<close> and \<open>length\<close>, the session and the owner, and returns a flag.\<close>

record 'w SessionHandler =
  sh_read :: "32 word \<Rightarrow> 16 word \<Rightarrow> addr \<Rightarrow> addr option \<Rightarrow> 'w \<Rightarrow> (bool \<times> 'w) res"
  sh_error :: "error_code \<Rightarrow> addr \<Rightarrow> addr option \<Rightarrow> 'w \<Rightarrow> (bool \<times> 'w) res"
  sh_connect :: "addr \<Rightarrow> addr option \<Rightarrow> 'w \<Rightarrow> (bool \<times> 'w) res"

datatype UdpType = UDP_CLIENT | UDP_SERVER

datatype receive_op = Receive | ReceiveFrom

text \<open>The handler of a body read is bound to copies of \<open>msgId\<close> and \<open>bodyLength\<close>.\<close>

datatype ipc_read = IpcHeader | IpcBody nat "32 word" "16 word"

record UdpSession =
  u_open :: bool
  u_reuse :: bool
  u_epLocal :: endpoint
  u_epRemote :: endpoint
  u_udpType :: UdpType
  u_msg :: Msg
  u_sendMsg :: Msg
  u_msgTmr :: bool
  u_owner :: "addr option"
  u_receiving :: "receive_op list"
  u_sending :: "(endpoint option \<times> bytes) list"
  u_connecting :: nat

record IpcSession =
  i_open :: bool
  i_file :: "string option"
  i_msg :: Msg
  i_sendMsg :: Msg
  i_msgTmr :: bool
  i_owner :: "addr option"
  i_reading :: "ipc_read list"
  i_writing :: "bytes list"
  i_connecting :: nat

record local_net =
  udp_heap :: "addr \<Rightarrow> UdpSession option"
  ipc_heap :: "addr \<Rightarrow> IpcSession option"

definition with_udp :: "addr \<Rightarrow> (UdpSession \<Rightarrow> 'b res) \<Rightarrow> 'a local_net_scheme \<Rightarrow> 'b res" where
  "with_udp a f w = (case udp_heap w a of None \<Rightarrow> Inl NullDeref | Some s \<Rightarrow> f s)"

definition put_udp :: "addr \<Rightarrow> UdpSession \<Rightarrow> 'a local_net_scheme \<Rightarrow> 'a local_net_scheme" where
  "put_udp a s w = w\<lparr>udp_heap := (udp_heap w)(a \<mapsto> s)\<rparr>"

definition with_ipc :: "addr \<Rightarrow> (IpcSession \<Rightarrow> 'b res) \<Rightarrow> 'a local_net_scheme \<Rightarrow> 'b res" where
  "with_ipc a f w = (case ipc_heap w a of None \<Rightarrow> Inl NullDeref | Some s \<Rightarrow> f s)"

definition put_ipc :: "addr \<Rightarrow> IpcSession \<Rightarrow> 'a local_net_scheme \<Rightarrow> 'a local_net_scheme" where
  "put_ipc a s w = w\<lparr>ipc_heap := (ipc_heap w)(a \<mapsto> s)\<rparr>"

text \<open>The handler's answer is looked at for a log line only.\<close>

definition drop_flag :: "(bool \<times> 'w) res \<Rightarrow> 'w res" where
  "drop_flag r = bind_res r (\<lambda>(ok, w). Inr w)"

text \<open>\<open>asio::buffer(m.data(), n)\<close> as a source.\<close>

definition span_image :: "Msg \<Rightarrow> int \<Rightarrow> bytes res" where
  "span_image m n =
     (let k = unat (word_of_int n :: 64 word)
      in if k \<le> hdrLength + MAX_CP_MSG_DATA then Inr (take k (msg_bytes m)) else Inl OverRead)"

subsection \<open>UdpSession\<close>

definition UdpSession_client :: "endpoint \<Rightarrow> endpoint \<Rightarrow> Msg \<Rightarrow> Msg \<Rightarrow> UdpSession" where
  "UdpSession_client local remote msg0 send0 =
     \<lparr>u_open = False, u_reuse = False, u_epLocal = local, u_epRemote = remote, u_udpType = UDP_CLIENT,
      u_msg = msg0, u_sendMsg = send0, u_msgTmr = False, u_owner = None, u_receiving = [],
      u_sending = [], u_connecting = 0\<rparr>"

definition UdpSession_server :: "endpoint \<Rightarrow> Msg \<Rightarrow> Msg \<Rightarrow> UdpSession" where
  "UdpSession_server local msg0 send0 =
     \<lparr>u_open = True, u_reuse = False, u_epLocal = local, u_epRemote = ([], 0), u_udpType = UDP_SERVER,
      u_msg = msg0, u_sendMsg = send0, u_msgTmr = False, u_owner = None, u_receiving = [],
      u_sending = [], u_connecting = 0\<rparr>"

definition udp_setOwner :: "addr \<Rightarrow> UdpSession \<Rightarrow> UdpSession" where
  "udp_setOwner a s = s\<lparr>u_owner := Some a\<rparr>"

definition udp_start :: "UdpSession \<Rightarrow> UdpSession" where
  "udp_start s = s\<lparr>u_reuse := True\<rparr>"

definition udp_close :: "UdpSession \<Rightarrow> UdpSession" where
  "udp_close s = s\<lparr>u_open := False, u_msgTmr := False\<rparr>"

definition udp_asyncConnect :: "UdpSession \<Rightarrow> UdpSession" where
  "udp_asyncConnect s = s\<lparr>u_connecting := u_connecting s + 1\<rparr>"

definition udp_asyncRead :: "UdpSession \<Rightarrow> UdpSession" where
  "udp_asyncRead s =
     (if u_udpType s = UDP_CLIENT then s\<lparr>u_receiving := u_receiving s @ [Receive]\<rparr>
      else s\<lparr>u_receiving := u_receiving s @ [ReceiveFrom]\<rparr>)"

definition udp_asyncSend :: "UdpSession \<Rightarrow> UdpSession res" where
  "udp_asyncSend s =
     (if u_udpType s = UDP_CLIENT
      then bind_res (span_image (u_sendMsg s) (msg_length (u_sendMsg s))) (\<lambda>buf.
             Inr (s\<lparr>u_sending := u_sending s @ [(None, buf)]\<rparr>))
      else bind_res (span_image (u_msg s) (msg_length (u_sendMsg s))) (\<lambda>buf.
             Inr (s\<lparr>u_sending := u_sending s @ [(Some (u_epRemote s), buf)]\<rparr>)))"

definition udp_handleConnect ::
  "'a local_net_scheme SessionHandler \<Rightarrow> addr \<Rightarrow> error_code \<Rightarrow> 'a local_net_scheme
     \<Rightarrow> 'a local_net_scheme res" where
  "udp_handleConnect h a ec w = with_udp a (\<lambda>s.
     if ec = EcOk then drop_flag (sh_connect h a (u_owner s) w)
     else drop_flag (sh_error h ec a (u_owner s) w)) w"

text \<open>A header that does not check is logged and handled all the same.\<close>

definition udp_handleRead ::
  "'a local_net_scheme SessionHandler \<Rightarrow> addr \<Rightarrow> error_code \<Rightarrow> 'a local_net_scheme
     \<Rightarrow> 'a local_net_scheme res" where
  "udp_handleRead h a ec w = with_udp a (\<lambda>s.
     if ec = EcOk then
       bind_res (drop_flag (sh_read h (hdr_msgId (msg_hdr (u_msg s))) (hdr_bodyLength (msg_hdr (u_msg s)))
                   a (u_owner s) w))
         (\<lambda>w1. with_udp a (\<lambda>s1. Inr (put_udp a (udp_asyncRead s1) w1)) w1)
     else drop_flag (sh_error h ec a (u_owner s) w)) w"

definition udp_handleWrite ::
  "'a local_net_scheme SessionHandler \<Rightarrow> addr \<Rightarrow> error_code \<Rightarrow> 'a local_net_scheme
     \<Rightarrow> 'a local_net_scheme res" where
  "udp_handleWrite h a ec w = with_udp a (\<lambda>s.
     if ec = EcOk then Inr w else drop_flag (sh_error h ec a (u_owner s) w)) w"

text \<open>A datagram from \<open>from\<close> completes the oldest receive.\<close>

definition complete_receive ::
  "'a local_net_scheme SessionHandler \<Rightarrow> addr \<Rightarrow> error_code \<Rightarrow> endpoint \<Rightarrow> bytes \<Rightarrow> 'a local_net_scheme
     \<Rightarrow> 'a local_net_scheme res" where
  "complete_receive h a ec sender dgram w = with_udp a (\<lambda>s. case u_receiving s of
       [] \<Rightarrow> Inr w
     | r # rs \<Rightarrow> bind_res (deposit 0 (take (hdrLength + MAX_CP_MSG_DATA) dgram) (u_msg s)) (\<lambda>m.
         udp_handleRead h a ec (put_udp a (s\<lparr>u_msg := m, u_receiving := rs,
           u_epRemote := (if r = ReceiveFrom then sender else u_epRemote s)\<rparr>) w))) w"

subsection \<open>IpcSession\<close>

definition IpcSession_client :: "string \<Rightarrow> Msg \<Rightarrow> Msg \<Rightarrow> IpcSession" where
  "IpcSession_client file msg0 send0 =
     \<lparr>i_open = False, i_file = Some file, i_msg = msg0, i_sendMsg = send0, i_msgTmr = False,
      i_owner = None, i_reading = [], i_writing = [], i_connecting = 0\<rparr>"

definition IpcSession_server :: "Msg \<Rightarrow> Msg \<Rightarrow> IpcSession" where
  "IpcSession_server msg0 send0 =
     \<lparr>i_open = False, i_file = None, i_msg = msg0, i_sendMsg = send0, i_msgTmr = False,
      i_owner = None, i_reading = [], i_writing = [], i_connecting = 0\<rparr>"

definition ipc_setOwner :: "addr \<Rightarrow> IpcSession \<Rightarrow> IpcSession" where
  "ipc_setOwner a s = s\<lparr>i_owner := Some a\<rparr>"

definition ipc_start :: "IpcSession \<Rightarrow> IpcSession" where
  "ipc_start s = s"

definition ipc_close :: "IpcSession \<Rightarrow> IpcSession" where
  "ipc_close s = s\<lparr>i_open := False, i_msgTmr := False\<rparr>"

definition ipc_asyncConnect :: "IpcSession \<Rightarrow> IpcSession" where
  "ipc_asyncConnect s = s\<lparr>i_connecting := i_connecting s + 1\<rparr>"

definition ipc_asyncRead :: "IpcSession \<Rightarrow> IpcSession" where
  "ipc_asyncRead s = s\<lparr>i_reading := i_reading s @ [IpcHeader]\<rparr>"

definition ipc_asyncSend :: "IpcSession \<Rightarrow> IpcSession res" where
  "ipc_asyncSend s = bind_res (span_image (i_sendMsg s) (msg_length (i_sendMsg s))) (\<lambda>buf.
     Inr (s\<lparr>i_writing := i_writing s @ [buf]\<rparr>))"

definition ipc_handleConnect ::
  "'a local_net_scheme SessionHandler \<Rightarrow> addr \<Rightarrow> error_code \<Rightarrow> 'a local_net_scheme
     \<Rightarrow> 'a local_net_scheme res" where
  "ipc_handleConnect h a ec w = with_ipc a (\<lambda>s.
     if ec = EcOk then drop_flag (sh_connect h a (i_owner s) w)
     else drop_flag (sh_error h ec a (i_owner s) w)) w"

definition ipc_handleReadHeader ::
  "'a local_net_scheme SessionHandler \<Rightarrow> addr \<Rightarrow> error_code \<Rightarrow> 'a local_net_scheme
     \<Rightarrow> 'a local_net_scheme res" where
  "ipc_handleReadHeader h a ec w = with_ipc a (\<lambda>s.
     if ec = EcOk then
       Inr (put_ipc a (s\<lparr>i_reading := i_reading s @
         [IpcBody (unat (word_of_int (msg_bodyLength (i_msg s)) :: 64 word))
            (hdr_msgId (msg_hdr (i_msg s))) (hdr_bodyLength (msg_hdr (i_msg s)))]\<rparr>) w)
     else drop_flag (sh_error h ec a (i_owner s) w)) w"

definition ipc_handleReadBody ::
  "'a local_net_scheme SessionHandler \<Rightarrow> addr \<Rightarrow> 32 word \<Rightarrow> 16 word \<Rightarrow> error_code
     \<Rightarrow> 'a local_net_scheme \<Rightarrow> 'a local_net_scheme res" where
  "ipc_handleReadBody h a msgId len ec w = with_ipc a (\<lambda>s.
     if ec = EcOk then
       bind_res (drop_flag (sh_read h msgId len a (i_owner s) w))
         (\<lambda>w1. with_ipc a (\<lambda>s1. Inr (put_ipc a (ipc_asyncRead s1) w1)) w1)
     else drop_flag (sh_error h ec a (i_owner s) w)) w"

definition ipc_handleWrite ::
  "'a local_net_scheme SessionHandler \<Rightarrow> addr \<Rightarrow> error_code \<Rightarrow> 'a local_net_scheme
     \<Rightarrow> 'a local_net_scheme res" where
  "ipc_handleWrite h a ec w = with_ipc a (\<lambda>s.
     if ec = EcOk then Inr w else drop_flag (sh_error h ec a (i_owner s) w)) w"

text \<open>\<open>async_read\<close> fills its buffer in pieces; \<open>data\<close> is what arrived, all of it on success.\<close>

definition complete_ipc_read ::
  "'a local_net_scheme SessionHandler \<Rightarrow> addr \<Rightarrow> error_code \<Rightarrow> bytes \<Rightarrow> 'a local_net_scheme
     \<Rightarrow> 'a local_net_scheme res" where
  "complete_ipc_read h a ec data w = with_ipc a (\<lambda>s. case i_reading s of
       [] \<Rightarrow> Inr w
     | IpcHeader # rs \<Rightarrow> bind_res (deposit 0 data (i_msg s)) (\<lambda>m.
         ipc_handleReadHeader h a ec (put_ipc a (s\<lparr>i_msg := m, i_reading := rs\<rparr>) w))
     | IpcBody n msgId len # rs \<Rightarrow> bind_res (deposit hdrLength data (i_msg s)) (\<lambda>m.
         ipc_handleReadBody h a msgId len ec (put_ipc a (s\<lparr>i_msg := m, i_reading := rs\<rparr>) w))) w"

subsection \<open>IpcServer\<close>

record IpcServer =
  is_file :: string
  is_newSession :: "addr option"
  is_accepting :: "addr list"

record ipc_world = local_net +
  ipc_server :: IpcServer
  ipc_server_addr :: addr
  ipc_alloc :: addr

definition start_accept :: "Msg \<Rightarrow> Msg \<Rightarrow> ipc_world \<Rightarrow> ipc_world" where
  "start_accept msg0 send0 w =
     (let a = ipc_alloc w; w1 = put_ipc a (IpcSession_server msg0 send0) (w\<lparr>ipc_alloc := a + 1\<rparr>)
      in w1\<lparr>ipc_server := (ipc_server w1)\<lparr>is_newSession := Some a,
             is_accepting := is_accepting (ipc_server w1) @ [a]\<rparr>\<rparr>)"

text \<open>
  \<open>IpcServer.h\<close> calls \<open>set_owner\<close> and \<open>async_read\<close> of the session, which \<open>IpcSession\<close> does not declare, so that
  the header does not compile as it is: the calls are taken to be those of \<open>setOwner\<close> and \<open>asyncRead\<close>, which it does.
\<close>

definition handle_accept :: "addr \<Rightarrow> error_code \<Rightarrow> Msg \<Rightarrow> Msg \<Rightarrow> ipc_world \<Rightarrow> ipc_world res" where
  "handle_accept a ec msg0 send0 w =
     bind_res (if ec = EcOk
               then with_ipc a (\<lambda>s. Inr (put_ipc a
                      (ipc_asyncRead (ipc_start (ipc_setOwner (ipc_server_addr w) s))) w)) w
               else Inr w)
       (\<lambda>w1. Inr (start_accept msg0 send0 w1))"

definition complete_ipc_accept :: "error_code \<Rightarrow> Msg \<Rightarrow> Msg \<Rightarrow> ipc_world \<Rightarrow> ipc_world res" where
  "complete_ipc_accept ec msg0 send0 w = (case is_accepting (ipc_server w) of
       [] \<Rightarrow> Inr w
     | a # as \<Rightarrow> handle_accept a ec msg0 send0
         (w\<lparr>ipc_server := (ipc_server w)\<lparr>is_accepting := as\<rparr>\<rparr>))"

subsection \<open>Lemmas\<close>

lemma with_udp_Some [simp]: "udp_heap w a = Some s \<Longrightarrow> with_udp a f w = f s"
  by (simp add: with_udp_def)

lemma udp_heap_put [simp]: "udp_heap (put_udp a s w) b = (if b = a then Some s else udp_heap w b)"
  by (simp add: put_udp_def)

lemma with_ipc_Some [simp]: "ipc_heap w a = Some s \<Longrightarrow> with_ipc a f w = f s"
  by (simp add: with_ipc_def)

lemma ipc_heap_put [simp]: "ipc_heap (put_ipc a s w) b = (if b = a then Some s else ipc_heap w b)"
  by (simp add: put_ipc_def)

lemma put_ipc_twice [simp]: "put_ipc a s (put_ipc a t w) = put_ipc a s w"
  by (simp add: put_ipc_def)

lemma put_ipc_fields [simp]:
  "ipc_server (put_ipc a s w) = ipc_server w" "ipc_alloc (put_ipc a s w) = ipc_alloc w"
  "ipc_server_addr (put_ipc a s w) = ipc_server_addr w"
  by (simp_all add: put_ipc_def)

lemma drop_flag_Inr [simp]: "drop_flag (Inr (ok, w)) = Inr w"
  by (simp add: drop_flag_def)

lemma span_image_valid:
  assumes "0 \<le> n" and "n \<le> 1024"
  shows "span_image m (int hdrLength + n) = Inr (header_bytes (msg_hdr m) @ take (nat n) (msg_body m))"
proof -
  have "unat (word_of_int (int hdrLength + n) :: 64 word) = nat (int hdrLength + n)"
    by (rule unat_size_nonneg) (use assms in simp_all)
  then show ?thesis using assms by (simp add: span_image_def msg_bytes_def nat_le_iff nat_add_distrib)
qed

text \<open>A datagram of at least a header is laid over the message object, header first.\<close>

lemma deposit_datagram:
  assumes "hdrLength \<le> length d"
  shows "\<exists>b. deposit 0 (take (hdrLength + MAX_CP_MSG_DATA) d) m =
    Inr \<lparr>msg_hdr = header_of_bytes (take hdrLength d), msg_body = b\<rparr>"
proof -
  let ?c = "take (hdrLength + MAX_CP_MSG_DATA) d"
  have "take hdrLength (overlay 0 ?c (msg_bytes m)) = take hdrLength d"
    using assms by (simp add: overlay_0 min_def)
  then show ?thesis by (simp add: deposit_def msg_of_bytes_def)
qed

lemma size_above_1024:
  assumes "msg_bodyLength m < 0 \<or> 1024 < msg_bodyLength m"
  shows "1024 < unat (word_of_int (msg_bodyLength m) :: 64 word)"
proof -
  note range = sint16_range[of "hdr_bodyLength (msg_hdr m)", folded msg_bodyLength_def]
  show ?thesis
  proof (cases "msg_bodyLength m < 0")
    case True
    then show ?thesis using range by (subst unat_size_neg) auto
  next
    case False
    then show ?thesis using range assms by (subst unat_size_nonneg) auto
  qed
qed

text \<open>One step of the accept loop.\<close>

definition ipc_waiting :: "addr \<Rightarrow> Msg \<Rightarrow> Msg \<Rightarrow> ipc_world \<Rightarrow> bool" where
  "ipc_waiting a msg0 send0 w \<longleftrightarrow> is_accepting (ipc_server w) = [a] \<and> ipc_alloc w = a + 1 \<and>
     ipc_heap w a = Some (IpcSession_server msg0 send0)"

lemma start_accept_waiting:
  "is_accepting (ipc_server w) = [] \<Longrightarrow> ipc_waiting (ipc_alloc w) msg0 send0 (start_accept msg0 send0 w)"
  by (simp add: ipc_waiting_def start_accept_def Let_def)

definition accepted_reads :: "error_code \<Rightarrow> ipc_read list" where
  "accepted_reads ec = (if ec = EcOk then [IpcHeader] else [])"

lemma complete_ipc_accept_step:
  assumes "ipc_waiting a msg0 send0 w"
  shows "\<exists>w'. complete_ipc_accept ec msg0 send0 w = Inr w' \<and> ipc_waiting (a + 1) msg0 send0 w' \<and>
    (\<exists>s. ipc_heap w' a = Some s \<and> i_reading s = accepted_reads ec) \<and>
    (\<forall>b < a. ipc_heap w' b = ipc_heap w b)"
  using assms
  by (cases ec; simp add: complete_ipc_accept_def handle_accept_def start_accept_def ipc_waiting_def
      accepted_reads_def ipc_asyncRead_def ipc_start_def ipc_setOwner_def IpcSession_server_def Let_def)

lemma ipc_accept_run:
  assumes "ipc_waiting a msg0 send0 w"
  shows "\<exists>w'. fold_res (\<lambda>ec. complete_ipc_accept ec msg0 send0) ecs w = Inr w' \<and>
    ipc_waiting (a + length ecs) msg0 send0 w' \<and> (\<forall>b < a. ipc_heap w' b = ipc_heap w b) \<and>
    (\<forall>i < length ecs. \<exists>s. ipc_heap w' (a + i) = Some s \<and> i_reading s = accepted_reads (ecs ! i))"
  using assms
proof (induction ecs arbitrary: a w)
  case Nil
  then show ?case by simp
next
  case (Cons ec ecs)
  obtain u s where u: "complete_ipc_accept ec msg0 send0 w = Inr u" "ipc_waiting (a + 1) msg0 send0 u"
    and s: "ipc_heap u a = Some s" "i_reading s = accepted_reads ec"
    and low: "\<forall>b < a. ipc_heap u b = ipc_heap w b"
    using complete_ipc_accept_step[OF Cons.prems, of ec] by blast
  obtain v where v: "fold_res (\<lambda>ec. complete_ipc_accept ec msg0 send0) ecs u = Inr v"
    "ipc_waiting (a + 1 + length ecs) msg0 send0 v" "\<forall>b < a + 1. ipc_heap v b = ipc_heap u b"
    and r: "\<forall>i < length ecs. \<exists>s. ipc_heap v (a + 1 + i) = Some s \<and> i_reading s = accepted_reads (ecs ! i)"
    using Cons.IH[OF u(2)] by blast
  have "\<exists>s. ipc_heap v (a + i) = Some s \<and> i_reading s = accepted_reads ((ec # ecs) ! i)"
    if "i < Suc (length ecs)" for i
  proof (cases i)
    case 0
    then show ?thesis using v(3) s by simp
  next
    case (Suc j)
    then show ?thesis using r that by auto
  qed
  then show ?case using u(1) v low by simp
qed

subsection \<open>Concrete worlds\<close>

definition blank_message :: Msg where
  "blank_message = \<lparr>msg_hdr = \<lparr>hdr_version = 1, hdr_result = 0, hdr_bodyLength = 2, hdr_msgId = 3\<rparr>,
     msg_body = replicate 1024 0\<rparr>"

definition udp_idle :: UdpSession where
  "udp_idle = UdpSession_server (''0.0.0.0'', 4000) blank_message blank_message"

definition udp_world :: local_net where
  "udp_world = \<lparr>udp_heap = (\<lambda>_. None)(7 \<mapsto> udp_idle\<lparr>u_receiving := [ReceiveFrom]\<rparr>), ipc_heap = (\<lambda>_. None)\<rparr>"

definition udp_got :: UdpSession where
  "udp_got = udp_idle\<lparr>u_epRemote := (''10.0.0.1'', 5000), u_msg :=
     msg_of_bytes (overlay 0 [9, 0, 1, 0, 3, 0, 0, 0, 65] (msg_bytes blank_message))\<rparr>"

definition echo_handler :: "local_net SessionHandler" where
  "echo_handler = \<lparr>sh_read = (\<lambda>i n a ow w. Inr (False, w)), sh_error = (\<lambda>ec a ow w. Inr (True, w)),
     sh_connect = (\<lambda>a ow w. Inr (True, w))\<rparr>"

definition ipc_world_with :: "addr \<Rightarrow> local_net" where
  "ipc_world_with a = \<lparr>udp_heap = (\<lambda>_. None), ipc_heap = (\<lambda>_. None)(a \<mapsto>
     (IpcSession_server blank_message blank_message)\<lparr>i_reading := [IpcHeader]\<rparr>)\<rparr>"

definition fresh_ipc_world :: ipc_world where
  "fresh_ipc_world = \<lparr>udp_heap = (\<lambda>_. None), ipc_heap = (\<lambda>_. None),
     ipc_server = \<lparr>is_file = ''/tmp/ipc'', is_newSession = None, is_accepting = []\<rparr>,
     ipc_server_addr = 100, ipc_alloc = 0\<rparr>"

subsection \<open>Properties\<close>

text \<open>
  A datagram session with a well-formed message to send posts one datagram of that message's
  length: a client the header and body of the message to send, a server, to the last sender, the
  header and as much of the body of the message it received last.
\<close>

theorem udp_send_datagrams:
  assumes "0 \<le> msg_bodyLength (u_sendMsg s)" and "msg_bodyLength (u_sendMsg s) \<le> 1024"
  shows "udp_asyncSend s = Inr (s\<lparr>u_sending := u_sending s @
    [let n = nat (msg_bodyLength (u_sendMsg s)); image = (\<lambda>m. header_bytes (msg_hdr m) @ take n (msg_body m))
     in case u_udpType s of
          UDP_CLIENT \<Rightarrow> (None, image (u_sendMsg s))
        | UDP_SERVER \<Rightarrow> (Some (u_epRemote s), image (u_msg s))]\<rparr>)"
  using span_image_valid[OF assms]
  by (cases "u_udpType s") (simp_all add: udp_asyncSend_def msg_length_def msg_bodyLength_def Let_def)

theorem udp_send_datagrams_witness:
  "udp_asyncSend (udp_idle
      \<lparr>u_msg := \<lparr>msg_hdr = \<lparr>hdr_version = 1, hdr_result = 0, hdr_bodyLength = 7, hdr_msgId = 1\<rparr>, msg_body = [65, 66]\<rparr>,
       u_sendMsg := \<lparr>msg_hdr = \<lparr>hdr_version = 1, hdr_result = 0, hdr_bodyLength = 1, hdr_msgId = 2\<rparr>, msg_body = [67]\<rparr>\<rparr>)
    = Inr (udp_idle
      \<lparr>u_msg := \<lparr>msg_hdr = \<lparr>hdr_version = 1, hdr_result = 0, hdr_bodyLength = 7, hdr_msgId = 1\<rparr>, msg_body = [65, 66]\<rparr>,
       u_sendMsg := \<lparr>msg_hdr = \<lparr>hdr_version = 1, hdr_result = 0, hdr_bodyLength = 1, hdr_msgId = 2\<rparr>, msg_body = [67]\<rparr>,
       u_sending := [(Some ([], 0), [1, 0, 7, 0, 1, 0, 0, 0, 65])]\<rparr>)"
  using udp_send_datagrams[of "udp_idle
      \<lparr>u_msg := \<lparr>msg_hdr = \<lparr>hdr_version = 1, hdr_result = 0, hdr_bodyLength = 7, hdr_msgId = 1\<rparr>, msg_body = [65, 66]\<rparr>,
       u_sendMsg := \<lparr>msg_hdr = \<lparr>hdr_version = 1, hdr_result = 0, hdr_bodyLength = 1, hdr_msgId = 2\<rparr>, msg_body = [67]\<rparr>\<rparr>"]
  by (simp add: udp_idle_def UdpSession_server_def msg_bodyLength_def header_bytes_def le16_def le32_def)

text \<open>
  A datagram of at least eight bytes is handed to the handler with the identifier and length of
  its header, whatever \<open>checkHeader\<close> says of them, a server remembering its sender, and one receive
  is posted after it whatever the handler answers; on an error the handler's error operation is the
  only effect and no receive is posted.
\<close>

theorem udp_receive_dispatches:
  assumes "udp_heap w a = Some s" and "u_receiving s = r # rs" and "hdrLength \<le> length d"
    and "w1 = put_udp a (s\<lparr>u_msg := msg_of_bytes (overlay 0 (take 1032 d) (msg_bytes (u_msg s))), u_receiving := rs,
           u_epRemote := (if r = ReceiveFrom then sender else u_epRemote s)\<rparr>) w"
    and "sh_read h (hdr_msgId (header_of_bytes (take hdrLength d)))
           (hdr_bodyLength (header_of_bytes (take hdrLength d))) a (u_owner s) w1 = Inr (ok, w2)"
    and "udp_heap w2 a = Some s2" and "ec \<noteq> EcOk"
  shows "complete_receive h a EcOk sender d w =
      Inr (put_udp a (s2\<lparr>u_receiving := u_receiving s2 @
        [if u_udpType s2 = UDP_CLIENT then Receive else ReceiveFrom]\<rparr>) w2) \<and>
    complete_receive h a ec sender d w = drop_flag (sh_error h ec a (u_owner s) w1)"
proof -
  let ?hd = "header_of_bytes (take hdrLength d)"
  let ?m = "msg_of_bytes (overlay 0 (take 1032 d) (msg_bytes (u_msg s)))"
  have m: "deposit 0 (take (hdrLength + MAX_CP_MSG_DATA) d) (u_msg s) = Inr ?m"
    by (simp add: deposit_def)
  moreover have "msg_hdr ?m = ?hd"
    using deposit_datagram[OF assms(3), of "u_msg s"] m by auto
  ultimately show ?thesis
    using assms by (simp add: complete_receive_def udp_handleRead_def udp_asyncRead_def)
qed

theorem udp_receive_dispatches_witness:
  "complete_receive echo_handler 7 EcOk (''10.0.0.1'', 5000) [9, 0, 1, 0, 3, 0, 0, 0, 65] udp_world =
      Inr (put_udp 7 (udp_got\<lparr>u_receiving := [ReceiveFrom]\<rparr>) udp_world) \<and>
    complete_receive echo_handler 7 EcEof (''10.0.0.1'', 5000) [9, 0, 1, 0, 3, 0, 0, 0, 65] udp_world =
      drop_flag (sh_error echo_handler EcEof 7 None (put_udp 7 udp_got udp_world))"
  using udp_receive_dispatches
    [of udp_world 7 "udp_idle\<lparr>u_receiving := [ReceiveFrom]\<rparr>" ReceiveFrom "[]"
       "[9, 0, 1, 0, 3, 0, 0, 0, 65]" "put_udp 7 udp_got udp_world" "(''10.0.0.1'', 5000)" echo_handler
       False "put_udp 7 udp_got udp_world" udp_got EcEof]
  by (simp add: udp_world_def udp_idle_def udp_got_def echo_handler_def UdpSession_server_def put_udp_def)

text \<open>
  A local-socket session reads the body that any header announces: after a header with a length
  above 1024 or below zero, which \<open>checkHeader\<close> rejects or not, the outstanding read is for more than
  1024 bytes, and once more than 1024 have arrived they are written past the message object.
\<close>

theorem ipc_oversized_body_overflows:
  assumes "ipc_heap w a = Some s" and "i_reading s = [IpcHeader]"
    and "msg_bodyLength m < 0 \<or> 1024 < msg_bodyLength m" and "1024 < length data"
  shows "\<exists>w1 s1 n. complete_ipc_read h a EcOk (header_bytes (msg_hdr m)) w = Inr w1 \<and>
    ipc_heap w1 a = Some s1 \<and>
    i_reading s1 = [IpcBody n (hdr_msgId (msg_hdr m)) (hdr_bodyLength (msg_hdr m))] \<and> 1024 < n \<and>
    complete_ipc_read h a EcOk data w1 = Inl BufferOverflow"
  using assms size_above_1024[OF assms(3)]
  by (simp add: complete_ipc_read_def ipc_handleReadHeader_def deposit_header msg_bodyLength_def)
    (simp add: deposit_def)

theorem ipc_oversized_body_overflows_witness:
  "\<exists>w1 s1 n. complete_ipc_read echo_handler 7 EcOk
      (header_bytes \<lparr>hdr_version = 1, hdr_result = 0, hdr_bodyLength = 0x500, hdr_msgId = 3\<rparr>)
      (ipc_world_with 7) = Inr w1 \<and>
    ipc_heap w1 7 = Some s1 \<and> i_reading s1 = [IpcBody n 3 0x500] \<and> 1024 < n \<and>
    complete_ipc_read echo_handler 7 EcOk (replicate 1280 0) w1 = Inl BufferOverflow"
  using ipc_oversized_body_overflows
    [of "ipc_world_with 7" 7 "(IpcSession_server blank_message blank_message)\<lparr>i_reading := [IpcHeader]\<rparr>"
       "\<lparr>msg_hdr = \<lparr>hdr_version = 1, hdr_result = 0, hdr_bodyLength = 0x500, hdr_msgId = 3\<rparr>,
         msg_body = []\<rparr>" "replicate 1280 0" echo_handler]
  by (simp add: msg_bodyLength_def ipc_world_with_def IpcSession_server_def)

text \<open>
  C40. The accept loop of the local-socket server never stops: from a started server, any sequence of
  accept completions, successful or not, succeeds and leaves exactly one accept outstanding, on a
  session object of its own; of the sessions before it, those whose accept succeeded are reading a
  header and the others are not.
\<close>

theorem ipc_accept_loop_lives:
  assumes "is_accepting (ipc_server w) = []"
  shows "\<exists>w'. fold_res (\<lambda>ec. complete_ipc_accept ec msg0 send0) ecs (start_accept msg0 send0 w) = Inr w' \<and>
    is_accepting (ipc_server w') = [ipc_alloc w + length ecs] \<and>
    ipc_heap w' (ipc_alloc w + length ecs) = Some (IpcSession_server msg0 send0) \<and>
    (\<forall>i < length ecs. \<exists>s. ipc_heap w' (ipc_alloc w + i) = Some s \<and>
       i_reading s = (if ecs ! i = EcOk then [IpcHeader] else []))"
  using ipc_accept_run[OF start_accept_waiting[OF assms], of msg0 send0 ecs]
  unfolding ipc_waiting_def accepted_reads_def by blast

theorem ipc_accept_loop_lives_witness:
  "\<exists>w'. fold_res (\<lambda>ec. complete_ipc_accept ec blank_message blank_message) [EcOk, EcAborted, EcOk]
       (start_accept blank_message blank_message fresh_ipc_world) = Inr w' \<and>
    is_accepting (ipc_server w') = [3] \<and>
    (\<exists>s. ipc_heap w' 1 = Some s \<and> i_reading s = []) \<and> (\<exists>s. ipc_heap w' 2 = Some s \<and> i_reading s = [IpcHeader])"
  using ipc_accept_loop_lives
    [of fresh_ipc_world blank_message blank_message "[EcOk, EcAborted, EcOk]"]
  by (auto simp: fresh_ipc_world_def less_Suc_eq all_conj_distrib numeral_eq_Suc)

end
