(* ===== verification/Party_Handler.thy ===== *)
theory Party_Handler
  imports Msg_Proto Tcp_Session
begin

text \<open>
  The party server's message handler, \<open>server/HandleMsg.cpp\<close> (\<open>chat_server/HandleMsg.cpp\<close> is the same
  file), which is outside the current build. What it uses and the repository does not hold are
  parameters: the message identifiers, the layout of the message bodies, and the operations of
  \<open>Room\<close> that it calls. \<open>Character\<close> is \<open>server/Character.h\<close>, whose \<open>setRoom\<close> is a stub. Sessions
  are in the older interface: a message object, an identifier, and a list of the messages handed to
  \<open>asyncSend\<close>. The two maps are hash maps that are never iterated over. Their locks are not modelled,
  nor are the log lines.
\<close>

subsection \<open>Parameters\<close>

record party_ids =
  rq_CrteUser :: "32 word"
  rs_CrteUser :: "32 word"
  rq_Login :: "32 word"
  rs_Login :: "32 word"
  rq_CrteParty :: "32 word"
  rs_CrteParty :: "32 word"
  rq_JoinUser :: "32 word"
  rs_JoinUser :: "32 word"
  rq_ReqJoin :: "32 word"
  nf_Message :: "32 word"
  ID_nf_Eco :: "32 word"

text \<open>
  Fields of the bodies read, images of the bodies built, and the capacity of \<open>NfEco::msg\<close>. The readers are total:
  what reading an identifier or a text without a terminator does depends on the structures, which are not in the
  repository. \<open>ra_getCharacter\<close> gives \<open>None\<close> when \<open>getCharacter\<close> answers false, and otherwise the pointer it stored,
  which may be null.
\<close>

record body_layout =
  bl_login_id :: "bytes \<Rightarrow> string"
  bl_party_id :: "bytes \<Rightarrow> string"
  bl_join_from :: "bytes \<Rightarrow> string"
  bl_join_to :: "bytes \<Rightarrow> string"
  bl_join_party :: "bytes \<Rightarrow> 32 word"
  bl_nf_party :: "bytes \<Rightarrow> 32 word"
  bl_nf_text :: "bytes \<Rightarrow> string"
  bl_mk_party :: "32 word \<Rightarrow> bytes"
  bl_mk_reqjoin :: "32 word \<Rightarrow> string \<Rightarrow> string \<Rightarrow> bytes res"
  bl_mk_nf :: "string \<Rightarrow> bytes res"
  bl_eco_size :: nat

record 'r room_api =
  ra_new :: "addr \<Rightarrow> 'r"
  ra_setId :: "int \<Rightarrow> 'r \<Rightarrow> 'r"
  ra_setCharacter :: "addr \<Rightarrow> 'r \<Rightarrow> bool \<times> 'r"
  ra_getCharacter :: "int \<Rightarrow> 'r \<Rightarrow> addr option option"
  ra_cnt :: "'r \<Rightarrow> int"
  ra_id :: "'r \<Rightarrow> 32 word"
  ra_leave :: "addr \<Rightarrow> 'r \<Rightarrow> 'r"

subsection \<open>State\<close>

record party_session =
  ps_msg :: Msg
  ps_id :: string
  ps_sent :: "Msg list"

record party_character =
  pc_id :: string
  pc_name :: string
  pc_sess :: "addr option"
  pc_room :: "addr option"

record 'r party_world =
  p_sessions :: "addr \<Rightarrow> party_session option"
  p_chars :: "addr \<Rightarrow> party_character option"
  p_rooms :: "addr \<Rightarrow> 'r option"
  p_alloc :: addr
  g_characters :: "string \<Rightarrow> addr option"
  g_rooms :: "32 word \<Rightarrow> addr option"
  g_roomId :: int
  p_rx :: "64 word"
  p_tx :: "64 word"
  p_deleted :: "addr list"

definition party_init :: "'r party_world" where
  "party_init = \<lparr>p_sessions = (\<lambda>_. None), p_chars = (\<lambda>_. None), p_rooms = (\<lambda>_. None), p_alloc = 0,
     g_characters = (\<lambda>_. None), g_rooms = (\<lambda>_. None), g_roomId = 0, p_rx = 0, p_tx = 0, p_deleted = []\<rparr>"

definition with_ps :: "addr \<Rightarrow> (party_session \<Rightarrow> 'b res) \<Rightarrow> 'r party_world \<Rightarrow> 'b res" where
  "with_ps a f w = (case p_sessions w a of None \<Rightarrow> Inl NullDeref | Some s \<Rightarrow> f s)"

definition asyncSend :: "addr \<Rightarrow> Msg \<Rightarrow> 'r party_world \<Rightarrow> 'r party_world res" where
  "asyncSend a m w = with_ps a (\<lambda>s.
     Inr (w\<lparr>p_sessions := (p_sessions w)(a \<mapsto> s\<lparr>ps_sent := ps_sent s @ [m]\<rparr>)\<rparr>)) w"

text \<open>\<open>encodeMsg\<close> with an identifier of the parameter list.\<close>

definition encode_id ::
  "32 word \<Rightarrow> ResponseCode_t \<Rightarrow> bytes option \<Rightarrow> int \<Rightarrow> Msg \<Rightarrow> Msg res" where
  "encode_id i result data dataLength m =
     bind_res (encodeMsg_result NONE_MSG_ID result data dataLength m)
       (\<lambda>m. Inr (m\<lparr>msg_hdr := (msg_hdr m)\<lparr>hdr_msgId := i\<rparr>\<rparr>))"

text \<open>A response without a body; \<open>msg0\<close> is the uninitialised \<open>Msg\<close> it is built in.\<close>

definition respond ::
  "32 word \<Rightarrow> ResponseCode_t \<Rightarrow> Msg \<Rightarrow> bool \<Rightarrow> addr \<Rightarrow> 'r party_world \<Rightarrow> (bool \<times> 'r party_world) res" where
  "respond i result msg0 rtn a w =
     bind_res (encode_id i result None 0 msg0) (\<lambda>m. bind_res (asyncSend a m w) (\<lambda>w'. Inr (rtn, w')))"

subsection \<open>Character (server/Character.h, server/Character.cpp)\<close>

definition Character_new :: "string \<Rightarrow> string \<Rightarrow> addr \<Rightarrow> party_character" where
  "Character_new i name sess = \<lparr>pc_id = i, pc_name = name, pc_sess = Some sess, pc_room = None\<rparr>"

definition Character_setRoom :: "addr \<Rightarrow> party_character \<Rightarrow> bool \<times> party_character" where
  "Character_setRoom room c = (True, c)"

definition set_room :: "addr \<Rightarrow> addr \<Rightarrow> 'r party_world \<Rightarrow> 'r party_world res" where
  "set_room c room w = (case p_chars w c of None \<Rightarrow> Inl NullDeref
     | Some ch \<Rightarrow> Inr (w\<lparr>p_chars := (p_chars w)(c \<mapsto> snd (Character_setRoom room ch))\<rparr>))"

subsection \<open>The requests\<close>

definition createUser ::
  "party_ids \<Rightarrow> Msg \<Rightarrow> addr \<Rightarrow> 'r party_world \<Rightarrow> (bool \<times> 'r party_world) res" where
  "createUser ids msg0 a w = respond (rs_CrteUser ids) CREATE_USER_SUCCESS msg0 True a w"

text \<open>\<open>insert\<close> leaves an entry that is already there.\<close>

definition login ::
  "party_ids \<Rightarrow> body_layout \<Rightarrow> Msg \<Rightarrow> addr \<Rightarrow> 'r party_world \<Rightarrow> (bool \<times> 'r party_world) res" where
  "login ids lay msg0 a w = with_ps a (\<lambda>s.
     let i = bl_login_id lay (msg_body (ps_msg s));
         c = p_alloc w;
         w1 = w\<lparr>p_chars := (p_chars w)(c \<mapsto> Character_new i i a), p_alloc := c + 1\<rparr>;
         w2 = (case g_characters w1 i of
                 None \<Rightarrow> w1\<lparr>g_characters := (g_characters w1)(i \<mapsto> c)\<rparr>
               | Some _ \<Rightarrow> w1);
         w3 = w2\<lparr>p_sessions := (p_sessions w2)(a \<mapsto> s\<lparr>ps_id := i\<rparr>)\<rparr>
     in respond (rs_Login ids) LOGIN_SUCCESS msg0 True a w3) w"

definition createParty ::
  "party_ids \<Rightarrow> body_layout \<Rightarrow> 'r room_api \<Rightarrow> Msg \<Rightarrow> addr \<Rightarrow> 'r party_world \<Rightarrow> (bool \<times> 'r party_world) res" where
  "createParty ids lay api msg0 a w = with_ps a (\<lambda>s.
     let i = bl_party_id lay (msg_body (ps_msg s)) in
     case g_characters w i of
       None \<Rightarrow> respond (rs_CrteParty ids) CREATE_PARTY_FAIL msg0 False a w
     | Some c \<Rightarrow>
         let key = word_of_int (g_roomId w) :: 32 word in
         (case g_rooms w key of
            Some _ \<Rightarrow> respond (rs_CrteParty ids) CREATE_PARTY_FAIL msg0 False a w
          | None \<Rightarrow>
              let r = p_alloc w;
                  room = snd (ra_setCharacter api c (ra_setId api (g_roomId w) (ra_new api c)))
              in bind_res (set_room c r (w\<lparr>p_rooms := (p_rooms w)(r \<mapsto> room), p_alloc := r + 1\<rparr>)) (\<lambda>w1.
                 if g_roomId w1 = 2 ^ 31 - 1 then Inl SignedOverflow
                 else
                   let w2 = w1\<lparr>g_rooms := (g_rooms w1)(key \<mapsto> r), g_roomId := g_roomId w1 + 1\<rparr>;
                       body = bl_mk_party lay key
                   in bind_res (encode_id (rs_CrteParty ids) CREATE_PARTY_SUCCESS (Some body)
                                  (int (length body)) msg0) (\<lambda>m.
                      bind_res (asyncSend a m w2) (\<lambda>w3. Inr (True, w3)))))) w"

text \<open>The second half of \<open>joinUser\<close>: both answers of a successful join.\<close>

definition join_answers ::
  "party_ids \<Rightarrow> body_layout \<Rightarrow> bytes \<Rightarrow> addr \<Rightarrow> Msg \<Rightarrow> addr \<Rightarrow> 'r party_world
     \<Rightarrow> (bool \<times> 'r party_world) res" where
  "join_answers ids lay body target msg0 a w =
     bind_res (encode_id (rs_JoinUser ids) JOIN_USER_SUCCESS None 0 msg0) (\<lambda>m1.
     bind_res (asyncSend a m1 w) (\<lambda>w1.
     bind_res (bl_mk_reqjoin lay (bl_join_party lay body) (bl_join_from lay body) (bl_join_to lay body)) (\<lambda>req.
     bind_res (encode_id (rq_ReqJoin ids) NONE_CODE (Some req) (int (length req)) m1) (\<lambda>m2.
     bind_res (asyncSend target m2 w1) (\<lambda>w2. Inr (True, w2))))))"

definition joinUser ::
  "party_ids \<Rightarrow> body_layout \<Rightarrow> 'r room_api \<Rightarrow> Msg \<Rightarrow> addr \<Rightarrow> 'r party_world \<Rightarrow> (bool \<times> 'r party_world) res" where
  "joinUser ids lay api msg0 a w = with_ps a (\<lambda>s.
     let body = msg_body (ps_msg s) in
     case g_characters w (bl_join_to lay body) of
       None \<Rightarrow> respond (rs_JoinUser ids) JOIN_USER_FAIL msg0 False a w
     | Some c \<Rightarrow> (case p_chars w c of
         None \<Rightarrow> Inl NullDeref
       | Some ch \<Rightarrow> (case pc_sess ch of
           None \<Rightarrow> respond (rs_JoinUser ids) JOIN_USER_FAIL msg0 False a w
         | Some target \<Rightarrow> (case g_rooms w (bl_join_party lay body) of
             None \<Rightarrow> respond (rs_JoinUser ids) JOIN_USER_FAIL msg0 False a w
           | Some r \<Rightarrow> (case p_rooms w r of
               None \<Rightarrow> Inl NullDeref
             | Some room \<Rightarrow>
                 let (ok, room') = ra_setCharacter api c room;
                     w1 = w\<lparr>p_rooms := (p_rooms w)(r \<mapsto> room')\<rparr>
                 in if \<not> ok then respond (rs_JoinUser ids) JOIN_USER_FAIL msg0 False a w1
                    else bind_res (set_room c r w1) (join_answers ids lay body target msg0 a)))))) w"

text \<open>One iteration of the loop over the participants.\<close>

definition party_send ::
  "party_ids \<Rightarrow> body_layout \<Rightarrow> 'r room_api \<Rightarrow> 'r \<Rightarrow> string \<Rightarrow> Msg \<Rightarrow> int \<Rightarrow> 'r party_world
     \<Rightarrow> 'r party_world res" where
  "party_send ids lay api room txt1 msg0 i w =
     (case ra_getCharacter api i room of
        None \<Rightarrow> Inr w
      | Some p \<Rightarrow>
          bind_res (bl_mk_nf lay txt1) (\<lambda>nf.
          bind_res (encode_id (nf_Message ids) NONE_CODE (Some nf) (int (length nf)) msg0) (\<lambda>m.
          case p of None \<Rightarrow> Inl NullDeref
          | Some c \<Rightarrow> (case p_chars w c of
              None \<Rightarrow> Inl NullDeref
            | Some ch \<Rightarrow> (case pc_sess ch of None \<Rightarrow> Inl NullDeref | Some b \<Rightarrow> asyncSend b m w)))))"

definition party_nfMessage ::
  "party_ids \<Rightarrow> body_layout \<Rightarrow> 'r room_api \<Rightarrow> Msg \<Rightarrow> addr \<Rightarrow> 'r party_world \<Rightarrow> (bool \<times> 'r party_world) res" where
  "party_nfMessage ids lay api msg0 a w = with_ps a (\<lambda>s.
     let body = msg_body (ps_msg s) in
     case g_rooms w (bl_nf_party lay body) of
       None \<Rightarrow> Inr (False, w)
     | Some r \<Rightarrow> (case p_rooms w r of
         None \<Rightarrow> Inl NullDeref
       | Some room \<Rightarrow>
           bind_res (fold_res (party_send ids lay api room (bl_nf_text lay body) msg0)
                       (map int [0..<nat (ra_cnt api room)]) w)
             (\<lambda>w'. Inr (True, w')))) w"

text \<open>
  The echo: \<open>memcpy\<close> of \<open>len\<close> bytes, an \<open>int16_t\<close> converted to \<open>size_t\<close>, from the received body into
  a local structure.
\<close>

definition nfEco ::
  "party_ids \<Rightarrow> body_layout \<Rightarrow> Msg \<Rightarrow> addr \<Rightarrow> 16 word \<Rightarrow> 'r party_world \<Rightarrow> (bool \<times> 'r party_world) res" where
  "nfEco ids lay msg0 a len w = with_ps a (\<lambda>s.
     let sz = unat (scast len :: 64 word) in
     if sz > bl_eco_size lay then Inl BufferOverflow
     else if sz > length (msg_body (ps_msg s)) then Inl OverRead
     else
       bind_res (encode_id (ID_nf_Eco ids) NONE_CODE (Some (take sz (msg_body (ps_msg s)))) (sint len) msg0) (\<lambda>m.
       bind_res (asyncSend a m w) (\<lambda>w1.
         Inr (True, w1\<lparr>p_tx := p_tx w1 + word_of_int (msg_length m)\<rparr>)))) w"

subsection \<open>ServerHandler\<close>

definition handler_read ::
  "party_ids \<Rightarrow> body_layout \<Rightarrow> 'r room_api \<Rightarrow> Msg \<Rightarrow> 32 word \<Rightarrow> 16 word \<Rightarrow> addr \<Rightarrow> bool \<Rightarrow> 'r party_world
     \<Rightarrow> (bool \<times> 'r party_world) res" where
  "handler_read ids lay api msg0 msgId len a owner_expired w =
     (if owner_expired then Inr (False, w)
      else with_ps a (\<lambda>s.
        let w1 = w\<lparr>p_rx := p_rx w + word_of_int (msg_length (ps_msg s))\<rparr>
        in if msgId = rq_CrteUser ids then createUser ids msg0 a w1
           else if msgId = rq_Login ids then login ids lay msg0 a w1
           else if msgId = rq_CrteParty ids then createParty ids lay api msg0 a w1
           else if msgId = rq_JoinUser ids then joinUser ids lay api msg0 a w1
           else if msgId = nf_Message ids then party_nfMessage ids lay api msg0 a w1
           else if msgId = ID_nf_Eco ids then nfEco ids lay msg0 a len w1
           else Inr (False, w1)) w)"

text \<open>
  A weak pointer to a room yields the room while a map entry holds it; \<open>deleteSession\<close> is recorded.
\<close>

definition lock_room :: "addr option \<Rightarrow> 'r party_world \<Rightarrow> addr option" where
  "lock_room weak w = (case weak of None \<Rightarrow> None
     | Some r \<Rightarrow> (if p_rooms w r = None then None else Some r))"

definition leave_room :: "'r room_api \<Rightarrow> addr \<Rightarrow> party_character \<Rightarrow> 'r party_world \<Rightarrow> 'r party_world" where
  "leave_room api c ch w = (case lock_room (pc_room ch) w of
       None \<Rightarrow> w
     | Some r \<Rightarrow> (case p_rooms w r of
         None \<Rightarrow> w
       | Some room \<Rightarrow>
           let room' = ra_leave api c room;
               w1 = w\<lparr>p_rooms := (p_rooms w)(r \<mapsto> room')\<rparr>
           in if ra_cnt api room' = 0
              then w1\<lparr>g_rooms := (g_rooms w1)(ra_id api room' := None), p_rooms := (p_rooms w1)(r := None)\<rparr>
              else w1))"

definition handler_error ::
  "'r room_api \<Rightarrow> error_code \<Rightarrow> addr \<Rightarrow> bool \<Rightarrow> 'r party_world \<Rightarrow> (bool \<times> 'r party_world) res" where
  "handler_error api ec a owner_expired w =
     (if ec = EcOk then Inr (True, w)
      else if owner_expired then Inr (False, w)
      else with_ps a (\<lambda>s.
        bind_res (if ps_id s = [] then Inr w
                  else (case g_characters w (ps_id s) of
                          None \<Rightarrow> Inr w
                        | Some c \<Rightarrow> (case p_chars w c of
                            None \<Rightarrow> Inl NullDeref
                          | Some ch \<Rightarrow>
                              let w1 = leave_room api c ch w
                              in Inr (w1\<lparr>g_characters := (g_characters w1)(pc_id ch := None)\<rparr>))))
          (\<lambda>w1. Inr (True, w1\<lparr>p_deleted := p_deleted w1 @ [a]\<rparr>))) w)"

definition handler_connect :: "addr \<Rightarrow> 'r party_world \<Rightarrow> (bool \<times> 'r party_world) res" where
  "handler_connect a w = Inr (True, w)"

subsection \<open>The handler as a step relation\<close>

text \<open>
  Between two calls of the handler a session may be accepted and a message may arrive in a session's
  buffer.
\<close>

inductive party_step ::
  "party_ids \<Rightarrow> body_layout \<Rightarrow> 'r room_api \<Rightarrow> 'r party_world \<Rightarrow> 'r party_world \<Rightarrow> bool"
  for ids lay api where
  step_accept: "p_sessions w a = None \<Longrightarrow> party_step ids lay api w
     (w\<lparr>p_sessions := (p_sessions w)(a \<mapsto> \<lparr>ps_msg = m, ps_id = [], ps_sent = []\<rparr>)\<rparr>)"
| step_receive: "p_sessions w a = Some s \<Longrightarrow> party_step ids lay api w
     (w\<lparr>p_sessions := (p_sessions w)(a \<mapsto> s\<lparr>ps_msg := m\<rparr>)\<rparr>)"
| step_read: "handler_read ids lay api msg0 i len a gone w = Inr (ok, w') \<Longrightarrow> party_step ids lay api w w'"
| step_error: "handler_error api ec a gone w = Inr (ok, w') \<Longrightarrow> party_step ids lay api w w'"

inductive party_reach ::
  "party_ids \<Rightarrow> body_layout \<Rightarrow> 'r room_api \<Rightarrow> 'r party_world \<Rightarrow> 'r party_world \<Rightarrow> bool"
  for ids lay api w0 where
  reach_start: "party_reach ids lay api w0 w0"
| reach_next: "party_reach ids lay api w0 w \<Longrightarrow> party_step ids lay api w w' \<Longrightarrow> party_reach ids lay api w0 w'"

text \<open>
  The invariant: registered characters exist under their own name, a character has a session and, as
  \<open>setRoom\<close> is a stub, no room; every registered room exists under a number already handed out.
\<close>

definition party_inv :: "'r party_world \<Rightarrow> bool" where
  "party_inv w \<longleftrightarrow>
     (\<forall>i c. g_characters w i = Some c \<longrightarrow> (\<exists>ch. p_chars w c = Some ch \<and> pc_id ch = i)) \<and>
     (\<forall>c ch. p_chars w c = Some ch \<longrightarrow> c < p_alloc w \<and> pc_room ch = None \<and>
        pc_sess ch \<noteq> None \<and> p_sessions w (the (pc_sess ch)) \<noteq> None) \<and>
     (\<forall>k r. g_rooms w k = Some r \<longrightarrow> p_rooms w r \<noteq> None \<and> uint k < g_roomId w) \<and>
     (\<forall>r. p_rooms w r \<noteq> None \<longrightarrow> r < p_alloc w) \<and> 0 \<le> g_roomId w \<and> g_roomId w < 2 ^ 31"

definition sends_only :: "'r party_world \<Rightarrow> 'r party_world \<Rightarrow> bool" where
  "sends_only w w' \<longleftrightarrow> (\<exists>ss tx. w' = w\<lparr>p_sessions := ss, p_tx := tx\<rparr> \<and>
     (\<forall>a. p_sessions w a \<noteq> None \<longrightarrow> ss a \<noteq> None))"

definition keeps_rooms :: "'r party_world \<Rightarrow> 'r party_world \<Rightarrow> bool" where
  "keeps_rooms w w' \<longleftrightarrow> (\<forall>k r. g_rooms w k = Some r \<longrightarrow> g_rooms w' k = Some r)"

lemma with_ps_Some [simp]: "p_sessions w a = Some s \<Longrightarrow> with_ps a f w = f s"
  by (simp add: with_ps_def)

lemma with_ps_eq_Inr: "with_ps a f w = Inr r \<longleftrightarrow> (\<exists>s. p_sessions w a = Some s \<and> f s = Inr r)"
  by (auto simp: with_ps_def split: option.splits)

lemma encode_none:
  "encode_id i result None 0 m = Inr (m\<lparr>msg_hdr := \<lparr>hdr_version = 1,
     hdr_result = word_of_int (ResponseCode_val result), hdr_bodyLength = 0, hdr_msgId = i\<rparr>\<rparr>)"
  by (simp add: encode_id_def encodeMsg_result_def Let_def)

lemma sends_only_refl [simp]: "sends_only w w"
  unfolding sends_only_def by (intro exI[of _ "p_sessions w"] exI[of _ "p_tx w"]) simp

lemma sends_only_trans:
  assumes "sends_only u v" and "sends_only v w"
  shows "sends_only u w"
proof -
  obtain ss tx where v: "v = u\<lparr>p_sessions := ss, p_tx := tx\<rparr>" "\<forall>a. p_sessions u a \<noteq> None \<longrightarrow> ss a \<noteq> None"
    using assms(1) by (auto simp: sends_only_def)
  obtain ss' tx' where w: "w = v\<lparr>p_sessions := ss', p_tx := tx'\<rparr>" "\<forall>a. p_sessions v a \<noteq> None \<longrightarrow> ss' a \<noteq> None"
    using assms(2) by (auto simp: sends_only_def)
  show ?thesis
    unfolding sends_only_def using v w by (intro exI[of _ ss'] exI[of _ tx']) simp
qed

lemma sends_only_inv: "sends_only w w' \<Longrightarrow> party_inv w \<Longrightarrow> party_inv w'"
  unfolding sends_only_def party_inv_def by (elim exE conjE) (simp del: not_None_eq)

lemma sends_only_rooms: "sends_only w w' \<Longrightarrow> keeps_rooms w w'"
  by (auto simp: sends_only_def keeps_rooms_def)

lemma asyncSend_sends: "asyncSend a m w = Inr w' \<Longrightarrow> sends_only w w'"
  unfolding sends_only_def
  by (auto simp: asyncSend_def with_ps_eq_Inr intro!: exI[of _ "p_sessions w'"] exI[of _ "p_tx w"])

lemma respond_sends: "respond i result msg0 rtn a w = Inr (b, w') \<Longrightarrow> b = rtn \<and> sends_only w w'"
  by (auto simp: respond_def encode_none bind_res_eq_Inr dest: asyncSend_sends)

lemma party_send_sends: "party_send ids lay api room txt1 msg0 i w = Inr w' \<Longrightarrow> sends_only w w'"
  by (auto simp: party_send_def bind_res_eq_Inr dest: asyncSend_sends split: option.splits)

lemma party_nfMessage_sends:
  assumes "party_nfMessage ids lay api msg0 a w = Inr (b, w')"
  shows "sends_only w w'"
proof -
  have fold: "sends_only w v" if "fold_res (party_send ids lay api room txt1 msg0) xs w = Inr v" for room txt1 xs v
    by (rule fold_res_invariant[where P = "sends_only w", OF _ _ that])
      (auto intro: sends_only_trans party_send_sends)
  show ?thesis
    using assms
    by (auto simp: party_nfMessage_def with_ps_eq_Inr bind_res_eq_Inr Let_def dest: fold split: option.splits)
qed

lemma sends_only_tx: "sends_only w w' \<Longrightarrow> sends_only w (w'\<lparr>p_tx := n\<rparr>)"
  unfolding sends_only_def by (elim exE conjE) (intro exI conjI, auto)

lemma nfEco_sends: "nfEco ids lay msg0 a len w = Inr (b, w') \<Longrightarrow> sends_only w w'"
  by (auto simp: nfEco_def with_ps_eq_Inr bind_res_eq_Inr Let_def
      dest!: asyncSend_sends intro!: sends_only_tx split: if_splits)

lemma set_room_unchanged: "set_room c r w = Inr w' \<Longrightarrow> w' = w"
  by (auto simp: set_room_def Character_setRoom_def fun_upd_idem split: option.splits)

lemma login_ok:
  assumes "party_inv w" and "login ids lay msg0 a w = Inr (b, w')"
  shows "party_inv w' \<and> keeps_rooms w w'"
proof -
  obtain s where s: "p_sessions w a = Some s" using assms(2) by (auto simp: login_def with_ps_eq_Inr)
  define i where "i = bl_login_id lay (msg_body (ps_msg s))"
  define cs where "cs = (case g_characters w i of None \<Rightarrow> (g_characters w)(i \<mapsto> p_alloc w) | Some _ \<Rightarrow> g_characters w)"
  define w3 where "w3 = w\<lparr>p_chars := (p_chars w)(p_alloc w \<mapsto> Character_new i i a), p_alloc := p_alloc w + 1,
    g_characters := cs, p_sessions := (p_sessions w)(a \<mapsto> s\<lparr>ps_id := i\<rparr>)\<rparr>"
  have "respond (rs_Login ids) LOGIN_SUCCESS msg0 True a w3 = Inr (b, w')"
    using assms(2) s by (simp add: login_def Let_def i_def w3_def cs_def split: option.splits)
  then have so: "sends_only w3 w'" using respond_sends by blast
  have fresh: "p_chars w (p_alloc w) = None"
    using assms(1) by (fastforce simp: party_inv_def)
  have "party_inv w3"
    using assms(1) s fresh unfolding party_inv_def w3_def cs_def
    by (auto simp: Character_new_def less_Suc_eq split: option.splits)
  moreover have "keeps_rooms w w3" by (simp add: keeps_rooms_def w3_def)
  ultimately show ?thesis
    using sends_only_inv[OF so] sends_only_rooms[OF so] by (auto simp: keeps_rooms_def)
qed

text \<open>The next room number, converted to a map key, is not in use.\<close>

lemma uint_room_key:
  "party_inv w \<Longrightarrow> uint (word_of_int (g_roomId w) :: 32 word) = g_roomId w"
  by (simp add: party_inv_def unsigned_of_int take_bit_int_eq_self)

lemma key_fresh:
  assumes "party_inv w"
  shows "g_rooms w (word_of_int (g_roomId w)) = None"
proof (rule ccontr)
  assume "g_rooms w (word_of_int (g_roomId w)) \<noteq> None"
  then obtain r where "g_rooms w (word_of_int (g_roomId w)) = Some r" by blast
  then have "uint (word_of_int (g_roomId w) :: 32 word) < g_roomId w"
    using assms unfolding party_inv_def by blast
  with uint_room_key[OF assms] show False by simp
qed

lemma createParty_cases:
  assumes "party_inv w" and "createParty ids lay api msg0 a w = Inr (b, w')"
  obtains (refused) "b = False" "sends_only w w'"
  | (created) r room w2 c where "b = True" "r = p_alloc w"
      "w2 = w\<lparr>p_rooms := (p_rooms w)(r \<mapsto> room), p_alloc := r + 1,
         g_rooms := (g_rooms w)(word_of_int (g_roomId w) \<mapsto> r), g_roomId := g_roomId w + 1\<rparr>"
      "g_roomId w < 2 ^ 31 - 1" "sends_only w2 w'" "p_chars w c \<noteq> None"
      "room = snd (ra_setCharacter api c (ra_setId api (g_roomId w) (ra_new api c)))"
proof -
  obtain s where s: "p_sessions w a = Some s" using assms(2) by (auto simp: createParty_def with_ps_eq_Inr)
  show thesis
  proof (cases "g_characters w (bl_party_id lay (msg_body (ps_msg s)))")
    case None
    then have "respond (rs_CrteParty ids) CREATE_PARTY_FAIL msg0 False a w = Inr (b, w')"
      using assms(2) s by (simp add: createParty_def Let_def)
    from respond_sends[OF this] refused show thesis by blast
  next
    case (Some c)
    define room where "room = snd (ra_setCharacter api c (ra_setId api (g_roomId w) (ra_new api c)))"
    define w1 where "w1 = w\<lparr>p_rooms := (p_rooms w)(p_alloc w \<mapsto> room), p_alloc := p_alloc w + 1\<rparr>"
    let ?key = "word_of_int (g_roomId w) :: 32 word"
    let ?w2 = "w1\<lparr>g_rooms := (g_rooms w1)(?key \<mapsto> p_alloc w), g_roomId := g_roomId w1 + 1\<rparr>"
    have "bind_res (set_room c (p_alloc w) w1) (\<lambda>w1. if g_roomId w1 = 2 ^ 31 - 1 then Inl SignedOverflow
        else bind_res (encode_id (rs_CrteParty ids) CREATE_PARTY_SUCCESS (Some (bl_mk_party lay ?key))
                         (int (length (bl_mk_party lay ?key))) msg0) (\<lambda>m.
             bind_res (asyncSend a m (w1\<lparr>g_rooms := (g_rooms w1)(?key \<mapsto> p_alloc w), g_roomId := g_roomId w1 + 1\<rparr>))
               (\<lambda>w3. Inr (True, w3)))) = Inr (b, w')"
      using assms(2) s Some key_fresh[OF assms(1)] by (simp add: createParty_def Let_def room_def w1_def cong: if_cong)
    then obtain w1' m where w1': "set_room c (p_alloc w) w1 = Inr w1'"
      and lim: "g_roomId w1' \<noteq> 2 ^ 31 - 1" and b: "b = True"
      and snd1: "asyncSend a m (w1'\<lparr>g_rooms := (g_rooms w1')(?key \<mapsto> p_alloc w), g_roomId := g_roomId w1' + 1\<rparr>) = Inr w'"
      by (auto simp: bind_res_eq_Inr split: if_splits)
    have "w1' = w1" using set_room_unchanged[OF w1'] .
    then have so: "sends_only ?w2 w'" and "g_roomId w \<noteq> 2 ^ 31 - 1"
      using asyncSend_sends[OF snd1] lim by (simp_all add: w1_def)
    moreover have "g_roomId w < 2 ^ 31" using assms(1) by (simp add: party_inv_def)
    moreover have "p_chars w c \<noteq> None" using w1' by (auto simp: set_room_def w1_def split: option.splits)
    ultimately show thesis
      using created[OF b refl, of ?w2 room] by (simp add: w1_def room_def)
  qed
qed

lemma createParty_ok:
  assumes "party_inv w" and "createParty ids lay api msg0 a w = Inr (b, w')"
  shows "party_inv w' \<and> keeps_rooms w w'"
  using assms
proof (cases rule: createParty_cases)
  case refused
  then show ?thesis using assms(1) sends_only_inv sends_only_rooms by blast
next
  case (created r room w2 c)
  have "party_inv w2"
    using assms(1) created(2-4) uint_room_key[OF assms(1)]
    unfolding party_inv_def created(3) by (auto simp: less_Suc_eq intro: less_imp_le split: if_splits)
  moreover have "keeps_rooms w w2"
    using created(3) key_fresh[OF assms(1)] by (auto simp: keeps_rooms_def)
  ultimately show ?thesis
    using sends_only_inv[OF created(5)] sends_only_rooms[OF created(5)] by (auto simp: keeps_rooms_def)
qed

lemma join_answers_sends:
  "join_answers ids lay body target msg0 a w = Inr (b, w') \<Longrightarrow> b = True \<and> sends_only w w'"
  by (auto simp: join_answers_def bind_res_eq_Inr dest!: asyncSend_sends intro: sends_only_trans)

lemma room_update_ok:
  assumes "party_inv w" and "p_rooms w r = Some room"
  shows "party_inv (w\<lparr>p_rooms := (p_rooms w)(r \<mapsto> room')\<rparr>)"
  using assms unfolding party_inv_def by (auto split: if_splits)

lemma joinUser_cases:
  assumes "joinUser ids lay api msg0 a w = Inr (b, w')"
  obtains (refused) "sends_only w w'"
  | (asked) c r room where "p_chars w c \<noteq> None" "p_rooms w r = Some room"
      "sends_only (w\<lparr>p_rooms := (p_rooms w)(r \<mapsto> snd (ra_setCharacter api c room))\<rparr>) w'"
proof -
  obtain s where s: "p_sessions w a = Some s" using assms by (auto simp: joinUser_def with_ps_eq_Inr)
  let ?body = "msg_body (ps_msg s)"
  have fail: "sends_only v v'" if "respond (rs_JoinUser ids) JOIN_USER_FAIL msg0 False a v = Inr (b, v')" for v v'
    using respond_sends[OF that] by blast
  show thesis
  proof (cases "respond (rs_JoinUser ids) JOIN_USER_FAIL msg0 False a w = Inr (b, w')")
    case True
    then show thesis using fail refused by blast
  next
    case False
    then obtain c ch target r room where f: "g_characters w (bl_join_to lay ?body) = Some c"
      "p_chars w c = Some ch" "pc_sess ch = Some target"
      "g_rooms w (bl_join_party lay ?body) = Some r" and room: "p_rooms w r = Some room"
      using assms s by (auto simp: joinUser_def Let_def split: option.splits)
    obtain ok room' where set1: "ra_setCharacter api c room = (ok, room')" by fastforce
    let ?w1 = "w\<lparr>p_rooms := (p_rooms w)(r \<mapsto> room')\<rparr>"
    have "sends_only ?w1 w'"
    proof (cases ok)
      case True
      then obtain v where v: "set_room c r ?w1 = Inr v" "join_answers ids lay ?body target msg0 a v = Inr (b, w')"
        using assms s f room set1 by (auto simp: joinUser_def Let_def bind_res_eq_Inr)
      then show ?thesis using set_room_unchanged[OF v(1)] join_answers_sends[OF v(2)] by simp
    next
      case False
      then show ?thesis using assms s f room set1 fail by (simp add: joinUser_def Let_def)
    qed
    then show thesis using asked[of c r room] f(2) room set1 by simp
  qed
qed

lemma joinUser_ok:
  assumes "party_inv w" and "joinUser ids lay api msg0 a w = Inr (b, w')"
  shows "party_inv w' \<and> keeps_rooms w w'"
  using assms(2)
proof (cases rule: joinUser_cases)
  case refused
  then show ?thesis using assms(1) sends_only_inv sends_only_rooms by blast
next
  case (asked c r room)
  then show ?thesis
    using sends_only_inv[OF asked(3) room_update_ok[OF assms(1) asked(2)]] sends_only_rooms[OF asked(3)]
    by (simp add: keeps_rooms_def)
qed

lemma party_inv_rx [simp]: "party_inv (w\<lparr>p_rx := n\<rparr>) = party_inv w" "keeps_rooms (w\<lparr>p_rx := n\<rparr>) w' = keeps_rooms w w'"
  by (simp_all add: party_inv_def keeps_rooms_def)

lemma handler_read_cases:
  assumes "handler_read ids lay api msg0 i len a gone w = Inr (b, w')"
  obtains (unchanged) n where "w' = w\<lparr>p_rx := n\<rparr>"
  | (sends) n where "sends_only (w\<lparr>p_rx := n\<rparr>) w'"
  | (login) n where "login ids lay msg0 a (w\<lparr>p_rx := n\<rparr>) = Inr (b, w')"
  | (createParty) n where "createParty ids lay api msg0 a (w\<lparr>p_rx := n\<rparr>) = Inr (b, w')"
  | (joinUser) n where "joinUser ids lay api msg0 a (w\<lparr>p_rx := n\<rparr>) = Inr (b, w')"
proof (cases gone)
  case True
  then show thesis using assms unchanged[of "p_rx w"] by (simp add: handler_read_def)
next
  case False
  obtain s where s: "p_sessions w a = Some s" using assms False by (auto simp: handler_read_def with_ps_eq_Inr)
  define n where "n = p_rx w + word_of_int (msg_length (ps_msg s))"
  let ?w1 = "w\<lparr>p_rx := n\<rparr>"
  consider "createUser ids msg0 a ?w1 = Inr (b, w')" | "login ids lay msg0 a ?w1 = Inr (b, w')"
    | "createParty ids lay api msg0 a ?w1 = Inr (b, w')" | "joinUser ids lay api msg0 a ?w1 = Inr (b, w')"
    | "party_nfMessage ids lay api msg0 a ?w1 = Inr (b, w')" | "nfEco ids lay msg0 a len ?w1 = Inr (b, w')"
    | "w' = ?w1"
    using assms False s by (auto simp: handler_read_def n_def Let_def split: if_splits)
  then show thesis
  proof cases
    case 1
    then show thesis using respond_sends sends unfolding createUser_def by blast
  next
    case 5
    then show thesis using party_nfMessage_sends sends by blast
  next
    case 6
    then show thesis using nfEco_sends sends by blast
  qed (fact login createParty joinUser unchanged)+
qed

lemma handler_read_ok:
  assumes "party_inv w" and "handler_read ids lay api msg0 i len a gone w = Inr (b, w')"
  shows "party_inv w' \<and> keeps_rooms w w'"
proof -
  have inv: "party_inv (w\<lparr>p_rx := n\<rparr>)" for n using assms(1) by simp
  show ?thesis
    using assms(2)
  proof (cases rule: handler_read_cases)
    case (unchanged n)
    then show ?thesis using assms(1) by (simp add: keeps_rooms_def)
  next
    case (sends n)
    then show ?thesis using sends_only_inv[OF sends inv] sends_only_rooms[OF sends] by simp
  next
    case (login n)
    then show ?thesis using login_ok[OF inv] by simp
  next
    case (createParty n)
    then show ?thesis using createParty_ok[OF inv] by simp
  next
    case (joinUser n)
    then show ?thesis using joinUser_ok[OF inv] by simp
  qed
qed

text \<open>No character has a room, so none is left or erased when a session fails.\<close>

lemma leave_room_stays: "party_inv w \<Longrightarrow> p_chars w c = Some ch \<Longrightarrow> leave_room api c ch w = w"
  by (auto simp: leave_room_def lock_room_def party_inv_def)

lemma handler_error_cases:
  assumes "party_inv w" and "handler_error api ec a gone w = Inr (b, w')"
  obtains (ignored) "w' = w" "ec = EcOk \<or> gone"
  | (no_character) "w' = w\<lparr>p_deleted := p_deleted w @ [a]\<rparr>" "b = True"
  | (removed) s where "p_sessions w a = Some s" "g_characters w (ps_id s) \<noteq> None" "b = True"
      "w' = w\<lparr>g_characters := (g_characters w)(ps_id s := None), p_deleted := p_deleted w @ [a]\<rparr>"
proof (cases "ec = EcOk \<or> gone")
  case True
  then show thesis using assms(2) ignored by (auto simp: handler_error_def split: if_splits)
next
  case False
  then obtain s where s: "p_sessions w a = Some s"
    using assms(2) by (auto simp: handler_error_def with_ps_eq_Inr)
  show thesis
  proof (cases "ps_id s = [] \<or> g_characters w (ps_id s) = None")
    case True
    then have "(if ps_id s = [] then Inr w
        else (case g_characters w (ps_id s) of None \<Rightarrow> Inr w
              | Some c \<Rightarrow> (case p_chars w c of None \<Rightarrow> Inl NullDeref
                | Some ch \<Rightarrow> let w1 = leave_room api c ch w
                             in Inr (w1\<lparr>g_characters := (g_characters w1)(pc_id ch := None)\<rparr>)))) = Inr w"
      by auto
    then show thesis using False assms(2) s no_character by (simp add: handler_error_def)
  next
    case found: False
    then obtain c where c: "g_characters w (ps_id s) = Some c" by blast
    then obtain ch where ch: "p_chars w c = Some ch" "pc_id ch = ps_id s"
      using assms(1) unfolding party_inv_def by blast
    show thesis
      using False assms(2) s found c ch leave_room_stays[OF assms(1) ch(1)]
      by (intro removed[OF s]) (auto simp: handler_error_def)
  qed
qed

lemma handler_error_ok:
  assumes "party_inv w" and "handler_error api ec a gone w = Inr (b, w')"
  shows "party_inv w' \<and> keeps_rooms w w'"
  using assms
proof (cases rule: handler_error_cases)
  case (removed s)
  then show ?thesis using assms(1) by (simp add: party_inv_def keeps_rooms_def)
qed (use assms(1) in \<open>auto simp: party_inv_def keeps_rooms_def\<close>)

lemma party_step_ok:
  assumes "party_step ids lay api w w'" and "party_inv w"
  shows "party_inv w' \<and> keeps_rooms w w'"
  using assms
proof cases
  case (step_accept a m)
  then show ?thesis using assms(2) by (auto simp: party_inv_def keeps_rooms_def)
next
  case (step_receive a s m)
  then show ?thesis using assms(2) by (auto simp: party_inv_def keeps_rooms_def)
next
  case (step_read msg0 i len a gone ok)
  then show ?thesis using handler_read_ok assms(2) by blast
next
  case (step_error ec a gone ok)
  then show ?thesis using handler_error_ok assms(2) by blast
qed

lemma party_reach_ok: "party_reach ids lay api w0 w \<Longrightarrow> party_inv w0 \<Longrightarrow> party_inv w \<and> keeps_rooms w0 w"
  by (induction rule: party_reach.induct) (auto simp: keeps_rooms_def dest: party_step_ok)

lemma party_inv_init: "party_inv party_init"
  by (simp add: party_inv_def party_init_def)

subsection \<open>Effects of the requests\<close>

text \<open>The message a response or notification is built into, given a body of at most 1024 bytes.\<close>

definition party_msg :: "32 word \<Rightarrow> ResponseCode_t \<Rightarrow> bytes \<Rightarrow> Msg \<Rightarrow> Msg" where
  "party_msg i result body msg0 = msg0\<lparr>msg_hdr := \<lparr>hdr_version = 1, hdr_result = word_of_int (ResponseCode_val result),
     hdr_bodyLength = word_of_int (int (length body)), hdr_msgId = i\<rparr>, msg_body := overlay 0 body (msg_body msg0)\<rparr>"

lemma encode_data:
  assumes "length body \<le> 1024"
  shows "encode_id i result (Some body) (int (length body)) msg0 = Inr (party_msg i result body msg0)"
proof -
  have "sint (word_of_int (int (length body)) :: 16 word) = int (length body)"
    by (rule bodyLength_word_of_int) (use assms in simp_all)
  moreover have "memcpy_body body (int (length body)) m = Inr (m\<lparr>msg_body := overlay 0 body (msg_body m)\<rparr>)" for m
    using assms memcpy_body_ok[of "int (length body)" body m] by simp
  ultimately show ?thesis
    by (cases "body = []") (auto simp: encode_id_def encodeMsg_result_def party_msg_def Let_def)
qed

lemma encode_none_msg: "encode_id i result None 0 msg0 = Inr (party_msg i result [] msg0)"
  by (simp add: encode_none party_msg_def)

definition sent_to :: "'r party_world \<Rightarrow> addr \<Rightarrow> Msg list" where
  "sent_to w a = (case p_sessions w a of None \<Rightarrow> [] | Some s \<Rightarrow> ps_sent s)"

definition add_sent :: "addr \<Rightarrow> Msg \<Rightarrow> 'r party_world \<Rightarrow> 'r party_world" where
  "add_sent a m w = w\<lparr>p_sessions := (p_sessions w)(a := map_option (\<lambda>s. s\<lparr>ps_sent := ps_sent s @ [m]\<rparr>) (p_sessions w a))\<rparr>"

lemma asyncSend_eq: "p_sessions w a \<noteq> None \<Longrightarrow> asyncSend a m w = Inr (add_sent a m w)"
  by (auto simp: asyncSend_def add_sent_def)

lemma respond_eq:
  "p_sessions w a \<noteq> None \<Longrightarrow>
     respond i result msg0 rtn a w = Inr (rtn, add_sent a (party_msg i result [] msg0) w)"
  by (simp add: respond_def encode_none_msg asyncSend_eq del: not_None_eq)

lemma add_sent_fields [simp]:
  "p_chars (add_sent a m w) = p_chars w" "p_rooms (add_sent a m w) = p_rooms w"
  "g_characters (add_sent a m w) = g_characters w" "g_rooms (add_sent a m w) = g_rooms w"
  "g_roomId (add_sent a m w) = g_roomId w" "p_alloc (add_sent a m w) = p_alloc w"
  "p_sessions (add_sent a m w) b = None \<longleftrightarrow> p_sessions w b = None"
  by (simp_all add: add_sent_def)

lemma sent_to_add [simp]:
  "p_sessions w a \<noteq> None \<Longrightarrow> sent_to (add_sent a m w) b = sent_to w b @ (if b = a then [m] else [])"
  by (auto simp: sent_to_def add_sent_def)

text \<open>The session in a slot of a room.\<close>

definition slot_session :: "'r room_api \<Rightarrow> 'r \<Rightarrow> (addr \<Rightarrow> party_character option) \<Rightarrow> int \<Rightarrow> addr option" where
  "slot_session api room cs i = (case ra_getCharacter api i room of
       Some (Some c) \<Rightarrow> (case cs c of None \<Rightarrow> None | Some ch \<Rightarrow> pc_sess ch)
     | _ \<Rightarrow> None)"

text \<open>A slot that can be sent to: \<open>getCharacter\<close> answers false, or gives a character that exists.\<close>

definition slot_alive :: "'r room_api \<Rightarrow> 'r \<Rightarrow> (addr \<Rightarrow> party_character option) \<Rightarrow> int \<Rightarrow> bool" where
  "slot_alive api room cs i = (case ra_getCharacter api i room of
       None \<Rightarrow> True | Some None \<Rightarrow> False | Some (Some c) \<Rightarrow> cs c \<noteq> None)"

lemma character_session:
  assumes "party_inv w" and "p_chars w c = Some ch"
  obtains b where "pc_sess ch = Some b" "p_sessions w b \<noteq> None"
proof -
  have "pc_sess ch \<noteq> None \<and> p_sessions w (the (pc_sess ch)) \<noteq> None"
    using assms unfolding party_inv_def by blast
  then show thesis using that by (metis option.collapse)
qed

lemma party_send_fold:
  assumes inv: "party_inv w" and nf: "bl_mk_nf lay txt1 = Inr nf" "length nf \<le> 1024"
    and alive: "\<forall>i \<in> set xs. slot_alive api room (p_chars w) i"
  shows "\<exists>w'. fold_res (party_send ids lay api room txt1 msg0) xs w = Inr w' \<and>
    (\<forall>b. sent_to w' b = sent_to w b @ replicate (length (filter (\<lambda>i. slot_session api room (p_chars w) i = Some b) xs))
       (party_msg (nf_Message ids) NONE_CODE nf msg0)) \<and>
    p_chars w' = p_chars w \<and> g_rooms w' = g_rooms w \<and> p_rooms w' = p_rooms w"
  using inv alive
proof (induction xs arbitrary: w)
  case Nil
  then show ?case by simp
next
  case (Cons i xs)
  let ?m = "party_msg (nf_Message ids) NONE_CODE nf msg0"
  show ?case
  proof (cases "ra_getCharacter api i room")
    case None
    then show ?thesis using Cons.IH[OF Cons.prems(1)] Cons.prems(2)
      by (simp add: party_send_def slot_session_def)
  next
    case (Some ptr)
    then obtain c ch where Some: "ra_getCharacter api i room = Some (Some c)" and ch: "p_chars w c = Some ch"
      using Cons.prems(2) by (auto simp: slot_alive_def split: option.splits)
    obtain b where b: "pc_sess ch = Some b" "p_sessions w b \<noteq> None"
      by (rule character_session[OF Cons.prems(1) ch])
    let ?v = "add_sent b ?m w"
    have step: "party_send ids lay api room txt1 msg0 i w = Inr ?v"
      using Some ch b nf encode_data[OF nf(2)] by (simp add: party_send_def asyncSend_eq del: not_None_eq)
    have "party_inv ?v"
      using sends_only_inv[OF asyncSend_sends[OF asyncSend_eq[OF b(2)]] Cons.prems(1)] .
    moreover have "\<forall>i \<in> set xs. slot_alive api room (p_chars ?v) i"
      using Cons.prems(2) by (simp del: not_None_eq)
    ultimately obtain w' where
      w': "fold_res (party_send ids lay api room txt1 msg0) xs ?v = Inr w'"
      and s: "\<forall>d. sent_to w' d = sent_to ?v d @
        replicate (length (filter (\<lambda>i. slot_session api room (p_chars w) i = Some d) xs)) ?m"
      and k: "p_chars w' = p_chars w" "g_rooms w' = g_rooms w" "p_rooms w' = p_rooms w"
      using Cons.IH[of ?v] by (auto simp del: not_None_eq sent_to_add)
    have "slot_session api room (p_chars w) i = Some b"
      using Some ch b by (simp add: slot_session_def)
    then show ?thesis using step w' s k b(2) by (intro exI[of _ w']) (simp del: not_None_eq)
  qed
qed

lemma createParty_success:
  assumes "party_inv w" and "p_sessions w a = Some s"
    and "g_characters w (bl_party_id lay (msg_body (ps_msg s))) = Some c" and "k = word_of_int (g_roomId w)"
    and "length (bl_mk_party lay k) \<le> 1024" and "g_roomId w < 2 ^ 31 - 1"
  shows "\<exists>w'. createParty ids lay api msg0 a w = Inr (True, w') \<and>
    g_rooms w' = (g_rooms w)(k \<mapsto> p_alloc w) \<and> p_rooms w' (p_alloc w) \<noteq> None \<and> g_roomId w' = g_roomId w + 1 \<and>
    sent_to w' a = sent_to w a @ [party_msg (rs_CrteParty ids) CREATE_PARTY_SUCCESS (bl_mk_party lay k) msg0]"
proof -
  obtain ch where ch: "p_chars w c = Some ch" using assms(1,3) unfolding party_inv_def by blast
  define room where "room = snd (ra_setCharacter api c (ra_setId api (g_roomId w) (ra_new api c)))"
  define w2 where "w2 = w\<lparr>p_rooms := (p_rooms w)(p_alloc w \<mapsto> room), p_alloc := p_alloc w + 1,
    g_rooms := (g_rooms w)(k \<mapsto> p_alloc w), g_roomId := g_roomId w + 1\<rparr>"
  have "createParty ids lay api msg0 a w =
      Inr (True, add_sent a (party_msg (rs_CrteParty ids) CREATE_PARTY_SUCCESS (bl_mk_party lay k) msg0) w2)"
    using assms(2-6) ch key_fresh[OF assms(1)] encode_data[OF assms(5)]
    by (simp add: createParty_def set_room_def Character_setRoom_def Let_def room_def w2_def
        asyncSend_eq fun_upd_idem)
  moreover have "p_sessions w2 a \<noteq> None" "sent_to w2 a = sent_to w a" "p_rooms w2 (p_alloc w) \<noteq> None"
      "g_rooms w2 = (g_rooms w)(k \<mapsto> p_alloc w)" "g_roomId w2 = g_roomId w + 1"
    using assms(2) by (simp_all add: w2_def sent_to_def)
  ultimately show ?thesis by (simp del: not_None_eq)
qed

subsection \<open>Properties\<close>

text \<open>
  C15. In every state the party server can reach, every registered character exists under its own name
  with a live session, every registered room exists, and room numbers are below the counter; and a
  room once registered is registered for ever, whatever its members do: because \<open>setRoom\<close> is a stub,
  the code that leaves and erases rooms is never reached.
\<close>

theorem party_rooms_persist:
  assumes "party_reach ids lay api party_init w" and "party_reach ids lay api w w'"
  shows "(\<forall>i c. g_characters w i = Some c \<longrightarrow> (\<exists>ch b. p_chars w c = Some ch \<and> pc_id ch = i \<and>
      pc_sess ch = Some b \<and> p_sessions w b \<noteq> None)) \<and>
    (\<forall>k r. g_rooms w k = Some r \<longrightarrow> p_rooms w r \<noteq> None \<and> uint k < g_roomId w \<and> g_rooms w' k = Some r)"
proof -
  have inv: "party_inv w" using party_reach_ok[OF assms(1)] party_inv_init by blast
  moreover have "keeps_rooms w w'" using party_reach_ok[OF assms(2) inv] by blast
  ultimately show ?thesis
    unfolding party_inv_def keeps_rooms_def by fastforce
qed

text \<open>
  Creating a party in a reachable state: a registered owner gets, while there are numbers left,
  a room of its own under the next number, which no room had, and a success answer that carries that
  number; the branch for a number in use is dead. An unknown owner gets a failure answer and nothing
  else changes.
\<close>

theorem createParty_allocates:
  assumes "party_reach ids lay api party_init w" and "p_sessions w a = Some s"
    and "i = bl_party_id lay (msg_body (ps_msg s))" and "k = word_of_int (g_roomId w)"
    and "length (bl_mk_party lay k) \<le> 1024" and "g_roomId w < 2 ^ 31 - 1"
  shows "(if g_characters w i = None
      then createParty ids lay api msg0 a w =
        Inr (False, add_sent a (party_msg (rs_CrteParty ids) CREATE_PARTY_FAIL [] msg0) w)
      else \<exists>w'. createParty ids lay api msg0 a w = Inr (True, w') \<and> g_rooms w k = None \<and>
        g_rooms w' = (g_rooms w)(k \<mapsto> p_alloc w) \<and> p_rooms w' (p_alloc w) \<noteq> None \<and>
        g_roomId w' = g_roomId w + 1 \<and> sent_to w' a = sent_to w a @
          [party_msg (rs_CrteParty ids) CREATE_PARTY_SUCCESS (bl_mk_party lay k) msg0])"
proof (cases "g_characters w i")
  case None
  then show ?thesis using assms(2,3) by (simp add: createParty_def respond_eq)
next
  case (Some c)
  have inv: "party_inv w" using party_reach_ok[OF assms(1)] party_inv_init by blast
  show ?thesis
    using createParty_success[OF inv assms(2) Some[unfolded assms(3)] assms(4-6), of ids api msg0]
      key_fresh[OF inv, folded assms(4)] Some by auto
qed

text \<open>
  C36. A second login under a name in use is answered with success, but the name keeps leading to the
  first session; when the second session then fails, the name is removed, so that the first, still
  connected, can no longer create a party.
\<close>

theorem second_login_unregisters_first:
  assumes "party_reach ids lay api party_init w" and "g_characters w i = Some c" and "i \<noteq> []"
    and "p_sessions w b = Some s" and "bl_login_id lay (msg_body (ps_msg s)) = i"
    and "p_sessions w a = Some t" and "a \<noteq> b" and "bl_party_id lay (msg_body (ps_msg t)) = i"
    and "ec \<noteq> EcOk"
  shows "\<exists>w1 w2. login ids lay msg0 b w = Inr (True, w1) \<and> g_characters w1 = g_characters w \<and>
    sent_to w1 b = sent_to w b @ [party_msg (rs_Login ids) LOGIN_SUCCESS [] msg0] \<and>
    handler_error api ec b False w1 = Inr (True, w2) \<and> g_characters w2 i = None \<and>
    createParty ids lay api msg0 a w2 =
      Inr (False, add_sent a (party_msg (rs_CrteParty ids) CREATE_PARTY_FAIL [] msg0) w2)"
proof -
  have inv: "party_inv w" using party_reach_ok[OF assms(1)] party_inv_init by blast
  define v where "v = w\<lparr>p_chars := (p_chars w)(p_alloc w \<mapsto> Character_new i i b), p_alloc := p_alloc w + 1,
    p_sessions := (p_sessions w)(b \<mapsto> s\<lparr>ps_id := i\<rparr>)\<rparr>"
  define w1 where "w1 = add_sent b (party_msg (rs_Login ids) LOGIN_SUCCESS [] msg0) v"
  have lg: "login ids lay msg0 b w = Inr (True, w1)"
    using assms(2,4,5) by (simp add: login_def respond_eq Let_def v_def w1_def)
  then have inv1: "party_inv w1" using login_ok[OF inv] by blast
  have sb: "\<exists>u. p_sessions w1 b = Some u \<and> ps_id u = i" by (simp add: w1_def v_def add_sent_def)
  have sa: "p_sessions w1 a = Some t" using assms(6,7) by (simp add: w1_def v_def add_sent_def)
  have ch: "g_characters w1 = g_characters w" by (simp add: w1_def v_def)
  obtain u where u: "p_sessions w1 b = Some u" "ps_id u = i" using sb by blast
  obtain x where x: "p_chars w1 c = Some x" "pc_id x = i"
    using inv1 assms(2) ch unfolding party_inv_def by metis
  let ?w2 = "w1\<lparr>g_characters := (g_characters w1)(i := None), p_deleted := p_deleted w1 @ [b]\<rparr>"
  have er: "handler_error api ec b False w1 = Inr (True, ?w2)"
    using u x assms(2,3,9) ch leave_room_stays[OF inv1 x(1)] by (simp add: handler_error_def)
  have "createParty ids lay api msg0 a ?w2 =
      Inr (False, add_sent a (party_msg (rs_CrteParty ids) CREATE_PARTY_FAIL [] msg0) ?w2)"
    using sa assms(8) by (simp add: createParty_def respond_eq)
  moreover have "sent_to w1 b = sent_to w b @ [party_msg (rs_Login ids) LOGIN_SUCCESS [] msg0]"
    using assms(4) by (simp add: w1_def v_def sent_to_def add_sent_def)
  ultimately show ?thesis using lg er ch by (intro exI[of _ w1] exI[of _ ?w2]) simp
qed

text \<open>
  A message to a party goes to every slot of its room: when each slot in use holds a character that exists, each session is handed one copy for each
  slot whose character it belongs to, the sender's included, and nobody anything else; a number with
  no room is answered with nothing.
\<close>

theorem party_message_reaches_members:
  assumes "party_reach ids lay api party_init w" and "p_sessions w a = Some s"
    and "g_rooms w (bl_nf_party lay (msg_body (ps_msg s))) = Some r" and "p_rooms w r = Some room"
    and "bl_mk_nf lay (bl_nf_text lay (msg_body (ps_msg s))) = Inr nf" and "length nf \<le> 1024"
    and "\<forall>i. slot_alive api room (p_chars w) i"
  shows "\<exists>w'. party_nfMessage ids lay api msg0 a w = Inr (True, w') \<and>
    (\<forall>b. sent_to w' b = sent_to w b @
       replicate (length (filter (\<lambda>i. slot_session api room (p_chars w) i = Some b)
          (map int [0..<nat (ra_cnt api room)]))) (party_msg (nf_Message ids) NONE_CODE nf msg0)) \<and>
    g_rooms w' = g_rooms w \<and> p_chars w' = p_chars w"
proof -
  have inv: "party_inv w" using party_reach_ok[OF assms(1)] party_inv_init by blast
  show ?thesis
    using party_send_fold[OF inv assms(5,6), of "map int [0..<nat (ra_cnt api room)]" api room ids msg0]
      assms(2-4,7)
    by (auto simp: party_nfMessage_def)
qed

text \<open>
  The echo goes wrong exactly for lengths that are negative or above the capacity of the echo
  structure or the body; otherwise the sender is sent back the first \<open>len\<close> bytes of what it sent and
  the server's transmit counter grows by the message's length. The length is the header's and is
  checked by nobody for being negative.
\<close>

theorem nfEco_echoes:
  assumes "p_sessions w a = Some s" and "wf_msg (ps_msg s)" and "bl_eco_size lay \<le> 1024"
  shows "(if sint len < 0 \<or> int (bl_eco_size lay) < sint len
      then nfEco ids lay msg0 a len w = Inl BufferOverflow
      else nfEco ids lay msg0 a len w = Inr (True,
        (add_sent a (party_msg (ID_nf_Eco ids) NONE_CODE (take (nat (sint len)) (msg_body (ps_msg s))) msg0) w)
          \<lparr>p_tx := p_tx w + word_of_int (8 + sint len)\<rparr>))"
proof -
  have sc: "(scast len :: 64 word) = word_of_int (sint len)" by simp
  have r: "- 32768 \<le> sint len" "sint len < 32768" using sint16_range[of len] by auto
  show ?thesis
  proof (cases "sint len < 0")
    case True
    then have "unat (scast len :: 64 word) = nat (2 ^ 64 + sint len)"
      unfolding sc using r by (intro unat_size_neg) auto
    moreover have "bl_eco_size lay < nat (2 ^ 64 + sint len)" using r assms(3) by (simp add: zless_nat_eq_int_zless)
    ultimately show ?thesis using True assms(1) by (simp add: nfEco_def Let_def)
  next
    case False
    then have u: "unat (scast len :: 64 word) = nat (sint len)"
      unfolding sc using r by (intro unat_size_nonneg) auto
    show ?thesis
    proof (cases "int (bl_eco_size lay) < sint len")
      case True
      then show ?thesis using False u assms(1) by (auto simp: nfEco_def Let_def)
    next
      case fits: False
      let ?b = "take (nat (sint len)) (msg_body (ps_msg s))"
      have lb: "int (length ?b) = sint len" "length ?b \<le> 1024" "nat (sint len) \<le> 1024"
        using False fits assms(2,3) by (auto simp: wf_msg_def)
      have "msg_length (party_msg i NONE_CODE ?b msg0) = 8 + sint len" for i
        using bodyLength_word_of_int[of "sint len"] False fits assms(3) lb(1)
        by (simp add: msg_length_def party_msg_def)
      moreover have "encode_id (ID_nf_Eco ids) NONE_CODE (Some ?b) (sint len) msg0 =
          Inr (party_msg (ID_nf_Eco ids) NONE_CODE ?b msg0)"
        using encode_data[OF lb(2), of "ID_nf_Eco ids" NONE_CODE msg0] lb(1) by simp
      moreover have "p_tx (add_sent a m w) = p_tx w" for m by (simp add: add_sent_def)
      ultimately show ?thesis
        using False fits u lb(3) assms by (auto simp: nfEco_def asyncSend_eq wf_msg_def Let_def)
    qed
  qed
qed


subsection \<open>The properties on a small party\<close>

text \<open>
  Message identifiers from 1 to 11; a body whose first byte tells two users apart and that is about
  party 0; rooms as lists of at most eight characters, as in the older \<open>server/Room.cpp\<close>.
\<close>

definition sample_ids :: party_ids where
  "sample_ids = \<lparr>rq_CrteUser = 1, rs_CrteUser = 2, rq_Login = 3, rs_Login = 4, rq_CrteParty = 5,
     rs_CrteParty = 6, rq_JoinUser = 7, rs_JoinUser = 8, rq_ReqJoin = 9, nf_Message = 10, ID_nf_Eco = 11\<rparr>"

definition sample_name :: "bytes \<Rightarrow> string" where
  "sample_name b = (if hd b = 0 then ''a'' else ''b'')"

definition sample_layout :: body_layout where
  "sample_layout = \<lparr>bl_login_id = sample_name, bl_party_id = sample_name, bl_join_from = sample_name,
     bl_join_to = sample_name, bl_join_party = (\<lambda>_. 0), bl_nf_party = (\<lambda>_. 0), bl_nf_text = sample_name,
     bl_mk_party = le32, bl_mk_reqjoin = (\<lambda>k f t. Inr [ucast k, 0, 0, 0]),
     bl_mk_nf = (\<lambda>s. Inr [0, 0]), bl_eco_size = 512\<rparr>"

definition sample_rooms :: "(int \<times> addr list) room_api" where
  "sample_rooms = \<lparr>ra_new = (\<lambda>c. (0, [])), ra_setId = (\<lambda>k (i, cs). (k, cs)),
     ra_setCharacter = (\<lambda>c (i, cs). if length cs \<ge> 8 then (False, (i, cs)) else (True, (i, cs @ [c]))),
     ra_getCharacter = (\<lambda>n (i, cs). if 0 \<le> n \<and> n < int (length cs) then Some (Some (cs ! nat n)) else None),
     ra_cnt = (\<lambda>(i, cs). int (length cs)), ra_id = (\<lambda>(i, cs). word_of_int i),
     ra_leave = (\<lambda>c (i, cs). (i, filter (\<lambda>d. d \<noteq> c) cs))\<rparr>"

definition sample_pmsg :: Msg where
  "sample_pmsg = \<lparr>msg_hdr = \<lparr>hdr_version = 1, hdr_result = 0, hdr_bodyLength = 0, hdr_msgId = 0\<rparr>,
     msg_body = replicate 1024 0\<rparr>"

definition sample_session :: "string \<Rightarrow> party_session" where
  "sample_session i = \<lparr>ps_msg = sample_pmsg, ps_id = i, ps_sent = []\<rparr>"

text \<open>Two sessions accepted; the first logged in; its party created; and the first gone.\<close>

definition sample_accepted :: "(int \<times> addr list) party_world" where
  "sample_accepted = party_init\<lparr>p_sessions := [0 \<mapsto> sample_session [], 1 \<mapsto> sample_session []]\<rparr>"

definition sample_logged_in :: "(int \<times> addr list) party_world" where
  "sample_logged_in = add_sent 0 (party_msg 4 LOGIN_SUCCESS [] sample_pmsg)
     (party_init\<lparr>p_rx := 8, p_chars := [0 \<mapsto> Character_new ''a'' ''a'' 0], p_alloc := 1,
        g_characters := [''a'' \<mapsto> 0],
        p_sessions := [0 \<mapsto> sample_session ''a'', 1 \<mapsto> sample_session []]\<rparr>)"

definition sample_created :: "(int \<times> addr list) party_world" where
  "sample_created = add_sent 0 (party_msg 6 CREATE_PARTY_SUCCESS [0, 0, 0, 0] sample_pmsg)
     (sample_logged_in\<lparr>p_rx := 16, p_rooms := [1 \<mapsto> (0, [0])], p_alloc := 2, g_rooms := [0 \<mapsto> 1],
        g_roomId := 1\<rparr>)"

definition sample_left :: "(int \<times> addr list) party_world" where
  "sample_left = sample_created\<lparr>g_characters := (g_characters sample_created)(''a'' := None), p_deleted := [0]\<rparr>"

lemmas sample_defs = sample_ids_def sample_layout_def sample_rooms_def sample_name_def sample_pmsg_def
  sample_session_def party_init_def Character_new_def le32_def

lemma sample_accepted_reach: "party_reach sample_ids sample_layout sample_rooms party_init sample_accepted"
proof -
  let ?w = "party_init\<lparr>p_sessions := [0 \<mapsto> sample_session []]\<rparr> :: (int \<times> addr list) party_world"
  have "party_step sample_ids sample_layout sample_rooms party_init ?w"
    using step_accept[of party_init 0 sample_ids sample_layout sample_rooms sample_pmsg]
    by (simp add: party_init_def sample_session_def)
  moreover have "party_step sample_ids sample_layout sample_rooms ?w sample_accepted"
    using step_accept[of ?w 1 sample_ids sample_layout sample_rooms sample_pmsg]
    by (simp add: party_init_def sample_session_def sample_accepted_def)
  ultimately show ?thesis by (blast intro: party_reach.intros)
qed

lemma sample_login_step:
  "handler_read sample_ids sample_layout sample_rooms sample_pmsg 3 0 0 False sample_accepted =
     Inr (True, sample_logged_in)"
  by (simp add: handler_read_def login_def Let_def respond_eq sample_accepted_def sample_logged_in_def
      msg_length_def) (simp add: sample_defs fun_upd_twist)

lemma sample_create_step:
  "handler_read sample_ids sample_layout sample_rooms sample_pmsg 5 0 0 False sample_logged_in =
     Inr (True, sample_created)"
proof -
  have "encode_id i r (Some [0, 0, 0, 0]) 4 m = Inr (party_msg i r [0, 0, 0, 0] m)" for i r m
    using encode_data[of "[0, 0, 0, 0]" i r m] by simp
  then show ?thesis
    by (simp add: handler_read_def createParty_def Let_def set_room_def Character_setRoom_def
        asyncSend_eq sample_logged_in_def sample_created_def msg_length_def add_sent_def sample_defs)
qed

lemma sample_error_step:
  "handler_error sample_rooms EcEof 0 False sample_created = Inr (True, sample_left)"
  by (simp add: handler_error_def leave_room_def lock_room_def sample_left_def sample_created_def
      sample_logged_in_def add_sent_def sample_session_def Character_new_def party_init_def)

lemma sample_logged_in_reach: "party_reach sample_ids sample_layout sample_rooms party_init sample_logged_in"
  using reach_next[OF sample_accepted_reach step_read[OF sample_login_step]] .

lemma sample_created_reach: "party_reach sample_ids sample_layout sample_rooms party_init sample_created"
  using reach_next[OF sample_logged_in_reach step_read[OF sample_create_step]] .

lemma sample_left_reach: "party_reach sample_ids sample_layout sample_rooms sample_created sample_left"
  using reach_next[OF reach_start step_error[OF sample_error_step]] .

text \<open>The party of the user who left is still registered, and the user is not.\<close>

lemma party_rooms_persist_witness:
  "g_rooms sample_left 0 = Some 1 \<and> g_characters sample_left ''a'' = None \<and>
   g_characters sample_created ''a'' = Some 0 \<and> p_rooms sample_created 1 \<noteq> None"
proof -
  have g: "g_rooms sample_created 0 = Some 1" "g_characters sample_created ''a'' = Some 0"
    "g_characters sample_left ''a'' = None"
    by (simp_all add: sample_left_def sample_created_def sample_logged_in_def)
  then show ?thesis
    using party_rooms_persist[OF sample_created_reach sample_left_reach] by blast
qed

text \<open>The registered user gets party 0.\<close>

lemma createParty_allocates_witness:
  "\<exists>w'. createParty sample_ids sample_layout sample_rooms sample_pmsg 0 sample_logged_in = Inr (True, w') \<and>
     g_rooms w' 0 = Some 1 \<and> g_roomId w' = 1 \<and>
     sent_to w' 0 = sent_to sample_logged_in 0 @ [party_msg 6 CREATE_PARTY_SUCCESS [0, 0, 0, 0] sample_pmsg]"
proof -
  have s: "p_sessions sample_logged_in 0 =
      Some \<lparr>ps_msg = sample_pmsg, ps_id = ''a'', ps_sent = [party_msg 4 LOGIN_SUCCESS [] sample_pmsg]\<rparr>"
    by (simp add: sample_logged_in_def add_sent_def sample_session_def)
  have n: "bl_party_id sample_layout (msg_body sample_pmsg) = ''a''" "length (bl_mk_party sample_layout k) = 4"
      "bl_mk_party sample_layout 0 = [0, 0, 0, 0]" "rs_CrteParty sample_ids = 6" for k
    by (simp_all add: sample_defs)
  have g: "g_roomId sample_logged_in = 0" "g_characters sample_logged_in ''a'' = Some 0"
      "p_alloc sample_logged_in = 1"
    by (simp_all add: sample_logged_in_def party_init_def)
  show ?thesis
    using createParty_allocates[OF sample_logged_in_reach s refl refl, of sample_pmsg] n g by auto
qed

text \<open>A second user logs in under the first one's name and leaves.\<close>

lemma second_login_unregisters_first_witness:
  "\<exists>w1 w2. login sample_ids sample_layout sample_pmsg 1 sample_logged_in = Inr (True, w1) \<and>
     g_characters w1 ''a'' = Some 0 \<and>
     handler_error sample_rooms EcEof 1 False w1 = Inr (True, w2) \<and> g_characters w2 ''a'' = None"
proof -
  have s: "p_sessions sample_logged_in 1 = Some (sample_session [])"
    "p_sessions sample_logged_in 0 \<noteq> None"
    "map_option ps_msg (p_sessions sample_logged_in 0) = Some sample_pmsg"
    by (simp_all add: sample_logged_in_def add_sent_def sample_session_def)
  then obtain t where t: "p_sessions sample_logged_in 0 = Some t" "ps_msg t = sample_pmsg" by auto
  have n: "bl_login_id sample_layout (msg_body (ps_msg (sample_session []))) = ''a''"
      "bl_party_id sample_layout (msg_body (ps_msg t)) = ''a''"
    using t by (simp_all add: sample_defs)
  have g: "g_characters sample_logged_in ''a'' = Some 0" by (simp add: sample_logged_in_def)
  show ?thesis
    using second_login_unregisters_first[OF sample_logged_in_reach g _ s(1) n(1) t(1) _ n(2), of EcEof sample_pmsg] g
    by auto
qed

text \<open>The only member of party 0 gets its own message.\<close>

lemma party_message_reaches_members_witness:
  "\<exists>w'. party_nfMessage sample_ids sample_layout sample_rooms sample_pmsg 1 sample_created = Inr (True, w') \<and>
     sent_to w' 0 = sent_to sample_created 0 @ [party_msg 10 NONE_CODE [0, 0] sample_pmsg] \<and>
     sent_to w' 1 = sent_to sample_created 1"
proof -
  have s: "p_sessions sample_created 1 = Some (sample_session [])"
    by (simp add: sample_created_def sample_logged_in_def add_sent_def)
  have g: "g_rooms sample_created 0 = Some 1" "p_rooms sample_created 1 = Some (0, [0])"
    "p_chars sample_created = [0 \<mapsto> Character_new ''a'' ''a'' 0]"
    by (simp_all add: sample_created_def sample_logged_in_def party_init_def)
  have n: "g_rooms sample_created (bl_nf_party sample_layout (msg_body (ps_msg (sample_session [])))) = Some 1"
      "bl_mk_nf sample_layout s = Inr [0, 0]" "nf_Message sample_ids = 10" "length [0, 0 :: byte] \<le> 1024"
      "nat (ra_cnt sample_rooms (0, [0])) = 1" for s
    using g by (simp_all add: sample_layout_def sample_rooms_def sample_ids_def)
  have r: "ra_getCharacter sample_rooms i (0, [0]) = (if i = 0 then Some (Some 0) else None)" for i
    by (auto simp: sample_rooms_def)
  then have alive: "\<forall>i. slot_alive sample_rooms (0, [0]) (p_chars sample_created) i"
    using g(3) by (simp add: slot_alive_def)
  have slot: "slot_session sample_rooms (0, [0]) (p_chars sample_created) 0 = Some 0"
    by (simp add: slot_session_def r g(3) Character_new_def)
  show ?thesis
    using party_message_reaches_members[of sample_ids sample_layout sample_rooms sample_created 1
        "sample_session []" 1 "(0, [0])" "[0, 0]" sample_pmsg, OF sample_created_reach s n(1) g(2) n(2) n(4) alive]
      slot n
    by auto
qed

text \<open>Five bytes are echoed; a length of -1 is an overrun.\<close>

lemma nfEco_echoes_witness:
  "nfEco sample_ids sample_layout sample_pmsg 0 (- 1) sample_accepted = Inl BufferOverflow \<and>
   (\<exists>w'. nfEco sample_ids sample_layout sample_pmsg 0 5 sample_accepted = Inr (True, w') \<and>
     sent_to w' 0 = [party_msg 11 NONE_CODE (replicate 5 0) sample_pmsg] \<and> p_tx w' = 13)"
proof -
  have s: "p_sessions sample_accepted 0 = Some (sample_session [])" "sent_to sample_accepted 0 = []"
      "p_tx sample_accepted = 0"
    by (simp_all add: sample_accepted_def sent_to_def sample_session_def party_init_def)
  have m: "wf_msg (ps_msg (sample_session []))" "bl_eco_size sample_layout = 512" "ID_nf_Eco sample_ids = 11"
      "take 5 (msg_body (ps_msg (sample_session []))) = replicate 5 0"
    by (simp_all add: sample_defs wf_msg_def)
  show ?thesis
    using nfEco_echoes[OF s(1) m(1), of sample_layout "- 1" sample_ids sample_pmsg]
      nfEco_echoes[OF s(1) m(1), of sample_layout 5 sample_ids sample_pmsg] s m
    by (simp add: sent_to_def add_sent_def)
qed

end
