(* ===== verification/Timers.thy ===== *)
theory Timers
  imports Tcp_Session
begin

text \<open>
  Boost's \<open>deadline_timer\<close> as its documentation describes it, for \<open>client/Client.h\<close> and \<open>Src/TcpServer.cpp\<close>:
  a timer is the waits outstanding on it and the completions on their way.
\<close>

subsection \<open>Operations\<close>

text \<open>
  Boost's \<open>deadline_timer\<close>: setting the expiry or cancelling aborts the outstanding waits; a wait
  that expires or is aborted becomes a completion with its error code, which no later call recalls.
\<close>

record 'h timer =
  tm_pending :: "'h list"
  tm_ready :: "('h \<times> error_code) list"

definition timer_new :: "'h timer" where
  "timer_new = \<lparr>tm_pending = [], tm_ready = []\<rparr>"

definition tm_cancel :: "'h timer \<Rightarrow> 'h timer" where
  "tm_cancel t = \<lparr>tm_pending = [], tm_ready = tm_ready t @ map (\<lambda>h. (h, EcAborted)) (tm_pending t)\<rparr>"

definition tm_expire :: "'h timer \<Rightarrow> 'h timer" where
  "tm_expire t = \<lparr>tm_pending = [], tm_ready = tm_ready t @ map (\<lambda>h. (h, EcOk)) (tm_pending t)\<rparr>"

text \<open>\<open>expires_from_now\<close> followed by \<open>async_wait\<close>.\<close>

definition tm_arm :: "'h \<Rightarrow> 'h timer \<Rightarrow> 'h timer" where
  "tm_arm h t = (let t1 = tm_cancel t in t1\<lparr>tm_pending := tm_pending t1 @ [h]\<rparr>)"

subsection \<open>Timers hold at most one wait\<close>

text \<open>
  What the client relies on of a timer: setting it leaves exactly the new wait, expiring and
  cancelling leave none, and only expiring adds a successful completion.
\<close>

locale one_shot_timer =
  fixes cancel :: "'t \<Rightarrow> 't" and expire :: "'t \<Rightarrow> 't" and arm :: "'h \<Rightarrow> 't \<Rightarrow> 't"
    and pending :: "'t \<Rightarrow> 'h list" and fired :: "'t \<Rightarrow> 'h set"
  assumes cancel_laws: "pending (cancel t) = []" "fired (cancel t) = fired t"
    and expire_laws: "pending (expire t) = []" "fired (expire t) = fired t \<union> set (pending t)"
    and arm_laws: "pending (arm h t) = [h]" "fired (arm h t) = fired t"
begin

definition scheduled :: "'t \<Rightarrow> bool" where
  "scheduled t \<longleftrightarrow> pending t \<noteq> [] \<or> fired t \<noteq> {}"

lemma one_wait:
  "length (pending (cancel t)) \<le> Suc 0" "length (pending (expire t)) \<le> Suc 0" "length (pending (arm h t)) \<le> Suc 0"
  by (simp_all add: cancel_laws expire_laws arm_laws)

lemma scheduled_laws: "scheduled (arm h t)" "scheduled (expire t) = scheduled t"
  by (auto simp: scheduled_def arm_laws expire_laws)

end

definition tm_fired :: "'h timer \<Rightarrow> 'h set" where
  "tm_fired t = {h. (h, EcOk) \<in> set (tm_ready t)}"

interpretation tm: one_shot_timer tm_cancel tm_expire tm_arm tm_pending tm_fired
  by unfold_locales (auto simp: tm_cancel_def tm_expire_def tm_arm_def tm_fired_def Let_def)

end
