(* ===== verification/Legacy_Session.thy ===== *)
theory Legacy_Session
  imports Local_Sessions Timers
begin

text \<open>
  The TCP session and server in their older form, the code between \<open>#if 0\<close> and \<open>#endif\<close> of
  \<open>Src/TcpSession.cpp\<close>, \<open>Src/TcpServer.h\<close> and \<open>Src/TcpServer.cpp\<close>, for which the party server and client
  were written. A session reports to a \<open>SessionHandler\<close>. With \<open>MULTI_ASIO\<close> or a strand, the same calls are
  made; only who runs the completions differs, which is not modelled. \<open>async_read\<close> succeeds only with
  the whole buffer filled.
\<close>

subsection \<open>Data\<close>

text \<open>The completion of a body read is bound to copies of \<open>msgId\<close> and \<open>bodyLength\<close>.\<close>

datatype legacy_read = LgHeader | LgBody nat "32 word" "16 word"

record legacy_session =
  lg_open :: bool
  lg_msg :: Msg
  lg_sendMsg :: Msg
  lg_sendQue :: "Msg list"
  lg_owner :: "addr option"
  lg_rx :: "64 word"
  lg_reading :: "legacy_read list"
  lg_writing :: "bytes list"
  lg_connecting :: nat

record legacy_net =
  lg_heap :: "addr \<Rightarrow> legacy_session option"

definition with_lg :: "addr \<Rightarrow> (legacy_session \<Rightarrow> 'b res) \<Rightarrow> 'a legacy_net_scheme \<Rightarrow> 'b res" where
  "with_lg a f w = (case lg_heap w a of None \<Rightarrow> Inl NullDeref | Some s \<Rightarrow> f s)"

definition put_lg :: "addr \<Rightarrow> legacy_session \<Rightarrow> 'a legacy_net_scheme \<Rightarrow> 'a legacy_net_scheme" where
  "put_lg a s w = w\<lparr>lg_heap := (lg_heap w)(a \<mapsto> s)\<rparr>"

subsection \<open>TcpSession\<close>

text \<open>The overload with a message has an empty body.\<close>

definition lg_asyncSend_msg :: "Msg \<Rightarrow> legacy_session \<Rightarrow> legacy_session" where
  "lg_asyncSend_msg m s = s"

definition lg_asyncSend :: "legacy_session \<Rightarrow> legacy_session res" where
  "lg_asyncSend s =
     (let progress = lg_sendQue s \<noteq> [];
          s1 = s\<lparr>lg_sendQue := lg_sendQue s @ [lg_sendMsg s]\<rparr>
      in if \<not> progress
         then bind_res (wire_image (hd (lg_sendQue s1))) (\<lambda>buf.
                Inr (s1\<lparr>lg_writing := lg_writing s1 @ [buf]\<rparr>))
         else Inr s1)"

definition lg_asyncConnect :: "legacy_session \<Rightarrow> legacy_session" where
  "lg_asyncConnect s = s\<lparr>lg_connecting := lg_connecting s + 1\<rparr>"

definition lg_asyncRead :: "legacy_session \<Rightarrow> legacy_session" where
  "lg_asyncRead s = s\<lparr>lg_reading := lg_reading s @ [LgHeader]\<rparr>"

definition lg_handleConnect ::
  "'a legacy_net_scheme SessionHandler \<Rightarrow> addr \<Rightarrow> error_code \<Rightarrow> 'a legacy_net_scheme \<Rightarrow> 'a legacy_net_scheme res" where
  "lg_handleConnect h a ec w = with_lg a (\<lambda>s.
     if ec = EcOk then drop_flag (sh_connect h a (lg_owner s) w)
     else drop_flag (sh_error h ec a (lg_owner s) w)) w"

definition lg_handleReadHeader ::
  "'a legacy_net_scheme SessionHandler \<Rightarrow> addr \<Rightarrow> error_code \<Rightarrow> 'a legacy_net_scheme \<Rightarrow> 'a legacy_net_scheme res" where
  "lg_handleReadHeader h a ec w = with_lg a (\<lambda>s.
     if ec = EcOk then
       (if \<not> checkHeader (lg_msg s) then Inr (put_lg a (lg_asyncRead s) w)
        else Inr (put_lg a (s\<lparr>lg_reading := lg_reading s @
          [LgBody (unat (word_of_int (msg_bodyLength (lg_msg s)) :: 64 word))
             (hdr_msgId (msg_hdr (lg_msg s))) (hdr_bodyLength (msg_hdr (lg_msg s)))]\<rparr>) w))
     else drop_flag (sh_error h ec a (lg_owner s) w)) w"

definition lg_handleReadBody ::
  "'a legacy_net_scheme SessionHandler \<Rightarrow> addr \<Rightarrow> 32 word \<Rightarrow> 16 word \<Rightarrow> error_code \<Rightarrow> 'a legacy_net_scheme
     \<Rightarrow> 'a legacy_net_scheme res" where
  "lg_handleReadBody h a msgId len ec w = with_lg a (\<lambda>s.
     if ec = EcOk then
       bind_res (drop_flag (sh_read h msgId len a (lg_owner s)
           (put_lg a (s\<lparr>lg_rx := lg_rx s + word_of_int (msg_length (lg_msg s))\<rparr>) w)))
         (\<lambda>w1. with_lg a (\<lambda>s1. Inr (put_lg a (lg_asyncRead s1) w1)) w1)
     else drop_flag (sh_error h ec a (lg_owner s) w)) w"

text \<open>The oldest read completes; on success \<open>data\<close> fills its buffer.\<close>

definition lg_complete_read ::
  "'a legacy_net_scheme SessionHandler \<Rightarrow> addr \<Rightarrow> error_code \<Rightarrow> bytes \<Rightarrow> 'a legacy_net_scheme
     \<Rightarrow> 'a legacy_net_scheme res" where
  "lg_complete_read h a ec data w = with_lg a (\<lambda>s. case lg_reading s of
       [] \<Rightarrow> Inr w
     | LgHeader # rs \<Rightarrow> bind_res (deposit 0 data (lg_msg s)) (\<lambda>m.
         lg_handleReadHeader h a ec (put_lg a (s\<lparr>lg_msg := m, lg_reading := rs\<rparr>) w))
     | LgBody n msgId len # rs \<Rightarrow> bind_res (deposit hdrLength data (lg_msg s)) (\<lambda>m.
         lg_handleReadBody h a msgId len ec (put_lg a (s\<lparr>lg_msg := m, lg_reading := rs\<rparr>) w))) w"

subsection \<open>TcpServer\<close>

record legacy_server = legacy_net +
  lv_self :: addr
  lv_sessions :: "addr set"
  lv_accepting :: nat
  lv_tmr :: "unit timer"
  lv_rx :: "64 word"
  lv_tx :: "64 word"
  lv_prevRx :: "64 word"
  lv_prevTx :: "64 word"

definition TcpServer_legacy_new :: "addr \<Rightarrow> legacy_server" where
  "TcpServer_legacy_new self = \<lparr>lg_heap = (\<lambda>_. None), lv_self = self, lv_sessions = {}, lv_accepting = 0,
     lv_tmr = timer_new, lv_rx = 0, lv_tx = 0, lv_prevRx = 0, lv_prevTx = 0\<rparr>"

definition lv_handleStop :: "'a legacy_server_scheme \<Rightarrow> 'a legacy_server_scheme" where
  "lv_handleStop w = w\<lparr>lv_sessions := {}\<rparr>"

text \<open>
  \<open>start\<close> of the older session is not in the repository and is a parameter: the \<open>TcpSession::start\<close> there is now
  opens the session and posts a read itself, which here follows the call, while \<open>start\<close> of the UDP and local
  sessions, which are of the age of this code, does nothing. The arming of the next accept is counted.
\<close>

definition lv_handleAccept ::
  "(legacy_session \<Rightarrow> legacy_session) \<Rightarrow> addr \<Rightarrow> error_code \<Rightarrow> 'a legacy_server_scheme \<Rightarrow> 'a legacy_server_scheme res" where
  "lv_handleAccept session_start0 a ec w =
     bind_res (if ec = EcOk
               then with_lg a (\<lambda>s. Inr (put_lg a
                      (lg_asyncRead (session_start0 (s\<lparr>lg_owner := Some (lv_self w)\<rparr>)))
                      (w\<lparr>lv_sessions := insert a (lv_sessions w)\<rparr>))) w
               else Inr w)
       (\<lambda>w1. Inr (w1\<lparr>lv_accepting := lv_accepting w1 + 1\<rparr>))"

definition lv_startTmr :: "'a legacy_server_scheme \<Rightarrow> 'a legacy_server_scheme" where
  "lv_startTmr w = w\<lparr>lv_tmr := tm_arm () (lv_tmr w)\<rparr>"

text \<open>\<open>expired\<close> is the comparison of the timer's expiry with the clock.\<close>

definition lv_cbTmr :: "bool \<Rightarrow> 'a legacy_server_scheme \<Rightarrow> 'a legacy_server_scheme" where
  "lv_cbTmr expired w =
     (let w1 = w\<lparr>lv_prevRx := lv_rx w, lv_prevTx := lv_tx w\<rparr>
      in if expired then lv_startTmr w1 else w1)"

definition lv_broadcastMsg :: "addr \<Rightarrow> string \<Rightarrow> 'a legacy_server_scheme \<Rightarrow> 'a legacy_server_scheme" where
  "lv_broadcastMsg a str w = w"

definition lv_deleteSession :: "addr \<Rightarrow> 'a legacy_server_scheme \<Rightarrow> 'a legacy_server_scheme res" where
  "lv_deleteSession a w = with_lg a (\<lambda>s.
     Inr ((put_lg a (s\<lparr>lg_open := False\<rparr>) w)\<lparr>lv_sessions := lv_sessions w - {a}\<rparr>)) w"

definition lv_getRx :: "'a legacy_server_scheme \<Rightarrow> 64 word" where "lv_getRx w = lv_rx w"
definition lv_getTx :: "'a legacy_server_scheme \<Rightarrow> 64 word" where "lv_getTx w = lv_tx w"
definition lv_getPrevRx :: "'a legacy_server_scheme \<Rightarrow> 64 word" where "lv_getPrevRx w = lv_prevRx w"
definition lv_getPrevTx :: "'a legacy_server_scheme \<Rightarrow> 64 word" where "lv_getPrevTx w = lv_prevTx w"

definition lv_addRx :: "64 word \<Rightarrow> 'a legacy_server_scheme \<Rightarrow> 'a legacy_server_scheme" where
  "lv_addRx n w = w\<lparr>lv_rx := lv_rx w + n\<rparr>"

definition lv_addTx :: "64 word \<Rightarrow> 'a legacy_server_scheme \<Rightarrow> 'a legacy_server_scheme" where
  "lv_addTx n w = w\<lparr>lv_tx := lv_tx w + n\<rparr>"

text \<open>
  Between two ticks of the timer the difference of a counter and its previous value is the traffic since
  the tick, also when the counter wraps around.
\<close>

lemma traffic_since_tick:
  "lv_getRx (fold lv_addRx ns (lv_cbTmr b w)) - lv_getPrevRx (fold lv_addRx ns (lv_cbTmr b w)) = sum_list ns"
  "lv_getTx (fold lv_addTx ns (lv_cbTmr b w)) - lv_getPrevTx (fold lv_addTx ns (lv_cbTmr b w)) = sum_list ns"
proof -
  have rx: "lv_rx (fold lv_addRx ns v) = lv_rx v + sum_list ns \<and> lv_prevRx (fold lv_addRx ns v) = lv_prevRx v" for v :: "'a legacy_server_scheme"
    by (induction ns arbitrary: v) (simp_all add: lv_addRx_def)
  have tx: "lv_tx (fold lv_addTx ns v) = lv_tx v + sum_list ns \<and> lv_prevTx (fold lv_addTx ns v) = lv_prevTx v" for v :: "'a legacy_server_scheme"
    by (induction ns arbitrary: v) (simp_all add: lv_addTx_def)
  show "lv_getRx (fold lv_addRx ns (lv_cbTmr b w)) - lv_getPrevRx (fold lv_addRx ns (lv_cbTmr b w)) = sum_list ns"
    "lv_getTx (fold lv_addTx ns (lv_cbTmr b w)) - lv_getPrevTx (fold lv_addTx ns (lv_cbTmr b w)) = sum_list ns"
    using rx[of "lv_cbTmr b w"] tx[of "lv_cbTmr b w"]
    by (simp_all add: lv_getRx_def lv_getPrevRx_def lv_getTx_def lv_getPrevTx_def lv_cbTmr_def lv_startTmr_def Let_def)
qed

subsection \<open>Whole messages\<close>

lemma with_lg_Some [simp]: "lg_heap w a = Some s \<Longrightarrow> with_lg a f w = f s"
  by (simp add: with_lg_def)

lemma lg_heap_put [simp]: "lg_heap (put_lg a s w) b = (if b = a then Some s else lg_heap w b)"
  by (simp add: put_lg_def)

lemma put_lg_twice [simp]: "put_lg a s (put_lg a t w) = put_lg a s w"
  by (simp add: put_lg_def)

text \<open>
  The two completions by which a message arrives: its header and, whatever its length, its body.
\<close>

definition lg_arrive ::
  "'a legacy_net_scheme SessionHandler \<Rightarrow> addr \<Rightarrow> Msg \<Rightarrow> 'a legacy_net_scheme \<Rightarrow> 'a legacy_net_scheme res" where
  "lg_arrive h a m w =
     bind_res (lg_complete_read h a EcOk (header_bytes (msg_hdr m)) w)
       (lg_complete_read h a EcOk (take (nat (msg_bodyLength m)) (msg_body m)))"

text \<open>What a message does according to the interface: one call of the handler, then the next read.\<close>

definition lg_message ::
  "'a legacy_net_scheme SessionHandler \<Rightarrow> addr \<Rightarrow> Msg \<Rightarrow> 'a legacy_net_scheme \<Rightarrow> 'a legacy_net_scheme res" where
  "lg_message h a m w = with_lg a (\<lambda>s.
     bind_res (drop_flag (sh_read h (hdr_msgId (msg_hdr m)) (hdr_bodyLength (msg_hdr m)) a (lg_owner s)
         (put_lg a (s\<lparr>lg_msg := (lg_msg s)\<lparr>msg_hdr := msg_hdr m,
                        msg_body := overlay 0 (take (nat (msg_bodyLength m)) (msg_body m)) (msg_body (lg_msg s))\<rparr>,
                      lg_reading := [], lg_rx := lg_rx s + word_of_int (msg_length m)\<rparr>) w)))
       (\<lambda>w1. with_lg a (\<lambda>s1. Inr (put_lg a (lg_asyncRead s1) w1)) w1)) w"

lemma lg_arrive_message:
  assumes "lg_heap w a = Some s" and "lg_reading s = [LgHeader]" and "checkHeader m"
    and "0 \<le> msg_bodyLength m" and "wf_msg m"
  shows "lg_arrive h a m w = lg_message h a m w"
proof -
  let ?m1 = "(lg_msg s)\<lparr>msg_hdr := msg_hdr m\<rparr>"
  have c: "checkHeader ?m1" "msg_bodyLength m \<le> 1024" "msg_bodyLength ?m1 = msg_bodyLength m"
    using assms(3) by (simp_all add: checkHeader_iff msg_bodyLength_def)
  have len: "length (take (nat (msg_bodyLength m)) (msg_body m)) \<le> 1024" using c(2) by simp
  have "lg_complete_read h a EcOk (header_bytes (msg_hdr m)) w =
      Inr (put_lg a (s\<lparr>lg_msg := ?m1, lg_reading := [LgBody (unat (word_of_int (msg_bodyLength m) :: 64 word))
        (hdr_msgId (msg_hdr m)) (hdr_bodyLength (msg_hdr m))]\<rparr>) w)"
    using assms(1,2) c by (simp add: lg_complete_read_def deposit_header lg_handleReadHeader_def)
  then show ?thesis
    using assms(1) deposit_body[OF len, of ?m1]
    by (simp add: lg_arrive_def lg_complete_read_def lg_handleReadBody_def lg_message_def msg_length_def)
qed

text \<open>A handler that posts no reads itself.\<close>

definition no_reads :: "'a legacy_net_scheme SessionHandler \<Rightarrow> addr \<Rightarrow> bool" where
  "no_reads h a \<longleftrightarrow> (\<forall>i n ow w s ok w'. lg_heap w a = Some s \<longrightarrow> sh_read h i n a ow w = Inr (ok, w') \<longrightarrow>
     (\<exists>s'. lg_heap w' a = Some s' \<and> lg_reading s' = lg_reading s))"

lemma lg_message_reads:
  assumes "no_reads h a" and "lg_heap w a = Some s" and "lg_message h a m w = Inr w'"
  shows "\<exists>s'. lg_heap w' a = Some s' \<and> lg_reading s' = [LgHeader]"
proof -
  define s1 where "s1 = s\<lparr>lg_msg := (lg_msg s)\<lparr>msg_hdr := msg_hdr m,
      msg_body := overlay 0 (take (nat (msg_bodyLength m)) (msg_body m)) (msg_body (lg_msg s))\<rparr>,
    lg_reading := [], lg_rx := lg_rx s + word_of_int (msg_length m)\<rparr>"
  obtain ok w1 where "sh_read h (hdr_msgId (msg_hdr m)) (hdr_bodyLength (msg_hdr m)) a (lg_owner s)
      (put_lg a s1 w) = Inr (ok, w1)"
    and w': "with_lg a (\<lambda>s1. Inr (put_lg a (lg_asyncRead s1) w1)) w1 = Inr w'"
    using assms(2,3) unfolding lg_message_def s1_def drop_flag_def
    by (auto simp: bind_res_eq_Inr)
  moreover have "lg_heap (put_lg a s1 w) a = Some s1" "lg_reading s1 = []" by (simp_all add: s1_def)
  ultimately obtain s2 where "lg_heap w1 a = Some s2" "lg_reading s2 = []"
    using assms(1) unfolding no_reads_def by metis
  with w' show ?thesis by (auto simp: lg_asyncRead_def)
qed

subsection \<open>Properties\<close>

text \<open>
  The older session implements the message interface: for any handler that posts no reads itself and
  any sequence of well-formed messages that pass the header check with a non-negative length,
  delivering headers and bodies as the reads ask for them is the same as calling the handler once per
  message, in order, with its identifier, length and body, each call followed by one header read;
  an error while waiting for a header goes to the handler.
\<close>

theorem legacy_session_refines_messages:
  assumes "lg_heap w a = Some s" and "lg_reading s = [LgHeader]" and "no_reads h a"
    and "\<forall>m \<in> set ms. checkHeader m \<and> 0 \<le> msg_bodyLength m \<and> wf_msg m"
  shows "fold_res (lg_arrive h a) ms w = fold_res (lg_message h a) ms w \<and>
    (\<forall>w'. fold_res (lg_arrive h a) ms w = Inr w' \<longrightarrow>
       (\<exists>s'. lg_heap w' a = Some s' \<and> lg_reading s' = [LgHeader])) \<and>
    (ec \<noteq> EcOk \<longrightarrow> lg_complete_read h a ec [] w =
       drop_flag (sh_error h ec a (lg_owner s) (put_lg a (s\<lparr>lg_reading := []\<rparr>) w)))"
proof -
  have "fold_res (lg_arrive h a) ms w = fold_res (lg_message h a) ms w \<and>
      (\<forall>w'. fold_res (lg_message h a) ms w = Inr w' \<longrightarrow>
         (\<exists>s'. lg_heap w' a = Some s' \<and> lg_reading s' = [LgHeader]))"
    using assms(1,2,4)
  proof (induction ms arbitrary: w s)
    case Nil
    then show ?case by simp
  next
    case (Cons m ms)
    have eq: "lg_arrive h a m w = lg_message h a m w"
      using Cons.prems by (intro lg_arrive_message[of w a s]) simp_all
    show ?case
    proof (cases "lg_message h a m w")
      case (Inl e)
      then show ?thesis using eq by simp
    next
      case (Inr v)
      then obtain t where "lg_heap v a = Some t" "lg_reading t = [LgHeader]"
        using lg_message_reads[OF assms(3) Cons.prems(1)] by blast
      then show ?thesis using Cons.IH[of v t] Cons.prems(3) eq Inr by simp
    qed
  qed
  moreover have "lg_complete_read h a ec [] w =
      drop_flag (sh_error h ec a (lg_owner s) (put_lg a (s\<lparr>lg_reading := []\<rparr>) w))" if "ec \<noteq> EcOk"
    using assms(1,2) that
    by (simp add: lg_complete_read_def lg_handleReadHeader_def deposit_def)
  ultimately show ?thesis by auto
qed


definition quiet_handler :: "legacy_net SessionHandler" where
  "quiet_handler = \<lparr>sh_read = (\<lambda>i n a ow w. Inr (True, w)), sh_error = (\<lambda>ec a ow w. Inr (True, w)),
     sh_connect = (\<lambda>a ow w. Inr (True, w))\<rparr>"

definition waiting_session :: legacy_session where
  "waiting_session = \<lparr>lg_open = True, lg_msg = blank_message, lg_sendMsg = blank_message, lg_sendQue = [],
     lg_owner = None, lg_rx = 0, lg_reading = [LgHeader], lg_writing = [], lg_connecting = 0\<rparr>"

definition waiting_net :: legacy_net where
  "waiting_net = \<lparr>lg_heap = [0 \<mapsto> waiting_session]\<rparr>"

theorem legacy_session_refines_messages_witness:
  "\<exists>w' s'. fold_res (lg_arrive quiet_handler 0) [blank_message, blank_message] waiting_net = Inr w' \<and>
     lg_heap w' 0 = Some s' \<and> lg_reading s' = [LgHeader] \<and>
     lg_complete_read quiet_handler 0 EcEof [] waiting_net =
       Inr (put_lg 0 (waiting_session\<lparr>lg_reading := []\<rparr>) waiting_net)"
proof -
  have s: "lg_heap waiting_net 0 = Some waiting_session" "lg_reading waiting_session = [LgHeader]"
    by (simp_all add: waiting_net_def waiting_session_def)
  have h: "no_reads quiet_handler 0" by (simp add: no_reads_def quiet_handler_def)
  have m: "\<forall>m \<in> set [blank_message, blank_message]. checkHeader m \<and> 0 \<le> msg_bodyLength m \<and> wf_msg m"
    by (simp add: blank_message_def checkHeader_iff msg_bodyLength_def wf_msg_def)
  have one: "\<exists>w'. lg_message quiet_handler 0 m w = Inr w'" if "lg_heap w 0 = Some t" for m w t
    using that by (simp add: lg_message_def quiet_handler_def)
  have keeps: "lg_heap w' 0 \<noteq> None" if "lg_message quiet_handler 0 m w = Inr w'" "lg_heap w 0 = Some t" for m w w' t
    using lg_message_reads[OF h that(2,1)] by auto
  obtain v where v: "lg_message quiet_handler 0 blank_message waiting_net = Inr v" using one[OF s(1)] by blast
  then obtain t where "lg_heap v 0 = Some t" using keeps[OF v s(1)] by blast
  then obtain u where "lg_message quiet_handler 0 blank_message v = Inr u" using one by blast
  then have "fold_res (lg_message quiet_handler 0) [blank_message, blank_message] waiting_net = Inr u"
    using v by simp
  then show ?thesis
    using legacy_session_refines_messages[OF s h m, of EcEof] by (auto simp: quiet_handler_def waiting_session_def)
qed

end
