(* ===== verification/Party_Client.thy ===== *)
theory Party_Client
  imports Party_Handler Main_Programs Legacy_Session
begin

text \<open>
  The party client: \<open>client/Client.h\<close>, \<open>client/Client.cpp\<close>, \<open>client/Cli.cpp\<close>, \<open>client/Cli.h\<close> and
  \<open>client/main.cpp\<close>, outside the current build. As in \<open>Party_Handler\<close> the message identifiers and
  bodies are parameters, and a session is its message object, its counters and the list of the calls
  made on it.
\<close>

subsection \<open>Parameters\<close>

text \<open>
  Bodies the client builds and reads. A builder fails where the source overruns an array.
  \<open>cl_mk_fill\<close> is a message with 64 bytes of 0xAB, \<open>cl_eco_size\<close> the capacity of \<open>NfEco::msg\<close>, and
  \<open>cl_pace\<close> the floating-point computation of \<open>CmdStart::handle\<close> from the argument, \<open>g_txSize\<close> and
  the number of clients.
\<close>

record client_layout =
  cl_mk_crteuser :: "string \<Rightarrow> string \<Rightarrow> bytes res"
  cl_mk_crteparty :: "string \<Rightarrow> bytes res"
  cl_mk_join :: "string \<Rightarrow> string \<Rightarrow> 32 word \<Rightarrow> bytes res"
  cl_mk_login :: "string \<Rightarrow> string \<Rightarrow> bytes res"
  cl_mk_nf :: "32 word \<Rightarrow> string \<Rightarrow> bytes res"
  cl_mk_fill :: "32 word \<Rightarrow> bytes res"
  cl_rd_party :: "bytes \<Rightarrow> 32 word"
  cl_rd_reqjoin :: "bytes \<Rightarrow> 32 word"
  cl_eco_size :: nat
  cl_pace :: "string \<Rightarrow> int \<Rightarrow> nat \<Rightarrow> int"

subsection \<open>Client (client/Client.h)\<close>

datatype session_call = CallSend Msg | CallSendAgain | CallConnect | CallRead | CallClose

record client_session =
  qs_calls :: "session_call list"
  qs_msg :: Msg
  qs_tx :: int
  qs_rx :: int
  qs_msgTmr :: "unit timer"

record party_client =
  pl_id :: string
  pl_partyId :: "32 word"
  pl_session :: client_session
  pl_tx :: int
  pl_rx :: int
  pl_seq :: int
  pl_bTx :: bool
  pl_bRun :: bool
  pl_monitorTmr :: "unit timer"
  pl_txTmr :: "int timer"
  pl_stopped :: bool

text \<open>The constructor connects nothing yet; \<open>from_string\<close> throws on a host it cannot parse.\<close>

definition party_Client_new :: "(string \<Rightarrow> bool) \<Rightarrow> Msg \<Rightarrow> string \<Rightarrow> string \<Rightarrow> party_client res" where
  "party_Client_new parses msg0 host i =
     (if \<not> parses host then Inl SystemError
      else Inr \<lparr>pl_id = i, pl_partyId = 0,
        pl_session = \<lparr>qs_calls = [], qs_msg = msg0, qs_tx = 0, qs_rx = 0, qs_msgTmr = timer_new\<rparr>,
        pl_tx = 0, pl_rx = 0, pl_seq = 0, pl_bTx = False, pl_bRun = True, pl_monitorTmr = timer_new,
        pl_txTmr = timer_new, pl_stopped = False\<rparr>)"

definition call_session :: "session_call list \<Rightarrow> party_client \<Rightarrow> party_client" where
  "call_session cs c = c\<lparr>pl_session := (pl_session c)\<lparr>qs_calls := qs_calls (pl_session c) @ cs\<rparr>\<rparr>"

definition party_stop :: "party_client \<Rightarrow> party_client" where
  "party_stop c = c\<lparr>pl_stopped := True\<rparr>"

definition party_close :: "party_client \<Rightarrow> party_client" where
  "party_close c = call_session [CallClose] c"

definition party_write :: "Msg \<Rightarrow> party_client \<Rightarrow> party_client" where
  "party_write m c = call_session [CallSend m] c"

definition add_seq :: "party_client \<Rightarrow> (int \<times> party_client) res" where
  "add_seq c = (if pl_seq c = 2 ^ 31 - 1 then Inl SignedOverflow else Inr (pl_seq c, c\<lparr>pl_seq := pl_seq c + 1\<rparr>))"

definition startTmr :: "party_client \<Rightarrow> party_client" where
  "startTmr c = c\<lparr>pl_session := (pl_session c)\<lparr>qs_msgTmr := tm_arm () (tm_cancel (qs_msgTmr (pl_session c)))\<rparr>\<rparr>"

text \<open>
  The handler is bound without the error code: it runs for an aborted wait as well, and compares the
  expiry, whatever it is by then, with the clock.
\<close>

definition cbDeadline :: "party_ids \<Rightarrow> client_layout \<Rightarrow> Msg \<Rightarrow> bool \<Rightarrow> party_client \<Rightarrow> party_client res" where
  "cbDeadline ids cl msg0 expired c =
     (if expired then
        bind_res (cl_mk_fill cl 1) (\<lambda>body.
        bind_res (encode_id (nf_Message ids) NONE_CODE (Some body) (int (length body)) msg0) (\<lambda>m.
          Inr (startTmr (party_write m c))))
      else Inr c)"

definition startMonitor :: "party_client \<Rightarrow> party_client" where
  "startMonitor c = c\<lparr>pl_monitorTmr := tm_arm () (pl_monitorTmr c)\<rparr>"

definition cbMonitor :: "error_code \<Rightarrow> party_client \<Rightarrow> party_client" where
  "cbMonitor ec c =
     (if ec \<noteq> EcOk then c
      else c\<lparr>pl_tx := qs_tx (pl_session c), pl_rx := qs_rx (pl_session c),
             pl_monitorTmr := tm_arm () (pl_monitorTmr c)\<rparr>)"

definition cbTx :: "error_code \<Rightarrow> int \<Rightarrow> party_client \<Rightarrow> party_client" where
  "cbTx ec count c =
     (if ec \<noteq> EcOk then c
      else if pl_bTx c
           then let c1 = call_session (replicate (nat count) CallSendAgain) c
                in c1\<lparr>pl_txTmr := tm_arm count (pl_txTmr c1)\<rparr>
           else c)"

definition startTx :: "int \<Rightarrow> party_client \<Rightarrow> party_client" where
  "startTx count c = c\<lparr>pl_bTx := True, pl_txTmr := tm_arm count (pl_txTmr c)\<rparr>"

definition stopTx :: "party_client \<Rightarrow> party_client" where
  "stopTx c = c\<lparr>pl_bTx := False, pl_txTmr := tm_cancel (pl_txTmr c)\<rparr>"

text \<open>\<open>startRx\<close> up to \<open>run()\<close>, which blocks until the service is stopped, and what follows it.\<close>

definition startRx :: "party_client \<Rightarrow> party_client" where
  "startRx c = call_session [CallConnect] (startMonitor c)"

definition startRx_after_run :: "party_client \<Rightarrow> party_client" where
  "startRx_after_run c = call_session [CallRead] c"

subsection \<open>ClientHandler (client/Client.cpp)\<close>

definition client_read ::
  "party_ids \<Rightarrow> client_layout \<Rightarrow> 32 word \<Rightarrow> bool \<Rightarrow> bool \<Rightarrow> party_client \<Rightarrow> bool \<times> party_client" where
  "client_read ids cl msgId no_session owner_expired c =
     (if no_session \<or> owner_expired then (False, c)
      else
        let body = msg_body (qs_msg (pl_session c)) in
        if msgId = rs_CrteUser ids then (True, c)
        else if msgId = rs_Login ids then (True, c)
        else if msgId = rs_CrteParty ids then (True, c\<lparr>pl_partyId := cl_rd_party cl body\<rparr>)
        else if msgId = rs_JoinUser ids then (True, c)
        else if msgId = rq_ReqJoin ids then (True, c\<lparr>pl_partyId := cl_rd_reqjoin cl body\<rparr>)
        else (True, c))"

definition client_connect :: "bool \<Rightarrow> party_client \<Rightarrow> bool \<times> party_client" where
  "client_connect owner_expired c = (if owner_expired then (False, c) else (True, call_session [CallRead] c))"

subsection \<open>The process\<close>

datatype party_command = PtyCreateUser | PtyCreateParty | PtyRequestJoin | PtyLogin | PtyStartTmr
  | PtySendPkt | PtySendEco | PtyStart | PtyStop

record party_process =
  pw_clients :: "addr \<Rightarrow> party_client option"
  pw_alloc :: addr
  pw_vec :: "addr list"
  pw_bTerm :: bool
  pw_table :: "(string, party_command) smap"
  g_txSize :: int
  pw_out :: string

definition party_process_init :: party_process where
  "party_process_init = \<lparr>pw_clients = (\<lambda>_. None), pw_alloc = 0, pw_vec = [], pw_bTerm = False, pw_table = [],
     g_txSize = 0, pw_out = []\<rparr>"

text \<open>\<open>ClientHandler::error\<close>, which looks at the error code only to log it.\<close>

definition client_error :: "bool \<Rightarrow> party_process \<Rightarrow> bool \<times> party_process" where
  "client_error owner_expired w = (if owner_expired then (False, w) else (True, w\<lparr>pw_bTerm := True\<rparr>))"

definition on_client :: "addr \<Rightarrow> (party_client \<Rightarrow> party_client res) \<Rightarrow> party_process \<Rightarrow> party_process res" where
  "on_client a f w = (case pw_clients w a of None \<Rightarrow> Inl NullDeref
     | Some c \<Rightarrow> bind_res (f c) (\<lambda>c'. Inr (w\<lparr>pw_clients := (pw_clients w)(a \<mapsto> c')\<rparr>)))"

text \<open>\<open>encodeMsg\<close> of a body, then \<open>write\<close>.\<close>

definition write_body :: "32 word \<Rightarrow> Msg \<Rightarrow> bytes res \<Rightarrow> party_client \<Rightarrow> party_client res" where
  "write_body i msg0 mk c =
     bind_res mk (\<lambda>body.
     bind_res (encode_id i NONE_CODE (Some body) (int (length body)) msg0) (\<lambda>m. Inr (party_write m c)))"

subsection \<open>Commands (client/Cli.cpp)\<close>

text \<open>\<open>sprintf\<close> with the user's text as the format: only \<open>%%\<close> needs no argument.\<close>

fun format0 :: "string \<Rightarrow> string res" where
  "format0 [] = Inr []"
| "format0 [x] = (if x = CHR ''%'' then Inl OverRead else Inr [x])"
| "format0 (x # y # rest) =
     (if x = CHR ''%''
      then (if y = CHR ''%'' then bind_res (format0 rest) (\<lambda>r. Inr (CHR ''%'' # r)) else Inl OverRead)
      else bind_res (format0 (y # rest)) (\<lambda>r. Inr (x # r)))"

text \<open>\<open>atoi\<close>; a value outside \<open>int\<close> is undefined.\<close>

definition is_digit :: "char \<Rightarrow> bool" where
  "is_digit x \<longleftrightarrow> (48 :: nat) \<le> of_char x \<and> of_char x \<le> (57 :: nat)"

definition is_blank :: "char \<Rightarrow> bool" where
  "is_blank x \<longleftrightarrow> x = CHR '' '' \<or> ((9 :: nat) \<le> of_char x \<and> of_char x \<le> (13 :: nat))"

definition atoi :: "string \<Rightarrow> int res" where
  "atoi s =
     (let t = dropWhile is_blank s;
          neg = (t \<noteq> [] \<and> hd t = CHR ''-'');
          u = (if t \<noteq> [] \<and> (hd t = CHR ''-'' \<or> hd t = CHR ''+'') then tl t else t);
          n = int (digits_value 0 (map (\<lambda>x. of_char x - 48) (takeWhile is_digit u)));
          v = (if neg then - n else n)
      in if - (2 ^ 31) \<le> v \<and> v < 2 ^ 31 then Inr v else Inl SignedOverflow)"

definition master :: "party_process \<Rightarrow> addr res" where
  "master w = (case pw_vec w of [] \<Rightarrow> Inl OutOfRange | a # _ \<Rightarrow> Inr a)"

text \<open>The commands on the master: a null pointer is tested for, an empty vector is not.\<close>

definition with_master ::
  "(addr \<Rightarrow> party_client \<Rightarrow> (bool \<times> party_process) res) \<Rightarrow> party_process \<Rightarrow> (bool \<times> party_process) res" where
  "with_master f w = bind_res (master w) (\<lambda>a.
     case pw_clients w a of None \<Rightarrow> Inr (False, w) | Some c \<Rightarrow> f a c)"

definition done_true :: "party_process res \<Rightarrow> (bool \<times> party_process) res" where
  "done_true r = bind_res r (\<lambda>w. Inr (True, w))"

definition create_user_one :: "party_ids \<Rightarrow> client_layout \<Rightarrow> Msg \<Rightarrow> addr \<Rightarrow> party_process \<Rightarrow> party_process res" where
  "create_user_one ids cl msg0 a w = on_client a (\<lambda>c.
     write_body (rq_CrteUser ids) msg0
       (bind_res (format0 (pl_id c)) (\<lambda>i. cl_mk_crteuser cl i ''test'')) c) w"

definition create_party :: "party_ids \<Rightarrow> client_layout \<Rightarrow> Msg \<Rightarrow> party_process \<Rightarrow> (bool \<times> party_process) res" where
  "create_party ids cl msg0 w = with_master (\<lambda>a c.
     done_true (on_client a (write_body (rq_CrteParty ids) msg0 (cl_mk_crteparty cl (pl_id c))) w)) w"

definition join_one ::
  "party_ids \<Rightarrow> client_layout \<Rightarrow> Msg \<Rightarrow> string \<Rightarrow> 32 word \<Rightarrow> addr \<Rightarrow> party_process \<Rightarrow> party_process res" where
  "join_one ids cl msg0 i partyId a w = on_client a (\<lambda>c.
     write_body (rq_JoinUser ids) msg0 (cl_mk_join cl i (pl_id c) partyId) c) w"

definition request_join :: "party_ids \<Rightarrow> client_layout \<Rightarrow> Msg \<Rightarrow> party_process \<Rightarrow> (bool \<times> party_process) res" where
  "request_join ids cl msg0 w = with_master (\<lambda>a c.
     if length (pw_vec w) > 1
     then done_true (fold_res (join_one ids cl msg0 (pl_id c) (pl_partyId c)) (tl (pw_vec w)) w)
     else Inr (True, w)) w"

definition login_one :: "party_ids \<Rightarrow> client_layout \<Rightarrow> Msg \<Rightarrow> addr \<Rightarrow> party_process \<Rightarrow> party_process res" where
  "login_one ids cl msg0 a w = on_client a (\<lambda>c.
     write_body (rq_Login ids) msg0 (cl_mk_login cl (pl_id c) ''test'') c) w"

definition start_tmr :: "party_process \<Rightarrow> (bool \<times> party_process) res" where
  "start_tmr w = with_master (\<lambda>a c. done_true (on_client a (\<lambda>c. Inr (startTmr c)) w)) w"

definition send_pkt :: "party_ids \<Rightarrow> client_layout \<Rightarrow> Msg \<Rightarrow> string \<Rightarrow> party_process \<Rightarrow> (bool \<times> party_process) res" where
  "send_pkt ids cl msg0 cli w = with_master (\<lambda>a c.
     done_true (on_client a (write_body (nf_Message ids) msg0 (cl_mk_nf cl (pl_partyId c) cli)) w)) w"

text \<open>\<open>memset\<close> takes the size as a \<open>size_t\<close>; \<open>encodeMsg\<close> narrows it to the header's 16 bits.\<close>

definition send_eco_one :: "party_ids \<Rightarrow> client_layout \<Rightarrow> Msg \<Rightarrow> addr \<Rightarrow> party_process \<Rightarrow> party_process res" where
  "send_eco_one ids cl msg0 a w = on_client a (\<lambda>c.
     let sz = unat (word_of_int (g_txSize w) :: 64 word) in
     if sz > cl_eco_size cl then Inl BufferOverflow
     else bind_res (encode_id (ID_nf_Eco ids) NONE_CODE (Some (replicate sz 0xAB)) (g_txSize w) msg0)
            (\<lambda>m. Inr (party_write m c))) w"

definition send_eco :: "party_ids \<Rightarrow> client_layout \<Rightarrow> Msg \<Rightarrow> string list \<Rightarrow> party_process \<Rightarrow> (bool \<times> party_process) res" where
  "send_eco ids cl msg0 split w =
     (if length split \<le> 1 then Inl OutOfRange
      else bind_res (atoi (split ! 1)) (\<lambda>n.
        let w1 = w\<lparr>g_txSize := n\<rparr>
        in done_true (fold_res (send_eco_one ids cl msg0) (pw_vec w1) w1)))"

definition start_sending :: "client_layout \<Rightarrow> string list \<Rightarrow> party_process \<Rightarrow> (bool \<times> party_process) res" where
  "start_sending cl split w =
     (if length split \<le> 1 then Inl OutOfRange
      else
        let count = cl_pace cl (split ! 1) (g_txSize w) (length (pw_vec w))
        in done_true (fold_res (\<lambda>a. on_client a (\<lambda>c. Inr (startTx count c))) (pw_vec w) w))"

definition stop_sending :: "party_process \<Rightarrow> (bool \<times> party_process) res" where
  "stop_sending w = done_true (fold_res (\<lambda>a. on_client a (\<lambda>c. Inr (stopTx c))) (pw_vec w) w)"

fun party_handle ::
  "party_command \<Rightarrow> party_ids \<Rightarrow> client_layout \<Rightarrow> Msg \<Rightarrow> string \<Rightarrow> string list \<Rightarrow> party_process
     \<Rightarrow> (bool \<times> party_process) res" where
  "party_handle PtyCreateUser ids cl msg0 cli split w =
     done_true (fold_res (create_user_one ids cl msg0) (pw_vec w) w)"
| "party_handle PtyCreateParty ids cl msg0 cli split w = create_party ids cl msg0 w"
| "party_handle PtyRequestJoin ids cl msg0 cli split w = request_join ids cl msg0 w"
| "party_handle PtyLogin ids cl msg0 cli split w = done_true (fold_res (login_one ids cl msg0) (pw_vec w) w)"
| "party_handle PtyStartTmr ids cl msg0 cli split w = start_tmr w"
| "party_handle PtySendPkt ids cl msg0 cli split w = send_pkt ids cl msg0 cli w"
| "party_handle PtySendEco ids cl msg0 cli split w = send_eco ids cl msg0 split w"
| "party_handle PtyStart ids cl msg0 cli split w = start_sending cl split w"
| "party_handle PtyStop ids cl msg0 cli split w = stop_sending w"

fun party_help :: "party_command \<Rightarrow> string" where
  "party_help PtyCreateUser = ''create users as many as clients and make DB data in mysql'' @ [CHR 0x0A]"
| "party_help PtyCreateParty = ''create party'' @ [CHR 0x0A]"
| "party_help PtyRequestJoin = ''request join to slave clients'' @ [CHR 0x0A]"
| "party_help PtyLogin = ''login users'' @ [CHR 0x0A]"
| "party_help PtyStartTmr = ''send dummy packet from master client to server per 1 second. server broadcast that packet to slave clients'' @ [CHR 0x0A]"
| "party_help PtySendPkt = ''make dummy packet and send to server'' @ [CHR 0x0A]"
| "party_help PtySendEco = ''send_eco [packet size]byte. make dummy packet and send to server. server will send eco message to client.'' @ [CHR 0x0A]"
| "party_help PtyStart = ''start [bandwidth]Gbps. before this, send_eco first. '' @ [CHR 0x0A]"
| "party_help PtyStop = ''stop packet send.'' @ [CHR 0x0A]"

subsection \<open>The console and the program (client/Cli.h, client/main.cpp)\<close>

definition party_registerCommand ::
  "string \<Rightarrow> party_command \<Rightarrow> (string, party_command) smap \<Rightarrow> bool \<times> (string, party_command) smap" where
  "party_registerCommand cmd c table =
     (case map_find cmd table of Some _ \<Rightarrow> (False, table) | None \<Rightarrow> (True, map_emplace cmd c table))"

definition party_factory_help :: "(string, party_command) smap \<Rightarrow> string" where
  "party_factory_help table =
     ''     command     :     comment'' @ [CHR 0x0A]
     @ ''====================================='' @ [CHR 0x0A]
     @ concat (map (\<lambda>(name, c). name @ '' :     '' @ party_help c) table)"

definition party_commands :: "(string \<times> party_command) list" where
  "party_commands = [(''create_user'', PtyCreateUser), (''create_party'', PtyCreateParty),
     (''request_join'', PtyRequestJoin), (''login'', PtyLogin), (''start_tmr'', PtyStartTmr),
     (''send_pkt'', PtySendPkt), (''send_eco'', PtySendEco), (''start'', PtyStart), (''stop'', PtyStop)]"

definition party_register_commands :: "party_process \<Rightarrow> party_process" where
  "party_register_commands w =
     w\<lparr>pw_table := foldl (\<lambda>t (cmd, c). snd (party_registerCommand cmd c t)) [] party_commands\<rparr>"

definition party_line ::
  "(string \<Rightarrow> string list) \<Rightarrow> party_ids \<Rightarrow> client_layout \<Rightarrow> Msg \<Rightarrow> string \<Rightarrow> party_process
     \<Rightarrow> (line_result \<times> party_process) res" where
  "party_line tokens ids cl msg0 str w =
     (if length str > 0 then
        (if str = ''quit'' then Inr (LineQuit, w\<lparr>pw_bTerm := True\<rparr>)
         else if str = ''?'' \<or> str = ''help''
         then Inr (LineGoOn, w\<lparr>pw_out := pw_out w @ party_factory_help (pw_table w)\<rparr>)
         else (case tokens str of
                 [] \<Rightarrow> Inl OutOfRange
               | cmd # args \<Rightarrow> (case map_find cmd (pw_table w) of
                   None \<Rightarrow> Inr (LineGoOn, w)
                 | Some c \<Rightarrow> bind_res (party_handle c ids cl msg0 str (tokens str) w)
                              (\<lambda>(ok, w'). Inr (LineGoOn, w')))))
      else Inr (LineGoOn, w))"

fun party_readLine ::
  "nat \<Rightarrow> (string \<Rightarrow> string list) \<Rightarrow> party_ids \<Rightarrow> client_layout \<Rightarrow> Msg \<Rightarrow> istream \<Rightarrow> string \<Rightarrow> party_process
     \<Rightarrow> party_process res option" where
  "party_readLine 0 tokens ids cl msg0 inp str w = None"
| "party_readLine (Suc n) tokens ids cl msg0 inp str w =
     (if pw_bTerm w then Some (Inr w)
      else
        let (inp', str') = getline inp str;
            w1 = w\<lparr>pw_out := pw_out w @ ''> ''\<rparr>
        in (case party_line tokens ids cl msg0 str' w1 of
              Inl e \<Rightarrow> Some (Inl e)
            | Inr (LineQuit, w2) \<Rightarrow> Some (Inr w2)
            | Inr (LineGoOn, w2) \<Rightarrow> party_readLine n tokens ids cl msg0 inp' str' w2))"

definition party_sigHandler :: "int \<Rightarrow> party_process \<Rightarrow> bool \<times> party_process" where
  "party_sigHandler sig w =
     ((if sig = 11 then False else True),
      w\<lparr>pw_bTerm := True, pw_vec := [],
        pw_clients := (\<lambda>a. if a \<in> set (pw_vec w) then map_option party_stop (pw_clients w a) else pw_clients w a)\<rparr>)"

text \<open>The loop that creates the clients; the thread of each runs \<open>startRx\<close>.\<close>

fun party_create_clients ::
  "nat \<Rightarrow> (string \<Rightarrow> bool) \<Rightarrow> string option \<Rightarrow> string \<Rightarrow> int \<Rightarrow> Msg \<Rightarrow> 16 word \<Rightarrow> party_process
     \<Rightarrow> party_process res option" where
  "party_create_clients 0 parses arg host numThread msg0 i w = None"
| "party_create_clients (Suc n) parses arg host numThread msg0 i w =
     (if sint i < numThread then
        (case bind_res (format_id arg i) (\<lambda>tmp.
              bind_res (party_Client_new parses msg0 host
                  (map (\<lambda>b. char_of (unat b)) (takeWhile (\<lambda>b. b \<noteq> 0) tmp))) (\<lambda>c.
                Inr (w\<lparr>pw_clients := (pw_clients w)(pw_alloc w \<mapsto> startRx c), pw_alloc := pw_alloc w + 1,
                       pw_vec := pw_vec w @ [pw_alloc w]\<rparr>))) of
           Inl e \<Rightarrow> Some (Inl e)
         | Inr w' \<Rightarrow> party_create_clients n parses arg host numThread msg0 (i + 1) w')
      else Some (Inr w))"

text \<open>
  The program up to the end of the console, as \<open>client_console\<close> of \<open>Main_Programs\<close>: \<open>fuel\<close> bounds both loops. Here
  the remote option is used.
\<close>

definition party_client_console ::
  "nat \<Rightarrow> (string \<Rightarrow> bool) \<Rightarrow> (string \<Rightarrow> string list) \<Rightarrow> party_ids \<Rightarrow> client_layout \<Rightarrow> string option \<Rightarrow> istream
     \<Rightarrow> Msg \<Rightarrow> client_options option \<Rightarrow> (int \<times> party_process option) res option" where
  "party_client_console fuel parses tokens ids cl argv2 stdin0 msg0 vm = (case vm of
       None \<Rightarrow> Some (Inl SystemError)
     | Some o1 \<Rightarrow>
         if co_help o1 then Some (Inr (0, None))
         else if co_version o1 then Some (Inr (0, None))
         else
           let numThread = (case co_threads o1 of None \<Rightarrow> 1 | Some n \<Rightarrow> n);
               host = (case co_remote o1 of Some h \<Rightarrow> h | None \<Rightarrow> ''127.0.0.1'')
           in (case party_create_clients fuel parses argv2 host numThread msg0 0
                      (party_register_commands party_process_init) of
                 None \<Rightarrow> None
               | Some (Inl e) \<Rightarrow> Some (Inl e)
               | Some (Inr w1) \<Rightarrow>
                   map_option (\<lambda>r. bind_res r (\<lambda>w2. Inr (0, Some w2)))
                     (party_readLine fuel tokens ids cl msg0 stdin0 [] (w1\<lparr>pw_bTerm := False\<rparr>))))"

text \<open>
  What happens in the threads of the clients: a timer expires, its first completion runs, and the handler of the
  session is called. A thread is in \<open>run()\<close> until its service is stopped or has no work left: a wait or a completion of
  one of the timers, or an operation of the session; for the last, \<open>busy\<close> is a parameter. Handlers run only in a thread
  that is in \<open>run()\<close>.
\<close>

datatype client_event = MonitorExpires addr | MonitorRuns addr | TxExpires addr | TxRuns addr
  | DeadlineExpires addr | DeadlineRuns addr bool | PartyRead addr "32 word" Msg bool bool
  | PartyConnect addr bool | PartyError addr bool

fun client_event_at :: "client_event \<Rightarrow> addr" where
  "client_event_at (MonitorExpires a) = a" | "client_event_at (MonitorRuns a) = a"
| "client_event_at (TxExpires a) = a" | "client_event_at (TxRuns a) = a"
| "client_event_at (DeadlineExpires a) = a" | "client_event_at (DeadlineRuns a late) = a"
| "client_event_at (PartyRead a i m none gone) = a" | "client_event_at (PartyConnect a gone) = a"
| "client_event_at (PartyError a gone) = a"

definition set_msgTmr :: "unit timer \<Rightarrow> party_client \<Rightarrow> party_client" where
  "set_msgTmr t c = c\<lparr>pl_session := (pl_session c)\<lparr>qs_msgTmr := t\<rparr>\<rparr>"

fun client_exec ::
  "party_ids \<Rightarrow> client_layout \<Rightarrow> Msg \<Rightarrow> client_event \<Rightarrow> party_process \<Rightarrow> party_process res" where
  "client_exec ids cl msg0 (MonitorExpires a) w =
     on_client a (\<lambda>c. Inr (c\<lparr>pl_monitorTmr := tm_expire (pl_monitorTmr c)\<rparr>)) w"
| "client_exec ids cl msg0 (MonitorRuns a) w = on_client a (\<lambda>c. case tm_ready (pl_monitorTmr c) of
       [] \<Rightarrow> Inr c
     | (h, ec) # rest \<Rightarrow> Inr (cbMonitor ec (c\<lparr>pl_monitorTmr := (pl_monitorTmr c)\<lparr>tm_ready := rest\<rparr>\<rparr>))) w"
| "client_exec ids cl msg0 (TxExpires a) w = on_client a (\<lambda>c. Inr (c\<lparr>pl_txTmr := tm_expire (pl_txTmr c)\<rparr>)) w"
| "client_exec ids cl msg0 (TxRuns a) w = on_client a (\<lambda>c. case tm_ready (pl_txTmr c) of
       [] \<Rightarrow> Inr c
     | (h, ec) # rest \<Rightarrow> Inr (cbTx ec h (c\<lparr>pl_txTmr := (pl_txTmr c)\<lparr>tm_ready := rest\<rparr>\<rparr>))) w"
| "client_exec ids cl msg0 (DeadlineExpires a) w =
     on_client a (\<lambda>c. Inr (set_msgTmr (tm_expire (qs_msgTmr (pl_session c))) c)) w"
| "client_exec ids cl msg0 (DeadlineRuns a late) w = on_client a (\<lambda>c. case tm_ready (qs_msgTmr (pl_session c)) of
       [] \<Rightarrow> Inr c
     | x # rest \<Rightarrow> cbDeadline ids cl msg0 late (set_msgTmr ((qs_msgTmr (pl_session c))\<lparr>tm_ready := rest\<rparr>) c)) w"
| "client_exec ids cl msg0 (PartyRead a i m none gone) w = on_client a (\<lambda>c. Inr (snd
     (client_read ids cl i none gone (c\<lparr>pl_session := (pl_session c)\<lparr>qs_msg := m\<rparr>\<rparr>)))) w"
| "client_exec ids cl msg0 (PartyConnect a gone) w = on_client a (\<lambda>c. Inr (snd (client_connect gone c))) w"
| "client_exec ids cl msg0 (PartyError a gone) w = Inr (snd (client_error gone w))"

definition tm_work :: "'h timer \<Rightarrow> bool" where
  "tm_work t \<longleftrightarrow> tm_pending t \<noteq> [] \<or> tm_ready t \<noteq> []"

definition party_thread_runs :: "(client_session \<Rightarrow> bool) \<Rightarrow> party_process \<Rightarrow> addr \<Rightarrow> bool" where
  "party_thread_runs busy w a \<longleftrightarrow> (case pw_clients w a of None \<Rightarrow> False | Some c \<Rightarrow> \<not> pl_stopped c \<and>
     (tm_work (pl_monitorTmr c) \<or> tm_work (pl_txTmr c) \<or> tm_work (qs_msgTmr (pl_session c)) \<or> busy (pl_session c)))"

definition client_event_step ::
  "(client_session \<Rightarrow> bool) \<Rightarrow> party_ids \<Rightarrow> client_layout \<Rightarrow> Msg \<Rightarrow> client_event \<Rightarrow> party_process \<Rightarrow> party_process res" where
  "client_event_step busy ids cl msg0 e w =
     (if party_thread_runs busy w (client_event_at e) then client_exec ids cl msg0 e w else Inr w)"

text \<open>The whole program, with the loop of \<open>join\<close> calls while the events \<open>es\<close> happen.\<close>

definition party_client_main ::
  "nat \<Rightarrow> (string \<Rightarrow> bool) \<Rightarrow> (string \<Rightarrow> string list) \<Rightarrow> party_ids \<Rightarrow> client_layout \<Rightarrow> string option \<Rightarrow> istream
     \<Rightarrow> Msg \<Rightarrow> (client_session \<Rightarrow> bool) \<Rightarrow> client_event list \<Rightarrow> client_options option
     \<Rightarrow> (int \<times> party_process option) res option" where
  "party_client_main fuel parses tokens ids cl argv2 stdin0 msg0 busy es vm =
     (case map_option catching (party_client_console fuel parses tokens ids cl argv2 stdin0 msg0 vm) of
        Some (Inr (rtn, Some w)) \<Rightarrow> map_option (\<lambda>r. bind_res r (\<lambda>w'. Inr (rtn, Some w')))
          (join_threads (party_thread_runs busy) (client_event_step busy ids cl msg0) es (pw_vec w) w)
      | r \<Rightarrow> r)"

subsection \<open>What the calls do to the session\<close>



text \<open>Commands call nothing on the sessions but \<open>write\<close>.\<close>

definition only_writes :: "party_process \<Rightarrow> party_process \<Rightarrow> bool" where
  "only_writes w w' \<longleftrightarrow> (\<forall>a c. pw_clients w a = Some c \<longrightarrow> (\<exists>c' ms. pw_clients w' a = Some c' \<and>
     qs_calls (pl_session c') = qs_calls (pl_session c) @ map CallSend ms))"

lemma only_writes_refl [simp]: "only_writes w w"
  by (auto simp: only_writes_def intro: exI[of _ "[]"])


lemma only_writes_txSize [simp]: "only_writes (w\<lparr>g_txSize := n\<rparr>) w' = only_writes w w'"
  by (simp add: only_writes_def)













subsection \<open>The pace of sending as a step relation\<close>

text \<open>
  The events of the transmit timer: the console starts and stops sending, the timer expires, and the
  service runs the first completion.
\<close>

inductive pace_step :: "party_client \<Rightarrow> party_client \<Rightarrow> bool" where
  pace_start: "pace_step c (startTx count c)"
| pace_stop: "pace_step c (stopTx c)"
| pace_expire: "pace_step c (c\<lparr>pl_txTmr := tm_expire (pl_txTmr c)\<rparr>)"
| pace_run: "tm_ready (pl_txTmr c) = (h, ec) # rest \<Longrightarrow>
    pace_step c (cbTx ec h (c\<lparr>pl_txTmr := (pl_txTmr c)\<lparr>tm_ready := rest\<rparr>\<rparr>))"

inductive pace_reach :: "party_client \<Rightarrow> party_client \<Rightarrow> bool" for c0 where
  pace_here: "pace_reach c0 c0"
| pace_next: "pace_reach c0 c \<Longrightarrow> pace_step c c' \<Longrightarrow> pace_reach c0 c'"

definition pace_inv :: "party_client \<Rightarrow> bool" where
  "pace_inv c \<longleftrightarrow> length (tm_pending (pl_txTmr c)) \<le> 1 \<and>
     (if pl_bTx c then tm.scheduled (pl_txTmr c) else tm_pending (pl_txTmr c) = [])"

lemma call_session_fields [simp]:
  "pl_txTmr (call_session cs c) = pl_txTmr c" "pl_bTx (call_session cs c) = pl_bTx c"
  "pl_id (call_session cs c) = pl_id c" "pl_partyId (call_session cs c) = pl_partyId c"
  "qs_calls (pl_session (call_session cs c)) = qs_calls (pl_session c) @ cs"
  by (simp_all add: call_session_def)

lemma cbTx_fields:
  "pl_bTx (cbTx ec h c) = pl_bTx c"
  "pl_txTmr (cbTx ec h c) = (if ec = EcOk \<and> pl_bTx c then tm_arm h (pl_txTmr c) else pl_txTmr c)"
  by (simp_all add: cbTx_def Let_def)

lemma pace_step_inv: "pace_step c c' \<Longrightarrow> pace_inv c \<Longrightarrow> pace_inv c'"
proof (induction rule: pace_step.induct)
  case (pace_start c count)
  then show ?case by (simp add: pace_inv_def startTx_def tm.one_wait tm.scheduled_laws)
next
  case (pace_stop c)
  then show ?case by (simp add: pace_inv_def stopTx_def tm.cancel_laws)
next
  case (pace_expire c)
  then show ?case by (simp add: pace_inv_def tm.expire_laws tm.scheduled_laws)
next
  case (pace_run c h ec rest)
  show ?case
  proof (cases "ec = EcOk \<and> pl_bTx c")
    case True
    then show ?thesis using pace_run by (simp add: pace_inv_def cbTx_fields tm.one_wait tm.scheduled_laws)
  next
    case False
    have "tm.scheduled (pl_txTmr c\<lparr>tm_ready := rest\<rparr>)" if "pl_bTx c"
    proof -
      have "ec \<noteq> EcOk" using False that by simp
      then have "tm_fired (pl_txTmr c\<lparr>tm_ready := rest\<rparr>) = tm_fired (pl_txTmr c)"
        using pace_run(1) by (auto simp: tm_fired_def)
      then show ?thesis using pace_run(2) that by (simp add: pace_inv_def tm.scheduled_def)
    qed
    then show ?thesis using False pace_run(2) by (simp add: pace_inv_def cbTx_fields)
  qed
qed

lemma pace_reach_inv: "pace_reach c0 c \<Longrightarrow> pace_inv c0 \<Longrightarrow> pace_inv c"
  by (induction rule: pace_reach.induct) (auto dest: pace_step_inv)

text \<open>One round: the timer expires and the service runs the completion.\<close>

definition pace_tick :: "party_client \<Rightarrow> party_client" where
  "pace_tick c = (let t = tm_expire (pl_txTmr c) in
     case tm_ready t of [] \<Rightarrow> c\<lparr>pl_txTmr := t\<rparr>
     | (h, ec) # rest \<Rightarrow> cbTx ec h (c\<lparr>pl_txTmr := t\<lparr>tm_ready := rest\<rparr>\<rparr>))"

definition waits_only :: "int \<Rightarrow> party_client \<Rightarrow> bool" where
  "waits_only h c \<longleftrightarrow> pl_bTx c \<and> pl_txTmr c = \<lparr>tm_pending = [h], tm_ready = []\<rparr>"

lemma pace_tick_waits:
  assumes "waits_only h c"
  shows "waits_only h (pace_tick c)"
    "qs_calls (pl_session (pace_tick c)) = qs_calls (pl_session c) @ replicate (nat h) CallSendAgain"
  using assms by (simp_all add: waits_only_def pace_tick_def tm_expire_def tm_arm_def tm_cancel_def cbTx_def Let_def
      call_session_def)

lemma pace_ticks:
  assumes "waits_only h c"
  shows "waits_only h ((pace_tick ^^ n) c) \<and>
    qs_calls (pl_session ((pace_tick ^^ n) c)) = qs_calls (pl_session c) @ replicate (n * nat h) CallSendAgain"
proof (induction n)
  case 0
  then show ?case using assms by simp
next
  case (Suc n)
  then show ?case
    using pace_tick_waits[of h "(pace_tick ^^ n) c"] by (simp add: replicate_add[symmetric] add.commute)
qed

subsection \<open>Commands for all clients\<close>

definition for_clients :: "(party_client \<Rightarrow> party_client) \<Rightarrow> addr list \<Rightarrow> party_process \<Rightarrow> party_process" where
  "for_clients f xs w = w\<lparr>pw_clients := (\<lambda>a. if a \<in> set xs then map_option f (pw_clients w a) else pw_clients w a)\<rparr>"

lemma for_clients_fold:
  assumes "\<And>a v c. a \<in> set xs \<Longrightarrow> P v \<Longrightarrow> pw_clients v a = Some c \<Longrightarrow>
      body a v = Inr (v\<lparr>pw_clients := (pw_clients v)(a \<mapsto> f c)\<rparr>)"
    and "\<And>v g. P (v\<lparr>pw_clients := g\<rparr>) = P v"
    and "distinct xs" and "P w" and "\<forall>a \<in> set xs. pw_clients w a \<noteq> None"
  shows "fold_res body xs w = Inr (for_clients f xs w)"
  using assms(1,3-5)
proof (induction xs arbitrary: w)
  case Nil
  then show ?case by (simp add: for_clients_def)
next
  case (Cons x xs)
  then obtain c where c: "pw_clients w x = Some c" by auto
  let ?w = "w\<lparr>pw_clients := (pw_clients w)(x \<mapsto> f c)\<rparr>"
  have "fold_res body xs ?w = Inr (for_clients f xs ?w)"
  proof (rule Cons.IH)
    show "P ?w" using assms(2) Cons.prems(3) by simp
    show "distinct xs" using Cons.prems(2) by simp
    show "\<forall>a \<in> set xs. pw_clients ?w a \<noteq> None" using Cons.prems(4) by simp
  qed (use Cons.prems(1) in simp)
  moreover have "for_clients f xs ?w = for_clients f (x # xs) w"
    using c Cons.prems(2) by (auto simp: for_clients_def fun_eq_iff)
  moreover have "body x w = Inr ?w" using Cons.prems(1)[OF _ Cons.prems(3) c] by (simp add: fun_upd_def)
  ultimately show ?case by simp
qed

lemma on_clients_fold:
  assumes "distinct xs" and "\<forall>a \<in> set xs. pw_clients w a \<noteq> None"
  shows "fold_res (\<lambda>a. on_client a (\<lambda>c. Inr (f c))) xs w = Inr (for_clients f xs w)"
  by (rule for_clients_fold[where P = "\<lambda>w. True", OF _ _ assms(1) _ assms(2)]) (simp_all add: on_client_def)

lemma start_stop_all:
  assumes "distinct (pw_vec w)" and "\<forall>a \<in> set (pw_vec w). pw_clients w a \<noteq> None"
  shows "start_sending cl [cmd, arg] w =
      Inr (True, for_clients (startTx (cl_pace cl arg (g_txSize w) (length (pw_vec w)))) (pw_vec w) w)"
    and "stop_sending w = Inr (True, for_clients stopTx (pw_vec w) w)"
  using on_clients_fold[OF assms] by (simp_all add: start_sending_def stop_sending_def done_true_def)

text \<open>The size of an echo as \<open>memset\<close> sees it.\<close>

lemma eco_size:
  assumes "atoi arg = Inr n" and "cl_eco_size cl \<le> 1024"
  shows "cl_eco_size cl < unat (word_of_int n :: 64 word) \<longleftrightarrow> n < 0 \<or> int (cl_eco_size cl) < n"
proof -
  have range: "- (2 ^ 31) \<le> n" "n < 2 ^ 31"
    using assms(1) by (auto simp: atoi_def Let_def split: if_splits)
  show ?thesis
  proof (cases "n < 0")
    case True
    then have "unat (word_of_int n :: 64 word) = nat (2 ^ 64 + n)" using range by (intro unat_size_neg) auto
    then show ?thesis using True range assms(2) by (simp add: zless_nat_eq_int_zless)
  next
    case False
    then have "unat (word_of_int n :: 64 word) = nat n" using range by (intro unat_size_nonneg) auto
    then show ?thesis using False by (simp add: zless_nat_eq_int_zless)
  qed
qed

lemma send_eco_fold:
  assumes "distinct xs" and "\<forall>a \<in> set xs. pw_clients w a \<noteq> None"
    and "pw_clients v = pw_clients w" and "g_txSize v = n" and "0 \<le> n" and "n \<le> 1024"
    and "unat (word_of_int n :: 64 word) \<le> cl_eco_size cl"
  shows "fold_res (send_eco_one ids cl msg0) xs v =
    Inr (for_clients (party_write (party_msg (ID_nf_Eco ids) NONE_CODE (replicate (nat n) 0xAB) msg0)) xs v)"
proof (rule for_clients_fold[where P = "\<lambda>v. g_txSize v = n"])
  have u: "unat (word_of_int n :: 64 word) = nat n" using assms(5,6) by (intro unat_size_nonneg) auto
  show "send_eco_one ids cl msg0 a v = Inr (v\<lparr>pw_clients := (pw_clients v)(a \<mapsto>
      party_write (party_msg (ID_nf_Eco ids) NONE_CODE (replicate (nat n) 0xAB) msg0) c)\<rparr>)"
    if "g_txSize v = n" "pw_clients v a = Some c" for a v c
    using that u assms(5-7) encode_data[of "replicate (nat n) 0xAB" "ID_nf_Eco ids" NONE_CODE msg0]
    by (simp add: send_eco_one_def on_client_def Let_def nat_le_iff)
qed (use assms in simp_all)

subsection \<open>The start of the program\<close>

lemma of_char_byte: "char_of (unat (of_char x :: byte)) = x" "x \<noteq> CHR 0x00 \<Longrightarrow> (of_char x :: byte) \<noteq> 0"
proof -
  have u: "unat (of_char x :: byte) = of_char x"
    by (simp add: of_char_def unsigned_of_int)
  then show "char_of (unat (of_char x :: byte)) = x" by simp
  show "(of_char x :: byte) \<noteq> 0" if "x \<noteq> CHR 0x00"
  proof
    assume "(of_char x :: byte) = 0"
    then have "of_char x = (0 :: nat)" using u by simp
    then have "of_char x = (of_char (CHR 0x00) :: nat)" by simp
    with that show False by (simp only: of_char_eq_iff)
  qed
qed

lemma to_string_no_nul: "CHR 0x00 \<notin> set (to_string i)"
proof -
  have "CHR 0x00 \<noteq> digit_char d" if "d < 10" for d
  proof
    assume "CHR 0x00 = digit_char d"
    then have "of_char (CHR 0x00) = (of_char (digit_char d) :: nat)" by simp
    with that show False by (simp add: digit_char_def)
  qed
  then have "CHR 0x00 \<notin> digit_char ` set (nat_digits n)" for n
    using nat_digits_less_10 by blast
  then show ?thesis by (simp add: to_string_def to_string_nat_def)
qed

lemma no_nul_bytes: "CHR 0x00 \<notin> set t \<Longrightarrow> (0 :: byte) \<notin> set (map of_char t)"
  by (induction t) (auto dest: of_char_byte(2)[OF not_sym])

lemma bytes_text: "map (\<lambda>b. char_of (unat b)) (map of_char t :: bytes) = t"
  by (induction t) (simp_all add: of_char_byte(1))

lemma client_name:
  assumes "CHR 0x00 \<notin> set s" and "length s \<le> 24"
  shows "\<exists>buf. format_id (Some s) i = Inr buf \<and>
    map (\<lambda>b. char_of (unat b)) (takeWhile (\<lambda>b. b \<noteq> 0) buf) = s @ ''_'' @ to_string (sint i)"
proof -
  define t where "t = s @ ''_'' @ to_string (sint i)"
  define b where "b = (map of_char t :: bytes)"
  have n: "length b < 32" using length_to_string_int16[of i] assms(2) by (simp add: b_def t_def)
  have "CHR 0x00 \<notin> set t" using assms(1) to_string_no_nul[of "sint i"] by (simp add: t_def)
  then have z: "0 \<notin> set b" unfolding b_def by (rule no_nul_bytes)
  have "replicate (32 - length b) (0 :: byte) = 0 # replicate (32 - Suc (length b)) 0"
    using n by (simp add: Suc_diff_Suc replicate_Suc[symmetric] del: replicate_Suc)
  then have "takeWhile (\<lambda>x. x \<noteq> 0) (text_body b 32) = b"
    using takeWhile_nul[OF z] by (simp add: text_body_def)
  moreover have "format_id (Some s) i = Inr (text_body b 32)"
    using strcpy_zeros[OF z n] by (simp add: format_id_def c_str_def b_def t_def)
  moreover have "map (\<lambda>x. char_of (unat x)) b = t" unfolding b_def by (rule bytes_text)
  ultimately show ?thesis unfolding t_def by auto
qed

definition fresh_client :: "string \<Rightarrow> party_client option \<Rightarrow> bool" where
  "fresh_client i c \<longleftrightarrow> (\<exists>x. c = Some x \<and> pl_id x = i \<and> pl_partyId x = 0 \<and> \<not> pl_stopped x \<and>
     qs_calls (pl_session x) = [CallConnect] \<and> tm_pending (pl_monitorTmr x) = [()] \<and> pl_txTmr x = timer_new)"

definition party_created :: "nat \<Rightarrow> string \<Rightarrow> party_process \<Rightarrow> bool" where
  "party_created k s w \<longleftrightarrow> pw_alloc w = k \<and> pw_vec w = [0..<k] \<and>
     (\<forall>a < k. fresh_client (s @ ''_'' @ to_string (int a)) (pw_clients w a))"

lemma party_created_step:
  assumes "party_created k s w" and "parses host" and "CHR 0x00 \<notin> set s" and "length s \<le> 24"
    and "sint (i :: 16 word) = int k"
  shows "\<exists>w'. bind_res (format_id (Some s) i) (\<lambda>tmp.
      bind_res (party_Client_new parses msg0 host
          (map (\<lambda>b. char_of (unat b)) (takeWhile (\<lambda>b. b \<noteq> 0) tmp))) (\<lambda>c.
        Inr (w\<lparr>pw_clients := (pw_clients w)(pw_alloc w \<mapsto> startRx c), pw_alloc := pw_alloc w + 1,
               pw_vec := pw_vec w @ [pw_alloc w]\<rparr>))) = Inr w' \<and>
    party_created (Suc k) s w' \<and> pw_table w' = pw_table w"
proof -
  obtain buf where b: "format_id (Some s) i = Inr buf"
    "map (\<lambda>b. char_of (unat b)) (takeWhile (\<lambda>b. b \<noteq> 0) buf) = s @ ''_'' @ to_string (sint i)"
    using client_name[OF assms(3,4)] by blast
  obtain c where c: "party_Client_new parses msg0 host (s @ ''_'' @ to_string (sint i)) = Inr c"
    "fresh_client (s @ ''_'' @ to_string (int k)) (Some (startRx c))"
    using assms(2,5) by (simp add: party_Client_new_def fresh_client_def startRx_def startMonitor_def call_session_def
        tm_arm_def tm_cancel_def timer_new_def Let_def)
  let ?w = "w\<lparr>pw_clients := (pw_clients w)(pw_alloc w \<mapsto> startRx c), pw_alloc := pw_alloc w + 1,
    pw_vec := pw_vec w @ [pw_alloc w]\<rparr>"
  have "party_created (Suc k) s ?w"
    using assms(1) c(2) by (auto simp: party_created_def less_Suc_eq)
  then show ?thesis using b c(1) by simp
qed

lemma party_create_clients_run:
  assumes "party_created k s w" and "parses host" and "CHR 0x00 \<notin> set s" and "length s \<le> 24"
    and "sint i = int k" and "int (k + n) = numThread" and "numThread \<le> 32767" and "n < fuel"
  shows "\<exists>w'. party_create_clients fuel parses (Some s) host numThread msg0 i w = Some (Inr w') \<and>
    party_created (k + n) s w' \<and> pw_table w' = pw_table w"
  using assms(1,5,6,8)
proof (induction n arbitrary: i w k fuel)
  case 0
  then show ?case by (cases fuel) simp_all
next
  case (Suc n)
  obtain f where f: "fuel = Suc f" "n < f" using Suc.prems(4) by (cases fuel) auto
  obtain w1 where w1: "bind_res (format_id (Some s) i) (\<lambda>tmp.
      bind_res (party_Client_new parses msg0 host
          (map (\<lambda>b. char_of (unat b)) (takeWhile (\<lambda>b. b \<noteq> 0) tmp))) (\<lambda>c.
        Inr (w\<lparr>pw_clients := (pw_clients w)(pw_alloc w \<mapsto> startRx c), pw_alloc := pw_alloc w + 1,
               pw_vec := pw_vec w @ [pw_alloc w]\<rparr>))) = Inr w1"
    and c: "party_created (Suc k) s w1" "pw_table w1 = pw_table w"
    using party_created_step[where parses = parses and host = host and w = w, OF Suc.prems(1) assms(2-4) Suc.prems(2)]
    by blast
  have less: "sint i < numThread" using Suc.prems(2,3) by simp
  have "sint (i + 1) = sint i + 1"
    using sint_int16[of "sint i + 1"] sint16_range(1)[of i] less assms(7) by simp
  then have "sint (i + 1) = int (Suc k)" using Suc.prems(2) by simp
  moreover have "int (Suc k + n) = numThread" using Suc.prems(3) by simp
  ultimately obtain w' where "party_create_clients f parses (Some s) host numThread msg0 (i + 1) w1 = Some (Inr w')"
    "party_created (Suc k + n) s w'" "pw_table w' = pw_table w1"
    using Suc.IH[OF c(1) _ _ f(2)] by blast
  then show ?case using w1 c(2) less f(1) by simp
qed

lemma party_quit:
  "party_readLine (Suc f) tokens ids cl msg0 \<lparr>in_chars = ''quit'' @ CHR 0x0A # rest, in_good = True\<rparr> [] (w\<lparr>pw_bTerm := False\<rparr>) =
     Some (Inr (w\<lparr>pw_bTerm := True, pw_out := pw_out w @ ''> ''\<rparr>))"
  by (simp add: getline_def party_line_def)

text \<open>The monitor timer of a client that is not stopped always has a wait or a successful completion.\<close>

definition monitored :: "addr \<Rightarrow> party_process \<Rightarrow> bool" where
  "monitored a w \<longleftrightarrow> (\<exists>c. pw_clients w a = Some c \<and> \<not> pl_stopped c \<and> tm.scheduled (pl_monitorTmr c))"

lemma monitored_runs: "monitored a w \<Longrightarrow> party_thread_runs busy w a"
  by (auto simp: monitored_def party_thread_runs_def tm_work_def tm.scheduled_def tm_fired_def)

lemma monitored_on_client:
  assumes "monitored a w" and "on_client b f w = Inr w'"
    and "\<And>c c'. f c = Inr c' \<Longrightarrow> \<not> pl_stopped c \<Longrightarrow> tm.scheduled (pl_monitorTmr c) \<Longrightarrow>
      \<not> pl_stopped c' \<and> tm.scheduled (pl_monitorTmr c')"
  shows "monitored a w'"
  using assms by (auto simp: monitored_def on_client_def bind_res_eq_Inr split: option.splits if_splits)

lemma cbMonitor_scheduled:
  assumes "tm_ready (pl_monitorTmr c) = (h, ec) # rest" and "tm.scheduled (pl_monitorTmr c)"
  shows "tm.scheduled (pl_monitorTmr (cbMonitor ec (c\<lparr>pl_monitorTmr := (pl_monitorTmr c)\<lparr>tm_ready := rest\<rparr>\<rparr>)))"
proof (cases "ec = EcOk")
  case True
  then show ?thesis by (simp add: cbMonitor_def tm.scheduled_laws)
next
  case False
  then have "tm_fired (pl_monitorTmr c\<lparr>tm_ready := rest\<rparr>) = tm_fired (pl_monitorTmr c)"
    using assms(1) by (auto simp: tm_fired_def)
  then show ?thesis using False assms(2) by (simp add: cbMonitor_def tm.scheduled_def)
qed

lemma kept_fields [simp]:
  "pl_stopped (cbMonitor ec c) = pl_stopped c" "pl_stopped (call_session cs c) = pl_stopped c"
  "pl_monitorTmr (call_session cs c) = pl_monitorTmr c" "pl_stopped (cbTx ec h c) = pl_stopped c"
  "pl_monitorTmr (cbTx ec h c) = pl_monitorTmr c" "pl_stopped (set_msgTmr t c) = pl_stopped c"
  "pl_monitorTmr (set_msgTmr t c) = pl_monitorTmr c" "pl_stopped (startTmr c) = pl_stopped c"
  "pl_monitorTmr (startTmr c) = pl_monitorTmr c" "pl_stopped (party_write m c) = pl_stopped c"
  "pl_monitorTmr (party_write m c) = pl_monitorTmr c"
  by (simp_all add: cbMonitor_def call_session_def cbTx_def set_msgTmr_def startTmr_def party_write_def Let_def)

lemma monitored_step:
  assumes "monitored a w" and "client_event_step busy ids cl msg0 e w = Inr w'"
  shows "monitored a w'"
proof (cases "party_thread_runs busy w (client_event_at e)")
  case False
  then show ?thesis using assms by (simp add: client_event_step_def)
next
  case True
  then have x: "client_exec ids cl msg0 e w = Inr w'" using assms(2) by (simp add: client_event_step_def)
  show ?thesis
  proof (cases e)
    case (MonitorExpires b)
    then show ?thesis by (intro monitored_on_client[OF assms(1) x[unfolded MonitorExpires client_exec.simps]])
      (auto simp: tm.scheduled_laws)
  next
    case (MonitorRuns b)
    then show ?thesis by (intro monitored_on_client[OF assms(1) x[unfolded MonitorRuns client_exec.simps]])
      (auto simp: cbMonitor_scheduled split: list.splits)
  next
    case (DeadlineRuns b late)
    then show ?thesis by (intro monitored_on_client[OF assms(1) x[unfolded DeadlineRuns client_exec.simps]])
      (auto simp: cbDeadline_def bind_res_eq_Inr split: list.splits if_splits)
  next
    case (PartyRead b i m none gone)
    then show ?thesis by (intro monitored_on_client[OF assms(1) x[unfolded PartyRead client_exec.simps]])
      (auto simp: client_read_def Let_def split: if_splits)
  next
    case (PartyConnect b gone)
    then show ?thesis by (intro monitored_on_client[OF assms(1) x[unfolded PartyConnect client_exec.simps]])
      (auto simp: client_connect_def split: if_splits)
  next
    case (PartyError b gone)
    then show ?thesis using x assms(1) by (auto simp: client_error_def monitored_def split: if_splits)
  next
    case (TxExpires b)
    then show ?thesis by (intro monitored_on_client[OF assms(1) x[unfolded TxExpires client_exec.simps]]) auto
  next
    case (TxRuns b)
    then show ?thesis by (intro monitored_on_client[OF assms(1) x[unfolded TxRuns client_exec.simps]]) (auto split: list.splits)
  next
    case (DeadlineExpires b)
    then show ?thesis by (intro monitored_on_client[OF assms(1) x[unfolded DeadlineExpires client_exec.simps]]) auto
  qed
qed

subsection \<open>Concrete objects for the witnesses\<close>

definition sample_user :: "string \<Rightarrow> bytes res" where
  "sample_user i = (if i = ''a'' then Inr [0] else if i = ''b'' then Inr [1] else Inl BufferOverflow)"

definition sample_client_layout :: client_layout where
  "sample_client_layout = \<lparr>cl_mk_crteuser = (\<lambda>i p. sample_user i), cl_mk_crteparty = sample_user,
     cl_mk_join = (\<lambda>f t k. sample_user f), cl_mk_login = (\<lambda>i p. sample_user i),
     cl_mk_nf = (\<lambda>k s. if k = 0 then sample_user s else Inl BufferOverflow),
     cl_mk_fill = (\<lambda>k. Inr (replicate 64 0xAB)), cl_rd_party = (\<lambda>b. rd32 (b ! 0) (b ! 1) (b ! 2) (b ! 3)),
     cl_rd_reqjoin = (\<lambda>b. 0), cl_eco_size = 512, cl_pace = (\<lambda>s n k. 2)\<rparr>"

definition sample_client :: party_client where
  "sample_client = \<lparr>pl_id = ''a'', pl_partyId = 0,
     pl_session = \<lparr>qs_calls = [], qs_msg = sample_pmsg, qs_tx = 0, qs_rx = 0, qs_msgTmr = timer_new\<rparr>,
     pl_tx = 0, pl_rx = 0, pl_seq = 0, pl_bTx = False, pl_bRun = True, pl_monitorTmr = timer_new,
     pl_txTmr = timer_new, pl_stopped = False\<rparr>"

definition sample_process :: party_process where
  "sample_process = party_process_init\<lparr>pw_clients := [0 \<mapsto> sample_client], pw_alloc := 1, pw_vec := [0]\<rparr>"

lemma sample_client_new: "party_Client_new (\<lambda>h. True) sample_pmsg ''127.0.0.1'' ''a'' = Inr sample_client"
  by (simp add: party_Client_new_def sample_client_def)

lemma sample_process_fields:
  "pw_vec sample_process = [0]" "pw_clients sample_process 0 = Some sample_client" "pl_id sample_client = ''a''"
  "pl_partyId sample_client = 0" "pl_txTmr sample_client = timer_new"
  "qs_calls (pl_session sample_client) = []"
  by (simp_all add: sample_process_def sample_client_def)

subsection \<open>Properties\<close>

text \<open>
  C31. The transmit timer: from a new client on, whatever the console and the service do, at most one wait
  is outstanding on it; while sending is on, a wait is outstanding or a successful completion is on its way, so
  sending goes on; while it is off, no wait is outstanding, though completions may still be on their way.
\<close>

theorem transmit_timer_scheduled:
  assumes "party_Client_new parses msg0 host i = Inr c0" and "pace_reach c0 c"
  shows "length (tm_pending (pl_txTmr c)) \<le> 1 \<and>
    (if pl_bTx c then tm_pending (pl_txTmr c) \<noteq> [] \<or> (\<exists>h. (h, EcOk) \<in> set (tm_ready (pl_txTmr c)))
     else tm_pending (pl_txTmr c) = [])"
proof -
  have "pace_inv c0"
    using assms(1) by (auto simp: party_Client_new_def pace_inv_def timer_new_def split: if_splits)
  then show ?thesis
    using pace_reach_inv[OF assms(2)] by (auto simp: pace_inv_def tm.scheduled_def tm_fired_def split: if_splits)
qed

theorem transmit_timer_scheduled_witness:
  "length (tm_pending (pl_txTmr (startTx 3 (startTx 2 sample_client)))) \<le> 1 \<and>
   tm_pending (pl_txTmr (stopTx (startTx 3 (startTx 2 sample_client)))) = []"
proof -
  let ?c = "startTx 3 (startTx 2 sample_client)"
  have r: "pace_reach sample_client ?c" by (rule pace_next[OF pace_next[OF pace_here pace_start] pace_start])
  have s: "pace_reach sample_client (stopTx ?c)" by (rule pace_next[OF r pace_stop])
  have "\<not> pl_bTx (stopTx ?c)" by (simp add: stopTx_def)
  then show ?thesis
    using transmit_timer_scheduled[OF sample_client_new r] transmit_timer_scheduled[OF sample_client_new s]
    by simp
qed

text \<open>
  Sending at a pace: after \<open>start\<close> on an idle timer, \<open>n\<close> expiries make the client send exactly \<open>n\<close>
  times the count; after a \<open>stop\<close> then, neither the aborted completion nor anything after it sends.
\<close>

theorem ticks_send_count:
  assumes "pl_txTmr c = timer_new"
  shows "qs_calls (pl_session ((pace_tick ^^ n) (startTx count c))) =
      qs_calls (pl_session c) @ replicate (n * nat count) CallSendAgain \<and>
    (\<forall>j. qs_calls (pl_session ((pace_tick ^^ j) (stopTx ((pace_tick ^^ n) (startTx count c))))) =
      qs_calls (pl_session c) @ replicate (n * nat count) CallSendAgain)"
proof -
  let ?c = "(pace_tick ^^ n) (startTx count c)"
  have "waits_only count (startTx count c)"
    using assms by (simp add: waits_only_def startTx_def tm_arm_def tm_cancel_def timer_new_def Let_def)
  from pace_ticks[OF this, of n] have w: "waits_only count ?c"
    and q: "qs_calls (pl_session ?c) = qs_calls (pl_session c) @ replicate (n * nat count) CallSendAgain"
    by (simp_all add: startTx_def)
  have "\<exists>r. tm_ready (pl_txTmr ((pace_tick ^^ j) (stopTx ?c))) = r \<and> (\<forall>x \<in> set r. snd x = EcAborted) \<and>
      tm_pending (pl_txTmr ((pace_tick ^^ j) (stopTx ?c))) = [] \<and>
      qs_calls (pl_session ((pace_tick ^^ j) (stopTx ?c))) = qs_calls (pl_session ?c)" for j
  proof (induction j)
    case 0
    then show ?case using w by (simp add: waits_only_def stopTx_def tm_cancel_def)
  next
    case (Suc j)
    then show ?case
      by (auto simp: pace_tick_def tm_expire_def cbTx_def Let_def split: list.split)
  qed
  with q show ?thesis by simp
qed

theorem ticks_send_count_witness:
  "qs_calls (pl_session ((pace_tick ^^ 2) (startTx 2 sample_client))) =
     [CallSendAgain, CallSendAgain, CallSendAgain, CallSendAgain] \<and>
   qs_calls (pl_session ((pace_tick ^^ 5) (stopTx ((pace_tick ^^ 2) (startTx 2 sample_client))))) =
     [CallSendAgain, CallSendAgain, CallSendAgain, CallSendAgain]"
proof -
  have "replicate (2 * nat 2) CallSendAgain = [CallSendAgain, CallSendAgain, CallSendAgain, CallSendAgain]"
    by (simp add: numeral_eq_Suc)
  then show ?thesis
    using ticks_send_count[OF sample_process_fields(5), of 2 2] sample_process_fields(6) by simp
qed

text \<open>
  A start that comes while a completion of the previous pace is on its way is lost: that completion
  aborts the new wait and arms its own count again, so that all later expiries send the old count.
\<close>

theorem start_lost_to_completion:
  assumes "pl_txTmr c = \<lparr>tm_pending = [], tm_ready = [(old, EcOk)]\<rparr>" and "c1 = startTx new1 c"
    and "c2 = cbTx EcOk old (c1\<lparr>pl_txTmr := (pl_txTmr c1)\<lparr>tm_ready := []\<rparr>\<rparr>)"
  shows "pace_step c c1 \<and> pace_step c1 c2 \<and>
    qs_calls (pl_session ((pace_tick ^^ n) (pace_tick (pace_tick c2)))) =
      qs_calls (pl_session c) @ replicate ((n + 2) * nat old) CallSendAgain"
proof -
  have t1: "pl_txTmr c1 = \<lparr>tm_pending = [new1], tm_ready = [(old, EcOk)]\<rparr>" "pl_bTx c1"
    using assms(1,2) by (simp_all add: startTx_def tm_arm_def tm_cancel_def Let_def)
  then have steps: "pace_step c c1" "pace_step c1 c2"
    using pace_start[of c new1] pace_run[of c1 old EcOk "[]"] assms(2,3) by simp_all
  have t2: "pl_txTmr c2 = \<lparr>tm_pending = [old], tm_ready = [(new1, EcAborted)]\<rparr>" "pl_bTx c2"
    "qs_calls (pl_session c2) = qs_calls (pl_session c) @ replicate (nat old) CallSendAgain"
    using t1 assms(2,3) by (simp_all add: cbTx_def startTx_def tm_arm_def tm_cancel_def Let_def call_session_def)
  have t3: "pl_txTmr (pace_tick c2) = \<lparr>tm_pending = [], tm_ready = [(old, EcOk)]\<rparr>" "pl_bTx (pace_tick c2)"
    "qs_calls (pl_session (pace_tick c2)) = qs_calls (pl_session c2)"
    using t2(1,2) by (simp_all add: pace_tick_def tm_expire_def cbTx_def Let_def)
  then have t4: "waits_only old (pace_tick (pace_tick c2))"
    "qs_calls (pl_session (pace_tick (pace_tick c2))) =
       qs_calls (pl_session (pace_tick c2)) @ replicate (nat old) CallSendAgain"
    by (simp_all add: pace_tick_def waits_only_def tm_expire_def tm_arm_def tm_cancel_def cbTx_def Let_def
        call_session_def)
  then show ?thesis
    using pace_ticks[OF t4(1), of n] t2(3) t3(3) steps
    by (simp add: replicate_add[symmetric] algebra_simps)
qed

theorem start_lost_to_completion_witness:
  "\<exists>c1 c2. pace_step (sample_client\<lparr>pl_txTmr := \<lparr>tm_pending = [], tm_ready = [(1, EcOk)]\<rparr>\<rparr>) c1 \<and>
     pl_txTmr c1 = \<lparr>tm_pending = [7], tm_ready = [(1, EcOk)]\<rparr> \<and> pace_step c1 c2 \<and>
     qs_calls (pl_session ((pace_tick ^^ 1) (pace_tick (pace_tick c2)))) =
       [CallSendAgain, CallSendAgain, CallSendAgain]"
proof -
  define c where "c = sample_client\<lparr>pl_txTmr := \<lparr>tm_pending = [], tm_ready = [(1, EcOk)]\<rparr>\<rparr>"
  define c2 where "c2 = cbTx EcOk 1 ((startTx 7 c)\<lparr>pl_txTmr := (pl_txTmr (startTx 7 c))\<lparr>tm_ready := []\<rparr>\<rparr>)"
  have p: "pl_txTmr c = \<lparr>tm_pending = [], tm_ready = [(1, EcOk)]\<rparr>" "qs_calls (pl_session c) = []"
    by (simp_all add: c_def sample_client_def)
  have t: "pl_txTmr (startTx 7 c) = \<lparr>tm_pending = [7], tm_ready = [(1, EcOk)]\<rparr>"
    by (simp add: startTx_def tm_arm_def tm_cancel_def p Let_def)
  have "replicate ((1 + 2) * nat 1) CallSendAgain = [CallSendAgain, CallSendAgain, CallSendAgain]"
    by (simp add: numeral_eq_Suc)
  then show ?thesis
    using start_lost_to_completion[OF p(1) refl c2_def, of 1] t p(2) unfolding c_def[symmetric] by auto
qed

text \<open>
  The command \<open>send_eco n\<close> with clients in the vector goes wrong without an argument and exactly for
  numbers that are negative or above the capacity of the echo structure; otherwise every client of
  the vector sends a message with \<open>n\<close> bytes 0xAB.
\<close>

theorem send_eco_sends:
  assumes "distinct (pw_vec w)" and "pw_vec w \<noteq> []" and "\<forall>a \<in> set (pw_vec w). pw_clients w a \<noteq> None"
    and "cl_eco_size cl \<le> 1024" and "atoi arg = Inr n"
  shows "send_eco ids cl msg0 [cmd] w = Inl OutOfRange \<and>
    send_eco ids cl msg0 [cmd, arg] w =
      (if n < 0 \<or> int (cl_eco_size cl) < n then Inl BufferOverflow
       else Inr (True, for_clients (party_write (party_msg (ID_nf_Eco ids) NONE_CODE (replicate (nat n) 0xAB) msg0))
              (pw_vec w) (w\<lparr>g_txSize := n\<rparr>)))"
proof (cases "n < 0 \<or> int (cl_eco_size cl) < n")
  case True
  obtain a as c where v: "pw_vec w = a # as" "pw_clients w a = Some c"
    using assms(2,3) by (cases "pw_vec w") auto
  then have "send_eco_one ids cl msg0 a (w\<lparr>g_txSize := n\<rparr>) = Inl BufferOverflow"
    using eco_size[OF assms(5,4)] True by (simp add: send_eco_one_def on_client_def)
  then show ?thesis using assms(5) True v by (simp add: send_eco_def done_true_def)
next
  case False
  then show ?thesis
    using send_eco_fold[OF assms(1,3), of "w\<lparr>g_txSize := n\<rparr>" n cl ids msg0] assms(4,5) eco_size[OF assms(5,4)]
    by (simp add: send_eco_def done_true_def)
qed

theorem send_eco_sends_witness:
  "send_eco sample_ids sample_client_layout sample_pmsg [''send_eco'', ''-1''] sample_process = Inl BufferOverflow \<and>
   (\<exists>w'. send_eco sample_ids sample_client_layout sample_pmsg [''send_eco'', ''2''] sample_process = Inr (True, w') \<and>
      pw_clients w' 0 = Some (party_write (party_msg 11 NONE_CODE [0xAB, 0xAB] sample_pmsg) sample_client))"
proof -
  have a: "atoi ''-1'' = Inr (- 1)" "atoi ''2'' = Inr 2"
    by (simp_all add: atoi_def is_blank_def is_digit_def)
  have v: "distinct (pw_vec sample_process)" "pw_vec sample_process \<noteq> []"
      "\<forall>a \<in> set (pw_vec sample_process). pw_clients sample_process a \<noteq> None"
      "cl_eco_size sample_client_layout \<le> 1024" "cl_eco_size sample_client_layout = 512" "ID_nf_Eco sample_ids = 11"
    by (simp_all add: sample_process_fields sample_client_layout_def sample_ids_def)
  have r: "replicate (nat 2) (0xAB :: byte) = [0xAB, 0xAB]" by (simp add: numeral_eq_Suc)
  show ?thesis
    using send_eco_sends[OF v(1-4) a(1), of sample_ids sample_pmsg "''send_eco''"]
      send_eco_sends[OF v(1-4) a(2), of sample_ids sample_pmsg "''send_eco''"] v(5,6) r
    by (simp add: for_clients_def sample_process_fields)
qed



text \<open>
  C13. The party client never ends by itself. With \<open>n\<close> threads up to 32767, at least one, a second argument of at
  most 24 characters and a host that can be parsed, it creates \<open>n\<close> clients named after the argument and their
  position, each with a connection attempt and a monitor wait, and its console ends when the user quits; but whatever
  happens in the threads then, and whatever the sessions do, \<open>main\<close> does not return: each run of the monitor timer's
  handler arms the timer again, so the service of the first client never runs out of work and its thread is
  never joined. The only other outcome is a fault in a handler.
\<close>

theorem party_client_never_ends:
  assumes "\<not> co_help o1" and "\<not> co_version o1" and "co_threads o1 = Some (int n)" and "0 < n" and "n \<le> 32767"
    and "CHR 0x00 \<notin> set s" and "length s \<le> 24" and "n < fuel"
    and "parses (case co_remote o1 of Some h \<Rightarrow> h | None \<Rightarrow> ''127.0.0.1'')"
    and "inp = \<lparr>in_chars = ''quit'' @ CHR 0x0A # rest, in_good = True\<rparr>"
  shows "\<exists>w. party_client_console fuel parses tokens ids cl (Some s) inp msg0 (Some o1) = Some (Inr (0, Some w)) \<and>
    pw_vec w = [0..<n] \<and> pw_bTerm w \<and>
    (\<forall>a < n. fresh_client (s @ ''_'' @ to_string (int a)) (pw_clients w a)) \<and>
    party_client_main fuel parses tokens ids cl (Some s) inp msg0 busy [] (Some o1) = None \<and>
    (\<forall>es r. party_client_main fuel parses tokens ids cl (Some s) inp msg0 busy es (Some o1) \<noteq> Some (Inr r))"
proof -
  let ?w0 = "party_register_commands party_process_init"
  have "party_created 0 s ?w0"
    by (simp add: party_created_def party_register_commands_def party_process_init_def)
  from party_create_clients_run[where parses = parses, OF this assms(9,6,7), of 0 n "int n" fuel msg0] assms(5,8)
  obtain w1 where w1: "party_create_clients fuel parses (Some s)
      (case co_remote o1 of Some h \<Rightarrow> h | None \<Rightarrow> ''127.0.0.1'') (int n) msg0 0 ?w0 = Some (Inr w1)"
    "party_created n s w1" by auto
  obtain f where f: "fuel = Suc f" using assms(8) by (cases fuel) auto
  let ?w = "w1\<lparr>pw_bTerm := True, pw_out := pw_out w1 @ ''> ''\<rparr>"
  have console: "party_client_console fuel parses tokens ids cl (Some s) inp msg0 (Some o1) = Some (Inr (0, Some ?w))"
    using assms(1-3) w1(1)[unfolded f] party_quit[of f tokens ids cl msg0 rest w1] assms(10)
    by (simp add: party_client_console_def f del: party_readLine.simps party_create_clients.simps)
  have vec: "pw_vec ?w = 0 # [1..<n]" using w1(2) assms(4) by (simp add: party_created_def upt_conv_Cons)
  have first: "monitored 0 ?w" using w1(2) assms(4) by (auto simp: party_created_def fresh_client_def monitored_def tm.scheduled_def)
  have never: "join_threads (party_thread_runs busy) (client_event_step busy ids cl msg0) es (pw_vec ?w) ?w \<noteq> Some (Inr v)"
    for es v
    unfolding vec by (rule join_never[where P = "monitored 0", OF first]) (auto dest: monitored_step monitored_runs)
  then have "party_client_main fuel parses tokens ids cl (Some s) inp msg0 busy es (Some o1) \<noteq> Some (Inr r)" for es r
    by (auto simp: party_client_main_def console bind_res_eq_Inr)
  moreover have "party_client_main fuel parses tokens ids cl (Some s) inp msg0 busy [] (Some o1) = None"
    using monitored_runs[OF first, of busy] by (simp add: party_client_main_def console vec del: party_process.select_convs)
  ultimately show ?thesis using console w1(2) by (auto simp: party_created_def)
qed

theorem party_client_never_ends_witness:
  "\<exists>w. party_client_console 3 (\<lambda>h. True) (\<lambda>l. [l]) sample_ids sample_client_layout (Some ''u'')
      \<lparr>in_chars = ''quit'' @ CHR 0x0A # [], in_good = True\<rparr> sample_pmsg
      (Some \<lparr>co_help = False, co_version = False, co_remote = None, co_threads = Some 2\<rparr>) = Some (Inr (0, Some w)) \<and>
    pw_vec w = [0, 1] \<and> fresh_client ''u_1'' (pw_clients w 1) \<and>
    party_client_main 3 (\<lambda>h. True) (\<lambda>l. [l]) sample_ids sample_client_layout (Some ''u'')
      \<lparr>in_chars = ''quit'' @ CHR 0x0A # [], in_good = True\<rparr> sample_pmsg (\<lambda>q. False) []
      (Some \<lparr>co_help = False, co_version = False, co_remote = None, co_threads = Some 2\<rparr>) = None"
proof -
  have "to_string 1 = ''1''"
    by (simp add: to_string_def to_string_nat_def nat_digits.simps digit_char_def char_of_def bit_0)
  then show ?thesis
    using party_client_never_ends
      [of "\<lparr>co_help = False, co_version = False, co_remote = None, co_threads = Some 2\<rparr>" 2 "''u''" 3 "\<lambda>h. True"
        _ "[]" "\<lambda>l. [l]" sample_ids sample_client_layout sample_pmsg "\<lambda>q. False", OF _ _ _ _ _ _ _ _ _ refl]
    by (fastforce simp: upt_rec eval_nat_numeral)
qed

end
