(* ===== verification/Party_Stack.thy ===== *)
theory Party_Stack
  imports Legacy_Session Party_Handler
begin

text \<open>
  The party server put together: \<open>ServerHandler\<close> of \<open>server/HandleMsg.cpp\<close> on the older session and
  server of \<open>Src/TcpSession.cpp\<close> and \<open>Src/TcpServer.h\<close>. One state holds the server, the session
  objects and the handler's world; the handler reads the session's own message buffer and reports to
  the server's counters and registry.
\<close>

subsection \<open>The handler on the server's state\<close>

record 'r party_server = legacy_server +
  pv_party :: "'r party_world"

text \<open>
  What the handler sees: the sessions with their own buffers and the server's counters; and what it
  leaves behind: calls of \<open>asyncSend\<close>, additions to the counters and deletions. The handler's model records these
  calls; here they are carried out, each call of \<open>asyncSend(Msg&)\<close> by \<open>lg_asyncSend_msg\<close> on the session it names.
\<close>

definition merge_inbox :: "legacy_session option \<Rightarrow> party_session option \<Rightarrow> party_session option" where
  "merge_inbox so po = (case so of None \<Rightarrow> po | Some s \<Rightarrow> map_option (\<lambda>ps. ps\<lparr>ps_msg := lg_msg s\<rparr>) po)"

definition handler_view :: "'r party_server \<Rightarrow> 'r party_world" where
  "handler_view v = (pv_party v)\<lparr>p_rx := lv_rx v, p_tx := lv_tx v,
     p_sessions := (\<lambda>a. merge_inbox (lg_heap v a) (p_sessions (pv_party v) a))\<rparr>"

definition hand_over :: "'r party_world \<Rightarrow> 'r party_server \<Rightarrow> 'r party_server" where
  "hand_over p v = v\<lparr>lg_heap := (\<lambda>a. map_option
     (fold lg_asyncSend_msg (drop (length (sent_to (pv_party v) a)) (sent_to p a))) (lg_heap v a))\<rparr>"

definition handler_store :: "'r party_world \<Rightarrow> 'r party_server \<Rightarrow> 'r party_server res" where
  "handler_store p v =
     fold_res lv_deleteSession (drop (length (p_deleted (pv_party v))) (p_deleted p))
       (lv_addRx (p_rx p - lv_rx v) (lv_addTx (p_tx p - lv_tx v) ((hand_over p v)\<lparr>pv_party := p\<rparr>)))"

definition on_party ::
  "('r party_world \<Rightarrow> (bool \<times> 'r party_world) res) \<Rightarrow> 'r party_server \<Rightarrow> (bool \<times> 'r party_server) res" where
  "on_party f v = bind_res (f (handler_view v)) (\<lambda>(ok, p). bind_res (handler_store p v) (\<lambda>v1. Inr (ok, v1)))"

definition server_handler ::
  "party_ids \<Rightarrow> body_layout \<Rightarrow> 'r room_api \<Rightarrow> Msg \<Rightarrow> 'r party_server SessionHandler" where
  "server_handler ids lay api msg0 =
     \<lparr>sh_read = (\<lambda>i len a ow. on_party (handler_read ids lay api msg0 i len a (ow = None))),
      sh_error = (\<lambda>ec a ow. on_party (handler_error api ec a (ow = None))),
      sh_connect = (\<lambda>a ow. on_party (handler_connect a))\<rparr>"


subsection \<open>Events\<close>

text \<open>
  What the network does to the server: a connection arrives with a new session object; a whole
  message arrives; a header arrives that is refused; a header arrives and its body does not; a read
  fails between two messages. The last argument of \<open>Arrives\<close> is the content of the uninitialised
  \<open>Msg\<close> objects of the handler.
\<close>

datatype party_event =
    Accepted addr legacy_session
  | Arrives addr Msg Msg
  | Refused addr Msg
  | Breaks addr Msg error_code
  | Fails addr error_code

definition server_event ::
  "party_ids \<Rightarrow> body_layout \<Rightarrow> 'r room_api \<Rightarrow> (legacy_session \<Rightarrow> legacy_session) \<Rightarrow> party_event
     \<Rightarrow> 'r party_server \<Rightarrow> 'r party_server res" where
  "server_event ids lay api session_start0 e v = (case e of
       Accepted a s \<Rightarrow>
         if lg_heap v a \<noteq> None then Inr v
         else lv_handleAccept session_start0 a EcOk
                ((put_lg a s v)\<lparr>pv_party := (pv_party v)\<lparr>p_sessions :=
                   (p_sessions (pv_party v))(a \<mapsto> \<lparr>ps_msg = lg_msg s, ps_id = [], ps_sent = []\<rparr>)\<rparr>\<rparr>)
     | Arrives a m msg0 \<Rightarrow> lg_arrive (server_handler ids lay api msg0) a m v
     | Refused a m \<Rightarrow> lg_complete_read (server_handler ids lay api m) a EcOk (header_bytes (msg_hdr m)) v
     | Breaks a m ec \<Rightarrow>
         bind_res (lg_complete_read (server_handler ids lay api m) a EcOk (header_bytes (msg_hdr m)) v)
           (lg_complete_read (server_handler ids lay api m) a ec [])
     | Fails a ec \<Rightarrow> lg_complete_read (server_handler ids lay api blank_message) a ec [] v)"

text \<open>
  The same events as the handler's interface has them: one call per message, on the world alone. A
  session that was deleted gets no further calls.
\<close>

definition set_inbox :: "addr \<Rightarrow> Msg \<Rightarrow> 'r party_world \<Rightarrow> 'r party_world" where
  "set_inbox a m w = w\<lparr>p_sessions := (p_sessions w)(a := map_option (\<lambda>s. s\<lparr>ps_msg := m\<rparr>) (p_sessions w a))\<rparr>"

definition take_header :: "Msg \<Rightarrow> Msg \<Rightarrow> Msg" where
  "take_header m buf = buf\<lparr>msg_hdr := msg_hdr m\<rparr>"

definition take_message :: "Msg \<Rightarrow> Msg \<Rightarrow> Msg" where
  "take_message m buf = buf\<lparr>msg_hdr := msg_hdr m,
     msg_body := overlay 0 (take (nat (msg_bodyLength m)) (msg_body m)) (msg_body buf)\<rparr>"

definition world_call ::
  "addr \<Rightarrow> (party_session \<Rightarrow> 'r party_world res) \<Rightarrow> 'r party_world \<Rightarrow> 'r party_world res" where
  "world_call a f w = with_ps a (\<lambda>s. if a \<in> set (p_deleted w) then Inr w else f s) w"

definition world_event ::
  "party_ids \<Rightarrow> body_layout \<Rightarrow> 'r room_api \<Rightarrow> party_event \<Rightarrow> 'r party_world \<Rightarrow> 'r party_world res" where
  "world_event ids lay api e w = (case e of
       Accepted a s \<Rightarrow>
         Inr (if p_sessions w a \<noteq> None then w
              else w\<lparr>p_sessions := (p_sessions w)(a \<mapsto> \<lparr>ps_msg = lg_msg s, ps_id = [], ps_sent = []\<rparr>)\<rparr>)
     | Arrives a m msg0 \<Rightarrow> world_call a (\<lambda>s. drop_flag
         (handler_read ids lay api msg0 (hdr_msgId (msg_hdr m)) (hdr_bodyLength (msg_hdr m)) a False
            (set_inbox a (take_message m (ps_msg s)) w))) w
     | Refused a m \<Rightarrow> world_call a (\<lambda>s. Inr (set_inbox a (take_header m (ps_msg s)) w)) w
     | Breaks a m ec \<Rightarrow> world_call a (\<lambda>s. drop_flag
         (handler_error api ec a False (set_inbox a (take_header m (ps_msg s)) w))) w
     | Fails a ec \<Rightarrow> world_call a (\<lambda>s. drop_flag (handler_error api ec a False w)) w)"

text \<open>
  A new session object has nothing outstanding; a message that arrives passes the header check with
  a length that is not negative, one that is refused does not; errors are errors.
\<close>

fun event_ok :: "party_event \<Rightarrow> bool" where
  "event_ok (Accepted a s) \<longleftrightarrow> lg_reading s = [] \<and> lg_writing s = [] \<and> lg_sendQue s = []"
| "event_ok (Arrives a m msg0) \<longleftrightarrow> checkHeader m \<and> 0 \<le> msg_bodyLength m \<and> wf_msg m"
| "event_ok (Refused a m) \<longleftrightarrow> \<not> checkHeader m"
| "event_ok (Breaks a m ec) \<longleftrightarrow> checkHeader m \<and> 0 \<le> msg_bodyLength m \<and> ec \<noteq> EcOk"
| "event_ok (Fails a ec) \<longleftrightarrow> ec \<noteq> EcOk"

text \<open>
  The assumption on \<open>start\<close> of the older session, which is not in the repository: it posts nothing and leaves the
  message, the owner and the queue alone. The \<open>start\<close> functions of \<open>UdpSession\<close> and \<open>IpcSession\<close>, after which a server
  also calls \<open>asyncRead\<close>, are of this kind; the \<open>TcpSession::start\<close> of today, which reads itself, is not, and is
  called from other code.
\<close>

definition quiet_start :: "(legacy_session \<Rightarrow> legacy_session) \<Rightarrow> bool" where
  "quiet_start session_start0 \<longleftrightarrow> (\<forall>s. lg_reading (session_start0 s) = lg_reading s \<and>
     lg_msg (session_start0 s) = lg_msg s \<and> lg_owner (session_start0 s) = lg_owner s \<and>
     lg_writing (session_start0 s) = lg_writing s \<and> lg_sendQue (session_start0 s) = lg_sendQue s)"

subsection \<open>What the handler leaves alone\<close>

definition same_inboxes :: "'r party_world \<Rightarrow> 'r party_world \<Rightarrow> bool" where
  "same_inboxes w w' \<longleftrightarrow> p_deleted w' = p_deleted w \<and>
     (\<forall>a. map_option ps_msg (p_sessions w' a) = map_option ps_msg (p_sessions w a))"

lemma same_inboxes_refl [simp]: "same_inboxes w w"
  by (simp add: same_inboxes_def)

lemma same_inboxes_trans: "same_inboxes u v \<Longrightarrow> same_inboxes v w \<Longrightarrow> same_inboxes u w"
  by (simp add: same_inboxes_def)

lemma same_inboxes_fields [simp]:
  "same_inboxes w (w'\<lparr>p_tx := n\<rparr>) = same_inboxes w w'" "same_inboxes w (w'\<lparr>p_rooms := rs\<rparr>) = same_inboxes w w'"
  "same_inboxes (w\<lparr>p_rx := n\<rparr>) w' = same_inboxes w w'" "same_inboxes (w\<lparr>p_rooms := rs\<rparr>) w' = same_inboxes w w'"
  by (simp_all add: same_inboxes_def)

lemma asyncSend_inboxes: "asyncSend a m w = Inr w' \<Longrightarrow> same_inboxes w w'"
  by (auto simp: asyncSend_def with_ps_eq_Inr same_inboxes_def)

lemma respond_inboxes: "respond i result msg0 rtn a w = Inr (b, w') \<Longrightarrow> same_inboxes w w'"
  by (auto simp: respond_def bind_res_eq_Inr dest: asyncSend_inboxes)

lemma login_inboxes: "login ids lay msg0 a w = Inr (b, w') \<Longrightarrow> same_inboxes w w'"
  by (auto simp: login_def with_ps_eq_Inr Let_def dest!: respond_inboxes split: option.splits)
    (auto simp: same_inboxes_def)

lemma createParty_inboxes:
  assumes "createParty ids lay api msg0 a w = Inr (b, w')"
  shows "same_inboxes w w'"
proof -
  obtain s where "p_sessions w a = Some s" using assms by (auto simp: createParty_def with_ps_eq_Inr)
  then show ?thesis
    using assms
    by (auto simp: createParty_def bind_res_eq_Inr Let_def
        dest!: respond_inboxes asyncSend_inboxes set_room_unchanged split: option.splits if_splits)
      (auto simp: same_inboxes_def)
qed

lemma join_answers_inboxes: "join_answers ids lay body target msg0 a w = Inr (b, w') \<Longrightarrow> same_inboxes w w'"
  by (auto simp: join_answers_def bind_res_eq_Inr dest!: asyncSend_inboxes intro: same_inboxes_trans)

lemma joinUser_inboxes:
  assumes "joinUser ids lay api msg0 a w = Inr (b, w')"
  shows "same_inboxes w w'"
proof -
  obtain s where "p_sessions w a = Some s" using assms by (auto simp: joinUser_def with_ps_eq_Inr)
  then show ?thesis
    using assms
    by (auto simp: joinUser_def bind_res_eq_Inr Let_def
        dest!: respond_inboxes join_answers_inboxes set_room_unchanged split: option.splits if_splits prod.splits)
qed

lemma party_nfMessage_inboxes:
  assumes "party_nfMessage ids lay api msg0 a w = Inr (b, w')"
  shows "same_inboxes w w'"
proof -
  have one: "same_inboxes u v" if "party_send ids lay api room txt1 msg0 i u = Inr v" for room txt1 i u v
    using that by (auto simp: party_send_def bind_res_eq_Inr dest: asyncSend_inboxes split: option.splits)
  have "same_inboxes w v" if "fold_res (party_send ids lay api room txt1 msg0) xs w = Inr v" for room txt1 xs v
    by (rule fold_res_invariant[where P = "same_inboxes w", OF _ _ that]) (auto intro: same_inboxes_trans one)
  moreover obtain s where "p_sessions w a = Some s" using assms by (auto simp: party_nfMessage_def with_ps_eq_Inr)
  ultimately show ?thesis
    using assms by (auto simp: party_nfMessage_def bind_res_eq_Inr Let_def split: option.splits)
qed

lemma nfEco_inboxes: "nfEco ids lay msg0 a len w = Inr (b, w') \<Longrightarrow> same_inboxes w w'"
  by (auto simp: nfEco_def with_ps_eq_Inr bind_res_eq_Inr Let_def dest!: asyncSend_inboxes split: if_splits)

lemma handler_read_inboxes: "handler_read ids lay api msg0 i len a gone w = Inr (b, w') \<Longrightarrow> same_inboxes w w'"
  by (auto simp: handler_read_def with_ps_eq_Inr Let_def createUser_def
      dest!: respond_inboxes login_inboxes createParty_inboxes joinUser_inboxes party_nfMessage_inboxes nfEco_inboxes
      split: if_splits) (auto simp: same_inboxes_def)

lemma leave_room_inboxes: "same_inboxes w (leave_room api c ch w)"
  by (auto simp: leave_room_def same_inboxes_def Let_def split: option.splits)

lemma handler_error_inboxes:
  assumes "handler_error api ec a False w = Inr (b, w')" and "ec \<noteq> EcOk"
  shows "p_deleted w' = p_deleted w @ [a] \<and> p_rx w' = p_rx w \<and> p_tx w' = p_tx w \<and>
    (\<forall>d. map_option ps_msg (p_sessions w' d) = map_option ps_msg (p_sessions w d))"
proof -
  have lr: "p_rx (leave_room api c ch w) = p_rx w" "p_tx (leave_room api c ch w) = p_tx w" for c ch
    by (auto simp: leave_room_def Let_def split: option.splits)
  show ?thesis
    using assms leave_room_inboxes[of w api]
    by (auto simp: handler_error_def with_ps_eq_Inr bind_res_eq_Inr same_inboxes_def Let_def lr
        split: if_splits option.splits)
qed


subsection \<open>The simulation\<close>

text \<open>
  The handler's sessions are the server's; one that was not deleted is registered and waits for one
  header, a deleted one waits for nothing; and nothing is queued or being written.
\<close>

definition stack_session :: "'r party_world \<Rightarrow> addr set \<Rightarrow> addr \<Rightarrow> legacy_session \<Rightarrow> bool" where
  "stack_session p reg a s \<longleftrightarrow> lg_owner s \<noteq> None \<and> lg_writing s = [] \<and> lg_sendQue s = [] \<and>
     lg_reading s = (if a \<in> set (p_deleted p) then [] else [LgHeader]) \<and>
     (a \<in> reg \<longleftrightarrow> a \<notin> set (p_deleted p))"

definition stack_inv :: "'r party_server \<Rightarrow> bool" where
  "stack_inv v \<longleftrightarrow> set (p_deleted (pv_party v)) \<subseteq> dom (lg_heap v) \<and>
     dom (p_sessions (pv_party v)) = dom (lg_heap v) \<and>
     (\<forall>a s. lg_heap v a = Some s \<longrightarrow> stack_session (pv_party v) (lv_sessions v) a s)"

lemma set_inbox_fields [simp]:
  "p_rx (set_inbox a m w) = p_rx w" "p_tx (set_inbox a m w) = p_tx w" "p_deleted (set_inbox a m w) = p_deleted w"
  "map_option ps_msg (p_sessions (set_inbox a m w) b) =
     (if b = a \<and> p_sessions w a \<noteq> None then Some m else map_option ps_msg (p_sessions w b))"
  "dom (p_sessions (set_inbox a m w)) = dom (p_sessions w)"
  by (auto simp: set_inbox_def split: if_splits)

lemma handler_view_fields [simp]:
  "p_rx (handler_view v) = lv_rx v" "p_tx (handler_view v) = lv_tx v"
  "p_deleted (handler_view v) = p_deleted (pv_party v)"
  "dom (p_sessions (handler_view v)) = dom (p_sessions (pv_party v))"
  by (auto simp: handler_view_def merge_inbox_def split: option.splits)

lemma handler_view_session:
  assumes "stack_inv v"
  shows "map_option ps_msg (p_sessions (handler_view v) a) = map_option lg_msg (lg_heap v a)"
proof -
  have "a \<in> dom (p_sessions (pv_party v)) \<longleftrightarrow> a \<in> dom (lg_heap v)" using assms by (simp add: stack_inv_def)
  then show ?thesis by (auto simp: handler_view_def merge_inbox_def split: option.splits)
qed

lemma put_lg_fields [simp]: "pv_party (put_lg a s v) = pv_party v" "lv_rx (put_lg a s v) = lv_rx v"
  "lv_tx (put_lg a s v) = lv_tx v" "lv_sessions (put_lg a s v) = lv_sessions v"
  by (simp_all add: put_lg_def)

lemma handler_view_put: "handler_view (put_lg a s v) = set_inbox a (lg_msg s) (handler_view v)"
  by (auto simp: handler_view_def merge_inbox_def set_inbox_def fun_eq_iff option.map_comp o_def split: option.splits
      intro!: option.map_cong)

lemma handler_view_stored:
  assumes "pv_party v = p" and "lv_rx v = p_rx p" and "lv_tx v = p_tx p"
    and "\<forall>b. map_option ps_msg (p_sessions p b) = map_option lg_msg (lg_heap v b)"
  shows "handler_view v = p"
proof -
  have "merge_inbox (lg_heap v b) (p_sessions p b) = p_sessions p b" for b
    using assms(4)[rule_format, of b] by (auto simp: merge_inbox_def split: option.splits)
  then show ?thesis using assms(1-3) by (simp add: handler_view_def)
qed

text \<open>A call that deletes nothing, and one that deletes the session itself.\<close>

lemma hand_over_nothing [simp]: "hand_over p v = v"
proof -
  have "fold lg_asyncSend_msg ms = id" for ms by (induction ms) (simp_all add: fun_eq_iff lg_asyncSend_msg_def)
  then show ?thesis by (simp add: hand_over_def option.map_id)
qed

lemma handler_store_read:
  "p_deleted p = p_deleted (pv_party v) \<Longrightarrow>
     handler_store p v = Inr (v\<lparr>lv_rx := p_rx p, lv_tx := p_tx p, pv_party := p\<rparr>)"
  by (simp add: handler_store_def lv_addRx_def lv_addTx_def)

lemma handler_store_error:
  assumes "p_deleted p = p_deleted (pv_party v) @ [a]" and "lg_heap v a = Some s"
  shows "handler_store p v = Inr ((put_lg a (s\<lparr>lg_open := False\<rparr>) v)
    \<lparr>lv_sessions := lv_sessions v - {a}, lv_rx := p_rx p, lv_tx := p_tx p, pv_party := p\<rparr>)"
  using assms by (simp add: handler_store_def lv_addRx_def lv_addTx_def lv_deleteSession_def put_lg_def)

text \<open>The invariant after a change of one session and of the world.\<close>

lemma stack_inv_update:
  assumes "stack_inv v" and "dom (p_sessions p) = insert a (dom (p_sessions (pv_party v)))"
    and "set (p_deleted p) \<subseteq> insert a (set (p_deleted (pv_party v)))"
    and "\<forall>b. b \<noteq> a \<longrightarrow> (b \<in> set (p_deleted p) \<longleftrightarrow> b \<in> set (p_deleted (pv_party v))) \<and> (b \<in> reg \<longleftrightarrow> b \<in> lv_sessions v)"
    and "stack_session p reg a s"
  shows "stack_inv ((put_lg a s v)\<lparr>lv_sessions := reg, lv_rx := rx, lv_tx := tx, pv_party := p\<rparr>)"
proof -
  have "stack_session p reg b t" if "lg_heap v b = Some t" "b \<noteq> a" for b t
  proof -
    have "stack_session (pv_party v) (lv_sessions v) b t" using assms(1) that(1) by (simp add: stack_inv_def)
    then show ?thesis using assms(4) that(2) by (simp add: stack_session_def)
  qed
  moreover have "set (p_deleted (pv_party v)) \<subseteq> dom (lg_heap v)" "dom (p_sessions (pv_party v)) = dom (lg_heap v)"
    using assms(1) by (simp_all add: stack_inv_def)
  ultimately show ?thesis
    using assms(2,3,5) by (auto simp: stack_inv_def put_lg_def)
qed

definition simulates :: "'r party_server res \<Rightarrow> 'r party_world res \<Rightarrow> bool" where
  "simulates r q \<longleftrightarrow> (case r of Inl e \<Rightarrow> q = Inl e | Inr v \<Rightarrow> q = Inr (handler_view v) \<and> stack_inv v)"

lemma simulates_Inr [simp]: "simulates (Inr v) q \<longleftrightarrow> q = Inr (handler_view v) \<and> stack_inv v"
  by (simp add: simulates_def)

lemma simulates_Inl [simp]: "simulates (Inl e) q \<longleftrightarrow> q = Inl e"
  by (simp add: simulates_def)

lemma same_dom: "\<forall>a. map_option f (g a) = map_option f (h a) \<Longrightarrow> dom g = dom h"
  by (auto simp: dom_def) (metis map_option_is_None not_None_eq)+

lemma view_None: "stack_inv v \<Longrightarrow> lg_heap v a = None \<longleftrightarrow> p_sessions (handler_view v) a = None"
  using handler_view_session[of v a] by (metis map_option_is_None)

lemma accepting_irrelevant [simp]:
  "handler_view (v\<lparr>lv_accepting := n\<rparr>) = handler_view v" "stack_inv (v\<lparr>lv_accepting := n\<rparr>) = stack_inv v"
  by (simp_all add: handler_view_def stack_inv_def)

text \<open>A session that does not exist faults, one that was deleted ignores the event.\<close>

lemma complete_read_away:
  assumes "stack_inv v" and "lg_heap v a = None \<or> a \<in> set (p_deleted (pv_party v))"
  shows "lg_complete_read h a ec data v = (if lg_heap v a = None then Inl NullDeref else Inr v)"
    and "world_call a f (handler_view v) = (if lg_heap v a = None then Inl NullDeref else Inr (handler_view v))"
proof -
  have "lg_reading s = []" if "lg_heap v a = Some s" for s
    using assms that by (auto simp: stack_inv_def stack_session_def)
  then show "lg_complete_read h a ec data v = (if lg_heap v a = None then Inl NullDeref else Inr v)"
    by (auto simp: lg_complete_read_def with_lg_def split: option.splits)
  show "world_call a f (handler_view v) = (if lg_heap v a = None then Inl NullDeref else Inr (handler_view v))"
    using assms view_None[OF assms(1), of a]
    by (auto simp: world_call_def with_ps_def split: option.splits)
qed

lemma sim_Accepted:
  assumes "stack_inv v" and "quiet_start session_start0" and "event_ok (Accepted a s)"
  shows "simulates (server_event ids lay api session_start0 (Accepted a s) v)
    (world_event ids lay api (Accepted a s) (handler_view v))"
proof (cases "lg_heap v a")
  case None
  define ps where "ps = \<lparr>ps_msg = lg_msg s, ps_id = [], ps_sent = []\<rparr>"
  define p where "p = (pv_party v)\<lparr>p_sessions := (p_sessions (pv_party v))(a \<mapsto> ps)\<rparr>"
  define s' where "s' = lg_asyncRead (session_start0 (s\<lparr>lg_owner := Some (lv_self v)\<rparr>))"
  let ?v1 = "(put_lg a s' v)\<lparr>lv_sessions := insert a (lv_sessions v), lv_rx := lv_rx v, lv_tx := lv_tx v, pv_party := p\<rparr>"
  have away: "a \<notin> set (p_deleted (pv_party v))" using assms(1) None by (auto simp: stack_inv_def)
  have "lv_self (put_lg a s v) = lv_self v" by (simp add: put_lg_def)
  then have run: "server_event ids lay api session_start0 (Accepted a s) v =
      Inr (?v1\<lparr>lv_accepting := lv_accepting v + 1\<rparr>)"
    using None by (simp add: server_event_def lv_handleAccept_def s'_def p_def ps_def put_lg_def)
  have inv: "stack_inv ?v1"
    using assms away
    by (intro stack_inv_update)
      (auto simp: p_def s'_def stack_session_def stack_inv_def quiet_start_def lg_asyncRead_def)
  have "lg_msg s' = lg_msg s" using assms(2) by (simp add: s'_def quiet_start_def lg_asyncRead_def)
  then have "handler_view ?v1 = (handler_view v)\<lparr>p_sessions := (p_sessions (handler_view v))(a \<mapsto> ps)\<rparr>"
    by (auto simp: handler_view_def p_def ps_def merge_inbox_def fun_eq_iff)
  then show ?thesis
    using run inv None view_None[OF assms(1), of a] by (simp add: world_event_def ps_def)
next
  case (Some t)
  then show ?thesis
    using view_None[OF assms(1), of a] assms(1) by (auto simp: server_event_def world_event_def)
qed


lemma stack_inv_alive:
  assumes "stack_inv v" and "lg_heap v a = Some s" and "a \<notin> set (p_deleted (pv_party v))"
  shows "lg_reading s = [LgHeader]" "lg_owner s \<noteq> None" "lg_writing s = []" "lg_sendQue s = []"
    "a \<in> lv_sessions v" "p_sessions (pv_party v) a \<noteq> None"
proof -
  show "lg_reading s = [LgHeader]" "lg_owner s \<noteq> None" "lg_writing s = []" "lg_sendQue s = []" "a \<in> lv_sessions v"
    using assms by (auto simp: stack_inv_def stack_session_def)
  have "a \<in> dom (p_sessions (pv_party v))" using assms by (auto simp: stack_inv_def)
  then show "p_sessions (pv_party v) a \<noteq> None" by auto
qed

lemma world_call_alive:
  assumes "stack_inv v" and "lg_heap v a = Some s" and "a \<notin> set (p_deleted (pv_party v))"
  obtains ps where "ps_msg ps = lg_msg s" "\<And>f. world_call a f (handler_view v) = f ps"
  using handler_view_session[OF assms(1), of a] assms(2,3) by (auto simp: world_call_def)

text \<open>A header completes a read: the next one is for its body, or for another header.\<close>

lemma header_read:
  assumes "lg_heap v a = Some s" and "lg_reading s = [LgHeader]"
  shows "lg_complete_read h a EcOk (header_bytes (msg_hdr m)) v =
    Inr (put_lg a (s\<lparr>lg_msg := take_header m (lg_msg s), lg_reading :=
      (if checkHeader m then [LgBody (unat (word_of_int (msg_bodyLength m) :: 64 word))
         (hdr_msgId (msg_hdr m)) (hdr_bodyLength (msg_hdr m))] else [LgHeader])\<rparr>) v)"
proof -
  have "checkHeader (take_header m buf) = checkHeader m" "msg_bodyLength (take_header m buf) = msg_bodyLength m" for buf
    by (simp_all add: take_header_def checkHeader_iff msg_bodyLength_def)
  then show ?thesis
    using assms by (simp add: lg_complete_read_def deposit_header lg_handleReadHeader_def lg_asyncRead_def take_header_def)
qed

lemma sim_Refused:
  assumes "stack_inv v" and "event_ok (Refused a m)"
  shows "simulates (server_event ids lay api session_start0 (Refused a m) v)
    (world_event ids lay api (Refused a m) (handler_view v))"
proof (cases "lg_heap v a = None \<or> a \<in> set (p_deleted (pv_party v))")
  case True
  then show ?thesis using complete_read_away[OF assms(1) True] assms(1) by (simp add: server_event_def world_event_def)
next
  case False
  then obtain s where s: "lg_heap v a = Some s" and alive: "a \<notin> set (p_deleted (pv_party v))" by auto
  note al = stack_inv_alive[OF assms(1) s alive]
  obtain ps where ps: "ps_msg ps = lg_msg s" "\<And>f. world_call a f (handler_view v) = f ps"
    by (rule world_call_alive[OF assms(1) s alive]) blast
  define s' where "s' = s\<lparr>lg_msg := take_header m (lg_msg s), lg_reading := [LgHeader]\<rparr>"
  have run: "server_event ids lay api session_start0 (Refused a m) v = Inr (put_lg a s' v)"
    using header_read[OF s al(1)] assms(2) by (simp add: server_event_def s'_def)
  have "stack_inv ((put_lg a s' v)\<lparr>lv_sessions := lv_sessions v, lv_rx := lv_rx v, lv_tx := lv_tx v,
      pv_party := pv_party v\<rparr>)"
    by (rule stack_inv_update[OF assms(1)]) (use al alive in \<open>auto simp: stack_session_def s'_def\<close>)
  moreover have "(put_lg a s' v)\<lparr>lv_sessions := lv_sessions v, lv_rx := lv_rx v, lv_tx := lv_tx v,
      pv_party := pv_party v\<rparr> = put_lg a s' v" by (simp add: put_lg_def)
  ultimately have "stack_inv (put_lg a s' v)" by simp
  then show ?thesis using run ps by (simp add: world_event_def handler_view_put s'_def)
qed

text \<open>The handler's \<open>error\<close> deletes the session it is called for.\<close>

lemma sim_error:
  assumes "stack_inv v" and "lg_heap v a = Some s" and "a \<notin> set (p_deleted (pv_party v))"
    and "ec \<noteq> EcOk" and "s' = s\<lparr>lg_msg := m, lg_reading := []\<rparr>"
  shows "simulates (drop_flag (sh_error (server_handler ids lay api msg0) ec a (lg_owner s) (put_lg a s' v)))
    (drop_flag (handler_error api ec a False (set_inbox a m (handler_view v))))"
proof -
  note al = stack_inv_alive[OF assms(1-3)]
  let ?w = "set_inbox a m (handler_view v)"
  have call: "sh_error (server_handler ids lay api msg0) ec a (lg_owner s) (put_lg a s' v) =
      bind_res (handler_error api ec a False ?w) (\<lambda>(ok, p). bind_res (handler_store p (put_lg a s' v)) (\<lambda>v1. Inr (ok, v1)))"
    using al(2) assms(5) by (auto simp: server_handler_def on_party_def handler_view_put)
  show ?thesis
  proof (cases "handler_error api ec a False ?w")
    case (Inl e)
    then show ?thesis by (simp add: call drop_flag_def)
  next
    case (Inr r)
    then obtain ok p where r: "handler_error api ec a False ?w = Inr (ok, p)" by (cases r) auto
    note f = handler_error_inboxes[OF r assms(4)]
    let ?v = "(put_lg a (s'\<lparr>lg_open := False\<rparr>) v)\<lparr>lv_sessions := lv_sessions v - {a}, lv_rx := p_rx p, lv_tx := p_tx p,
      pv_party := p\<rparr>"
    have st: "handler_store p (put_lg a s' v) = Inr ?v"
      using handler_store_error[of p "put_lg a s' v" a s'] f by simp
    have dom: "dom (p_sessions p) = dom (p_sessions ?w)" using f by (intro same_dom) blast
    have "stack_inv ?v"
      by (rule stack_inv_update[OF assms(1)])
        (use al f dom in \<open>auto simp: stack_session_def assms(5)\<close>)
    moreover have "handler_view ?v = p"
      using f handler_view_session[OF assms(1)] view_None[OF assms(1), of a] assms(2)
      by (intro handler_view_stored) (auto simp: assms(5))
    ultimately show ?thesis using r by (simp add: call drop_flag_def st)
  qed
qed


lemma sim_Fails:
  assumes "stack_inv v" and "event_ok (Fails a ec)"
  shows "simulates (server_event ids lay api session_start0 (Fails a ec) v)
    (world_event ids lay api (Fails a ec) (handler_view v))"
proof (cases "lg_heap v a = None \<or> a \<in> set (p_deleted (pv_party v))")
  case True
  then show ?thesis using complete_read_away[OF assms(1) True] assms(1) by (simp add: server_event_def world_event_def)
next
  case False
  then obtain s where s: "lg_heap v a = Some s" and alive: "a \<notin> set (p_deleted (pv_party v))" by auto
  note al = stack_inv_alive[OF assms(1) s alive]
  obtain ps where ps: "ps_msg ps = lg_msg s" "\<And>f. world_call a f (handler_view v) = f ps"
    by (rule world_call_alive[OF assms(1) s alive]) blast
  have same: "set_inbox a (lg_msg s) (handler_view v) = handler_view v"
    using s handler_view_put[of a s v] by (simp add: put_lg_def fun_upd_idem)
  have "server_event ids lay api session_start0 (Fails a ec) v = drop_flag (sh_error
      (server_handler ids lay api blank_message) ec a (lg_owner s) (put_lg a (s\<lparr>lg_msg := lg_msg s, lg_reading := []\<rparr>) v))"
    using s al assms(2)
    by (simp add: server_event_def lg_complete_read_def deposit_def lg_handleReadHeader_def)
  then show ?thesis
    using sim_error[OF assms(1) s alive _ refl, where ec = ec and m = "lg_msg s" and ids = ids and lay = lay and api = api]
      assms(2) ps same
    by (simp add: world_event_def)
qed

lemma sim_Breaks:
  assumes "stack_inv v" and "event_ok (Breaks a m ec)"
  shows "simulates (server_event ids lay api session_start0 (Breaks a m ec) v)
    (world_event ids lay api (Breaks a m ec) (handler_view v))"
proof (cases "lg_heap v a = None \<or> a \<in> set (p_deleted (pv_party v))")
  case True
  then show ?thesis using complete_read_away[OF assms(1) True] assms(1) by (simp add: server_event_def world_event_def)
next
  case False
  then obtain s where s: "lg_heap v a = Some s" and alive: "a \<notin> set (p_deleted (pv_party v))" by auto
  note al = stack_inv_alive[OF assms(1) s alive]
  obtain ps where ps: "ps_msg ps = lg_msg s" "\<And>f. world_call a f (handler_view v) = f ps"
    by (rule world_call_alive[OF assms(1) s alive]) blast
  have "server_event ids lay api session_start0 (Breaks a m ec) v = drop_flag (sh_error (server_handler ids lay api m) ec a
      (lg_owner s) (put_lg a (s\<lparr>lg_msg := take_header m (lg_msg s), lg_reading := []\<rparr>) v))"
    using header_read[OF s al(1)] assms(2)
    by (simp add: server_event_def lg_complete_read_def deposit_def lg_handleReadBody_def)
  then show ?thesis
    using sim_error[OF assms(1) s alive _ refl, where ec = ec and m = "take_header m (lg_msg s)" and ids = ids and
        lay = lay and api = api] assms(2) ps
    by (simp add: world_event_def)
qed

lemma sim_Arrives:
  assumes "stack_inv v" and "event_ok (Arrives a m msg0)"
  shows "simulates (server_event ids lay api session_start0 (Arrives a m msg0) v)
    (world_event ids lay api (Arrives a m msg0) (handler_view v))"
proof (cases "lg_heap v a = None \<or> a \<in> set (p_deleted (pv_party v))")
  case True
  then show ?thesis
    using complete_read_away[OF assms(1) True] assms(1) by (simp add: server_event_def lg_arrive_def world_event_def)
next
  case False
  then obtain s where s: "lg_heap v a = Some s" and alive: "a \<notin> set (p_deleted (pv_party v))" by auto
  note al = stack_inv_alive[OF assms(1) s alive]
  obtain ps where ps: "ps_msg ps = lg_msg s" "\<And>f. world_call a f (handler_view v) = f ps"
    by (rule world_call_alive[OF assms(1) s alive]) blast
  define s' where "s' = s\<lparr>lg_msg := take_message m (lg_msg s), lg_reading := [],
    lg_rx := lg_rx s + word_of_int (msg_length m)\<rparr>"
  define call where "call = handler_read ids lay api msg0 (hdr_msgId (msg_hdr m)) (hdr_bodyLength (msg_hdr m)) a False
    (set_inbox a (take_message m (lg_msg s)) (handler_view v))"
  have arr: "lg_arrive (server_handler ids lay api msg0) a m v = lg_message (server_handler ids lay api msg0) a m v"
    using lg_arrive_message[OF s al(1), of m] assms(2) by simp
  have sh: "sh_read (server_handler ids lay api msg0) i n a (lg_owner s) = on_party (handler_read ids lay api msg0 i n a False)"
    for i n using al(2) by (auto simp: server_handler_def)
  have run: "server_event ids lay api session_start0 (Arrives a m msg0) v =
      bind_res (drop_flag (bind_res call (\<lambda>(ok, p). bind_res (handler_store p (put_lg a s' v)) (\<lambda>v1. Inr (ok, v1)))))
        (\<lambda>w1. with_lg a (\<lambda>s1. Inr (put_lg a (lg_asyncRead s1) w1)) w1)"
    by (simp add: server_event_def arr lg_message_def s s'_def call_def take_message_def sh on_party_def handler_view_put)
  have spec: "world_event ids lay api (Arrives a m msg0) (handler_view v) = drop_flag call"
    using ps by (simp add: world_event_def call_def)
  show ?thesis
  proof (cases call)
    case (Inl e)
    then show ?thesis by (simp add: run spec drop_flag_def)
  next
    case (Inr r)
    then obtain ok p where r: "call = Inr (ok, p)" by (cases r) auto
    have f: "p_deleted p = p_deleted (pv_party v)"
      "\<forall>b. map_option ps_msg (p_sessions p b) =
        map_option ps_msg (p_sessions (set_inbox a (take_message m (lg_msg s)) (handler_view v)) b)"
      using handler_read_inboxes[OF r[unfolded call_def]] by (simp_all add: same_inboxes_def)
    let ?v = "(put_lg a (lg_asyncRead s') v)\<lparr>lv_sessions := lv_sessions v, lv_rx := p_rx p, lv_tx := p_tx p, pv_party := p\<rparr>"
    have st: "handler_store p (put_lg a s' v) = Inr ((put_lg a s' v)\<lparr>lv_rx := p_rx p, lv_tx := p_tx p, pv_party := p\<rparr>)"
      using handler_store_read[of p "put_lg a s' v"] f(1) by simp
    have fin: "server_event ids lay api session_start0 (Arrives a m msg0) v = Inr ?v"
      by (simp add: run r st drop_flag_def) (simp add: put_lg_def with_lg_def)
    have dom: "dom (p_sessions p) = dom (p_sessions (pv_party v))" using same_dom[OF f(2)] by simp
    have "stack_inv ?v"
      by (rule stack_inv_update[OF assms(1)])
        (use al f(1) dom alive in \<open>auto simp: stack_session_def s'_def lg_asyncRead_def\<close>)
    moreover have "handler_view ?v = p"
      using f(2) handler_view_session[OF assms(1)] view_None[OF assms(1), of a] s
      by (intro handler_view_stored) (auto simp: s'_def lg_asyncRead_def)
    ultimately show ?thesis by (simp add: fin spec r drop_flag_def)
  qed
qed

lemma sim_event:
  assumes "stack_inv v" and "quiet_start session_start0" and "event_ok e"
  shows "simulates (server_event ids lay api session_start0 e v) (world_event ids lay api e (handler_view v))"
proof (cases e)
  case (Accepted a s)
  then show ?thesis using sim_Accepted[OF assms(1,2)] assms(3) by blast
next
  case (Arrives a m msg0)
  then show ?thesis using sim_Arrives[OF assms(1)] assms(3) by blast
next
  case (Refused a m)
  then show ?thesis using sim_Refused[OF assms(1)] assms(3) by blast
next
  case (Breaks a m ec)
  then show ?thesis using sim_Breaks[OF assms(1)] assms(3) by blast
next
  case (Fails a ec)
  then show ?thesis using sim_Fails[OF assms(1)] assms(3) by blast
qed

lemma sim_events:
  assumes "stack_inv v" and "quiet_start session_start0" and "list_all event_ok es"
  shows "simulates (fold_res (server_event ids lay api session_start0) es v)
    (fold_res (world_event ids lay api) es (handler_view v))"
  using assms(1,3)
proof (induction es arbitrary: v)
  case Nil
  then show ?case by simp
next
  case (Cons e es)
  have step: "simulates (server_event ids lay api session_start0 e v) (world_event ids lay api e (handler_view v))"
    using Cons.prems assms(2) by (intro sim_event) simp_all
  show ?case
    using step Cons.IH Cons.prems(2) by (cases "server_event ids lay api session_start0 e v") auto
qed


text \<open>The events of the world are steps of the handler.\<close>

lemma set_inbox_step:
  assumes "p_sessions w a = Some s"
  shows "party_step ids lay api w (set_inbox a m w)"
  using step_receive[OF assms, of ids lay api m] assms by (simp add: set_inbox_def)

lemma world_event_reach:
  assumes "world_event ids lay api e w = Inr w'"
  shows "party_reach ids lay api w w'"
proof -
  have call: "w' = w \<or> (\<exists>s. p_sessions w a = Some s \<and> f s = Inr w')" if "world_call a f w = Inr w'" for a f
    using that by (auto simp: world_call_def with_ps_eq_Inr split: if_splits)
  have two: "party_reach ids lay api w w'" if "party_step ids lay api w v" "party_step ids lay api v w'" for v
    using that by (blast intro: party_reach.intros)
  show ?thesis
  proof (cases e)
    case (Accepted a s)
    then show ?thesis
      using assms step_accept[of w a ids lay api "lg_msg s"]
      by (auto simp: world_event_def intro: party_reach.intros split: if_splits)
  next
    case (Arrives a m msg0)
    then show ?thesis
      using assms
      by (auto simp: world_event_def drop_flag_def bind_res_eq_Inr
          dest!: call intro: two[OF set_inbox_step step_read] reach_start)
  next
    case (Refused a m)
    then show ?thesis
      using assms by (auto simp: world_event_def dest!: call intro: reach_next[OF reach_start set_inbox_step] reach_start)
  next
    case (Breaks a m ec)
    then show ?thesis
      using assms
      by (auto simp: world_event_def drop_flag_def bind_res_eq_Inr
          dest!: call intro: two[OF set_inbox_step step_error] reach_start)
  next
    case (Fails a ec)
    then show ?thesis
      using assms
      by (auto simp: world_event_def drop_flag_def bind_res_eq_Inr
          dest!: call intro: reach_next[OF reach_start step_error] reach_start)
  qed
qed

lemma party_reach_trans: "party_reach ids lay api v w \<Longrightarrow> party_reach ids lay api u v \<Longrightarrow> party_reach ids lay api u w"
  by (induction rule: party_reach.induct) (blast intro: party_reach.intros)+

lemma world_events_reach: "fold_res (world_event ids lay api) es w = Inr w' \<Longrightarrow> party_reach ids lay api w w'"
  by (induction es arbitrary: w)
    (auto simp: bind_res_eq_Inr intro: reach_start party_reach_trans dest: world_event_reach)

definition party_server_new :: "addr \<Rightarrow> 'r party_server" where
  "party_server_new self = legacy_server.extend (TcpServer_legacy_new self) (party_server.fields party_init)"

lemma party_server_new_ok: "stack_inv (party_server_new self)" "handler_view (party_server_new self) = party_init"
  by (simp_all add: party_server_new_def TcpServer_legacy_new_def legacy_server.defs party_server.defs
      stack_inv_def handler_view_def party_init_def merge_inbox_def)

subsection \<open>Properties\<close>

text \<open>
  C11. The party server implements the handler's interface. For any sequence of connections, whole
  messages, refused headers, broken messages and failures on any sessions, delivered as the reads of
  the older session ask for bytes, the server run faults exactly when calling the handler once per
  message or failure faults, in the same way; otherwise the world the handler sees is the one those calls
  produce, so it is a reachable world of the handler; and a session is registered exactly while it waits for a
  header, one read at a time.
\<close>

theorem party_server_refines_calls:
  assumes "quiet_start session_start0" and "list_all event_ok es"
  shows "(case fold_res (server_event ids lay api session_start0) es (party_server_new self) of
      Inl e \<Rightarrow> fold_res (world_event ids lay api) es party_init = Inl e
    | Inr v \<Rightarrow> fold_res (world_event ids lay api) es party_init = Inr (handler_view v) \<and>
        party_reach ids lay api party_init (handler_view v) \<and>
        (\<forall>a s. lg_heap v a = Some s \<longrightarrow> lg_reading s = (if a \<in> lv_sessions v then [LgHeader] else [])))"
proof -
  have sim: "simulates (fold_res (server_event ids lay api session_start0) es (party_server_new self))
      (fold_res (world_event ids lay api) es party_init)"
    using sim_events[OF party_server_new_ok(1) assms, of ids lay api self] by (simp add: party_server_new_ok(2))
  show ?thesis
    using sim world_events_reach[of ids lay api es party_init]
    by (auto simp: simulates_def stack_inv_def stack_session_def split: sum.splits)
qed

text \<open>
  C18. No answer of the party server leaves it: whatever arrives on its sessions, no session ever has
  anything queued or being written, because the \<open>asyncSend\<close> that the handler calls is the overload with
  an empty body.
\<close>

theorem party_server_never_writes:
  assumes "quiet_start session_start0" and "list_all event_ok es"
    and "fold_res (server_event ids lay api session_start0) es (party_server_new self) = Inr v"
    and "lg_heap v a = Some s"
  shows "lg_writing s = [] \<and> lg_sendQue s = []"
proof -
  have "stack_inv v"
    using sim_events[OF party_server_new_ok(1) assms(1,2), of ids lay api self] assms(3) by simp
  then show ?thesis using assms(4) by (simp add: stack_inv_def stack_session_def)
qed


subsection \<open>The properties on a small run\<close>

text \<open>A user connects, logs in as \<open>a\<close> and goes.\<close>

definition sample_fresh :: legacy_session where
  "sample_fresh = \<lparr>lg_open = True, lg_msg = sample_pmsg, lg_sendMsg = sample_pmsg, lg_sendQue = [], lg_owner = None,
     lg_rx = 0, lg_reading = [], lg_writing = [], lg_connecting = 0\<rparr>"

definition sample_login :: Msg where
  "sample_login = sample_pmsg\<lparr>msg_hdr := (msg_hdr sample_pmsg)\<lparr>hdr_msgId := 3\<rparr>\<rparr>"

definition sample_run :: "party_event list" where
  "sample_run = [Accepted 0 sample_fresh, Arrives 0 sample_login sample_pmsg]"

definition sample_in :: "(int \<times> addr list) party_world" where
  "sample_in = party_init\<lparr>p_rx := 8, p_chars := [0 \<mapsto> Character_new ''a'' ''a'' 0], p_alloc := 1,
     g_characters := [''a'' \<mapsto> 0],
     p_sessions := [0 \<mapsto> \<lparr>ps_msg = sample_login, ps_id = ''a'', ps_sent = [party_msg 4 LOGIN_SUCCESS [] sample_pmsg]\<rparr>]\<rparr>"

lemma sample_run_ok: "list_all event_ok sample_run" "list_all event_ok (sample_run @ [Fails 0 EcEof])" "quiet_start (\<lambda>s. s)"
  by (simp_all add: sample_run_def sample_fresh_def sample_login_def sample_pmsg_def checkHeader_iff msg_bodyLength_def
      wf_msg_def quiet_start_def)

lemma sample_run_world: "fold_res (world_event sample_ids sample_layout sample_rooms) sample_run party_init = Inr sample_in"
proof -
  have m: "take_message sample_login sample_pmsg = sample_login"
    by (simp add: take_message_def sample_login_def sample_pmsg_def msg_bodyLength_def overlay_def)
  have n: "msg_length sample_login = 8" "sample_name (msg_body sample_login) = ''a''"
    "hdr_msgId (msg_hdr sample_login) = 3"
    by (simp_all add: sample_login_def sample_pmsg_def msg_length_def sample_name_def)
  show ?thesis
    by (simp add: sample_run_def world_event_def sample_fresh_def world_call_def drop_flag_def set_inbox_def m n
        handler_read_def login_def respond_eq Let_def add_sent_def party_init_def sample_in_def
        sample_ids_def sample_layout_def)
qed


lemma sample_run_gone:
  "\<exists>w. fold_res (world_event sample_ids sample_layout sample_rooms) (sample_run @ [Fails 0 EcEof]) party_init = Inr w \<and>
     g_characters w ''a'' = None \<and> p_deleted w = [0]"
  by (simp add: fold_res_append sample_run_world)
    (simp add: world_event_def world_call_def drop_flag_def handler_error_def
      leave_room_def lock_room_def sample_in_def Character_new_def party_init_def)

theorem party_server_refines_calls_witness:
  "\<exists>v. fold_res (server_event sample_ids sample_layout sample_rooms (\<lambda>s. s)) (sample_run @ [Fails 0 EcEof])
       (party_server_new 7) = Inr v \<and> g_characters (handler_view v) ''a'' = None \<and>
     (\<forall>a s. lg_heap v a = Some s \<longrightarrow> lg_reading s = (if a \<in> lv_sessions v then [LgHeader] else []))"
  using party_server_refines_calls[OF sample_run_ok(3,2), of sample_ids sample_layout sample_rooms 7] sample_run_gone
  by (auto split: sum.splits)

theorem party_server_never_writes_witness:
  "\<exists>v s. fold_res (server_event sample_ids sample_layout sample_rooms (\<lambda>s. s)) sample_run (party_server_new 7) = Inr v \<and>
     lg_heap v 0 = Some s \<and> sent_to (handler_view v) 0 \<noteq> [] \<and> lg_writing s = [] \<and> lg_sendQue s = []"
proof -
  let ?run = "fold_res (server_event sample_ids sample_layout sample_rooms (\<lambda>s. s)) sample_run (party_server_new 7)"
  have sim: "simulates ?run (Inr sample_in)"
    using sim_events[OF party_server_new_ok(1) sample_run_ok(3,1), of sample_ids sample_layout sample_rooms 7]
    by (simp add: party_server_new_ok(2) sample_run_world)
  then obtain v where v: "?run = Inr v" "handler_view v = sample_in" "stack_inv v"
    by (cases ?run) auto
  have "p_sessions (handler_view v) 0 \<noteq> None" by (simp add: v(2) sample_in_def)
  then obtain s where s: "lg_heap v 0 = Some s" using view_None[OF v(3), of 0] by auto
  have "sent_to (handler_view v) 0 \<noteq> []" by (simp add: v(2) sample_in_def sent_to_def)
  then show ?thesis
    using party_server_never_writes[OF sample_run_ok(3,1) v(1) s] v(1) s by blast
qed

end
