(* ===== verification/Rooms.thy ===== *)
theory Rooms
  imports Chat_Server Party_Handler
begin

text \<open>
  Rooms and characters. \<open>chat_server/Room.h\<close> and \<open>server/Room.h\<close> declare the same class, as do the two
  \<open>Character.h\<close> (the one in \<open>server\<close> has two more fields that nothing reads); their operations are
  stubs. The operations the party handler calls are those in the comment of \<open>server/Room.cpp\<close>. They index
  \<open>m_characters\<close> below \<open>MAX_CHARACTER\<close>, which the class as it is declares as a set: here it is the array of
  \<open>MAX_CHARACTER\<close> shared pointers they presuppose, null at first. The accessors that go with them are no longer in
  the repository; \<open>setId\<close>, \<open>id\<close> and \<open>cnt\<close> are taken to write and read their field. The handler calls the
  constructor with the owner only; the one constructor there is also takes the number, which \<open>setId\<close> sets next.
\<close>

subsection \<open>Room and Character as they are\<close>

definition Room_new :: "addr \<Rightarrow> int \<Rightarrow> Room" where
  "Room_new master i = \<lparr>room_characters = {}, room_master = master, room_cnt = 1, room_id = i\<rparr>"

definition Room_attach :: "addr \<Rightarrow> Room \<Rightarrow> bool \<times> Room" where
  "Room_attach c r = (True, r)"

definition Room_dettach :: "addr \<Rightarrow> Room \<Rightarrow> bool \<times> Room" where
  "Room_dettach c r = (True, r)"

definition Room_getId :: "Room \<Rightarrow> int" where
  "Room_getId r = room_id r"

definition Room_getCount :: "Room \<Rightarrow> int" where
  "Room_getCount r = room_cnt r"

definition chat_Character_new :: "string \<Rightarrow> string \<Rightarrow> addr \<Rightarrow> Character" where
  "chat_Character_new i name sess = \<lparr>chr_id = i, chr_name = name, chr_session = sess, chr_room = None\<rparr>"

definition chat_Character_setRoom :: "addr \<Rightarrow> Character \<Rightarrow> bool \<times> Character" where
  "chat_Character_setRoom room c = (True, c)"

definition Character_leaveRoom :: "Character \<Rightarrow> Character" where
  "Character_leaveRoom c = c"

definition Character_update :: "Character \<Rightarrow> Character" where
  "Character_update c = c"

text \<open>The \<open>setRoom\<close> in the comment: \<open>lock\<close> tells whether the room of the weak pointer is alive.\<close>

definition setRoom_older :: "(addr \<Rightarrow> bool) \<Rightarrow> addr \<Rightarrow> Character \<Rightarrow> bool \<times> Character" where
  "setRoom_older lock room c =
     (case chr_room c of
        Some r \<Rightarrow> if lock r then (False, c) else (True, c\<lparr>chr_room := Some room\<rparr>)
      | None \<Rightarrow> (True, c\<lparr>chr_room := Some room\<rparr>))"

subsection \<open>The older room\<close>

definition MAX_CHARACTER :: nat where
  "MAX_CHARACTER = 8"

record older_room =
  or_characters :: "addr option list"
  or_cnt :: int
  or_id :: int

definition Room_setCharacter :: "addr \<Rightarrow> older_room \<Rightarrow> (bool \<times> older_room) res" where
  "Room_setCharacter c r =
     (if or_cnt r \<ge> int MAX_CHARACTER then Inr (False, r)
      else if or_cnt r < 0 \<or> nat (or_cnt r) \<ge> length (or_characters r) then Inl OutOfRange
      else Inr (True, r\<lparr>or_characters := (or_characters r)[nat (or_cnt r) := Some c], or_cnt := or_cnt r + 1\<rparr>))"

text \<open>\<open>None\<close> for the answer false; otherwise the pointer in the slot, which may be null.\<close>

definition Room_getCharacter :: "int \<Rightarrow> older_room \<Rightarrow> addr option option res" where
  "Room_getCharacter idx r =
     (if idx \<ge> or_cnt r \<or> idx \<ge> int MAX_CHARACTER then Inr None
      else if idx < 0 \<or> nat idx \<ge> length (or_characters r) then Inl OutOfRange
      else Inr (Some (or_characters r ! nat idx)))"

text \<open>The loop of \<open>leave\<close> resets a copy of the pointer and counts down.\<close>

function leave_from :: "addr \<Rightarrow> int \<Rightarrow> older_room \<Rightarrow> older_room res" where
  "leave_from c i r =
     (if i < or_cnt r then
        (if i < 0 \<or> nat i \<ge> length (or_characters r) then Inl OutOfRange
         else leave_from c (i + 1)
           (if or_characters r ! nat i = Some c then r\<lparr>or_cnt := or_cnt r - 1\<rparr> else r))
      else Inr r)"
  by pat_completeness auto
termination by (relation "measure (\<lambda>(c, i, r). nat (or_cnt r - i))") auto

definition Room_leave :: "addr \<Rightarrow> older_room \<Rightarrow> older_room res" where
  "Room_leave c r = leave_from c 0 r"

declare leave_from.simps [simp del]

subsection \<open>A room as the list of its members\<close>

definition room_ok :: "older_room \<Rightarrow> bool" where
  "room_ok r \<longleftrightarrow> length (or_characters r) = MAX_CHARACTER \<and> 0 \<le> or_cnt r \<and> or_cnt r \<le> int MAX_CHARACTER \<and>
     None \<notin> set (take (nat (or_cnt r)) (or_characters r))"

definition members :: "older_room \<Rightarrow> addr list" where
  "members r = map the (take (nat (or_cnt r)) (or_characters r))"

lemma members_length: "room_ok r \<Longrightarrow> int (length (members r)) = or_cnt r"
  by (auto simp: room_ok_def members_def min_def)

lemma members_nth:
  assumes "room_ok r" and "i < length (members r)"
  shows "or_characters r ! i = Some (members r ! i)"
proof -
  let ?xs = "take (nat (or_cnt r)) (or_characters r)"
  have i: "i < length ?xs" using assms by (simp add: members_def)
  then have "?xs ! i \<noteq> None" using assms(1) nth_mem[OF i] by (metis room_ok_def)
  then show ?thesis using i by (simp add: members_def)
qed

lemma members_shrink:
  assumes "room_ok r" and "0 \<le> n" and "n \<le> or_cnt r"
  shows "room_ok (r\<lparr>or_cnt := n\<rparr>)" "members (r\<lparr>or_cnt := n\<rparr>) = take (nat n) (members r)"
proof -
  have "take (nat n) (or_characters r) = take (nat n) (take (nat (or_cnt r)) (or_characters r))"
    using assms(2,3) by (simp add: min_def)
  then have "set (take (nat n) (or_characters r)) \<subseteq> set (take (nat (or_cnt r)) (or_characters r))"
    by (metis set_take_subset)
  then show "room_ok (r\<lparr>or_cnt := n\<rparr>)" using assms by (auto simp: room_ok_def)
  show "members (r\<lparr>or_cnt := n\<rparr>) = take (nat n) (members r)"
    using assms(2,3) by (simp add: members_def take_map min_def)
qed

lemma setCharacter_members:
  assumes "room_ok r"
  shows "\<exists>r'. Room_setCharacter c r = Inr (length (members r) < MAX_CHARACTER, r') \<and> room_ok r' \<and>
    members r' = (if length (members r) < MAX_CHARACTER then members r @ [c] else members r)"
proof (cases "or_cnt r \<ge> int MAX_CHARACTER")
  case True
  then show ?thesis using assms members_length[OF assms] by (simp add: Room_setCharacter_def)
next
  case False
  let ?n = "nat (or_cnt r)"
  let ?r = "r\<lparr>or_characters := (or_characters r)[?n := Some c], or_cnt := or_cnt r + 1\<rparr>"
  have n: "?n < length (or_characters r)" "nat (or_cnt r + 1) = Suc ?n"
    using False assms by (auto simp: room_ok_def)
  have "take (Suc ?n) ((or_characters r)[?n := Some c]) = take ?n (or_characters r) @ [Some c]"
    using n(1) by (simp add: take_Suc_conv_app_nth)
  then have "room_ok ?r \<and> members ?r = members r @ [c]"
    using False assms n by (auto simp: room_ok_def members_def)
  then show ?thesis
    using False assms members_length[OF assms] n(1) by (auto simp: Room_setCharacter_def room_ok_def)
qed

lemma getCharacter_members:
  assumes "room_ok r" and "0 \<le> i"
  shows "Room_getCharacter i r =
    Inr (if i < int (length (members r)) then Some (Some (members r ! nat i)) else None)"
proof -
  have "i < or_cnt r \<longrightarrow> i < int MAX_CHARACTER \<and> nat i < length (or_characters r)"
    using assms by (auto simp: room_ok_def)
  then show ?thesis
    using assms members_length[OF assms(1)] members_nth[OF assms(1), of "nat i"] by (auto simp: Room_getCharacter_def)
qed

text \<open>
  What leaving does from slot \<open>i\<close> on: only the count changes, it falls when the character is found, and
  by one when it is there once.
\<close>

lemma leave_from_members:
  assumes "room_ok r" and "0 \<le> i"
  shows "\<exists>n. leave_from c i r = Inr (r\<lparr>or_cnt := n\<rparr>) \<and> 0 \<le> n \<and> n \<le> or_cnt r \<and>
    (c \<notin> set (drop (nat i) (members r)) \<longrightarrow> n = or_cnt r) \<and>
    (c \<in> set (drop (nat i) (members r)) \<longrightarrow> n < or_cnt r) \<and>
    (distinct (members r) \<longrightarrow> or_cnt r - 1 \<le> n)"
  using assms
proof (induction c i r rule: leave_from.induct)
  case (1 c i r)
  let ?ms = "members r"
  have len: "int (length ?ms) = or_cnt r" using members_length[OF "1.prems"(1)] .
  show ?case
  proof (cases "i < or_cnt r")
    case False
    then have "drop (nat i) ?ms = []" using len "1.prems"(2) by simp
    then show ?thesis
      using False "1.prems"(1) by (intro exI[of _ "or_cnt r"]) (simp add: leave_from.simps[of c i r] room_ok_def)
  next
    case True
    then have i: "nat i < length ?ms" "nat (i + 1) = Suc (nat i)" using len "1.prems"(2) by auto
    have slot: "or_characters r ! nat i = Some (?ms ! nat i)" using members_nth[OF "1.prems"(1) i(1)] .
    have range: "\<not> (i < 0 \<or> nat i \<ge> length (or_characters r))"
      using "1.prems" True by (auto simp: room_ok_def)
    have dr: "drop (nat i) ?ms = ?ms ! nat i # drop (nat (i + 1)) ?ms" using i by (simp add: Cons_nth_drop_Suc)
    show ?thesis
    proof (cases "?ms ! nat i = c")
      case False
      then have "leave_from c i r = leave_from c (i + 1) r"
        using True range slot by (simp add: leave_from.simps[of c i r])
      then show ?thesis
        using "1.IH"[OF True range] False "1.prems" slot dr by auto
    next
      case found: True
      let ?r1 = "r\<lparr>or_cnt := or_cnt r - 1\<rparr>"
      have "nat (or_cnt r - 1) = length ?ms - 1" using len by linarith
      then have r1: "room_ok ?r1" "members ?r1 = butlast ?ms"
        using members_shrink[OF "1.prems"(1), of "or_cnt r - 1"] True "1.prems"(2)
        by (simp_all add: butlast_conv_take)
      have "leave_from c i r = leave_from c (i + 1) ?r1"
        using True range slot found by (simp add: leave_from.simps[of c i r])
      moreover obtain n where n: "leave_from c (i + 1) ?r1 = Inr (?r1\<lparr>or_cnt := n\<rparr>)" "0 \<le> n" "n \<le> or_cnt r - 1"
          "c \<notin> set (drop (nat (i + 1)) (butlast ?ms)) \<longrightarrow> n = or_cnt r - 1"
        using "1.IH"[OF True range] found "1.prems"(2) slot r1 by auto
      moreover have "c \<notin> set (drop (nat (i + 1)) (butlast ?ms))" if "distinct ?ms"
      proof -
        have "c \<notin> set (drop (nat (i + 1)) ?ms)"
          using distinct_drop[OF that, of "nat i"] dr found by simp
        then show ?thesis by (metis butlast_drop in_set_butlastD)
      qed
      ultimately show ?thesis using dr found by (intro exI[of _ n]) auto
    qed
  qed
qed

lemma leave_members:
  assumes "room_ok r"
  shows "\<exists>r'. Room_leave c r = Inr r' \<and> room_ok r' \<and> set (members r') \<subseteq> set (members r) \<and>
    (c \<notin> set (members r) \<longrightarrow> r' = r) \<and>
    (c \<in> set (members r) \<longrightarrow> length (members r') < length (members r)) \<and>
    (c \<in> set (members r) \<longrightarrow> distinct (members r) \<longrightarrow> members r' = butlast (members r))"
proof -
  obtain n where n: "Room_leave c r = Inr (r\<lparr>or_cnt := n\<rparr>)" "0 \<le> n" "n \<le> or_cnt r"
    "c \<notin> set (members r) \<longrightarrow> n = or_cnt r" "c \<in> set (members r) \<longrightarrow> n < or_cnt r"
    "distinct (members r) \<longrightarrow> or_cnt r - 1 \<le> n"
    using leave_from_members[OF assms, of 0 c] by (auto simp: Room_leave_def)
  note sh = members_shrink[OF assms n(2,3)]
  have len: "int (length (members r)) = or_cnt r" using members_length[OF assms] .
  have "members (r\<lparr>or_cnt := n\<rparr>) = butlast (members r)" if "c \<in> set (members r)" "distinct (members r)"
  proof -
    have "nat n = length (members r) - 1" using n(5,6) that len by linarith
    then show ?thesis using sh(2) by (simp add: butlast_conv_take)
  qed
  moreover have "length (members (r\<lparr>or_cnt := n\<rparr>)) < length (members r)" if "c \<in> set (members r)"
    using that n(2,5) len sh(2) by simp
  ultimately show ?thesis
    using n(1,4) sh by (intro exI[of _ "r\<lparr>or_cnt := n\<rparr>"]) (auto dest: in_set_takeD)
qed

subsection \<open>What the party handler relies on\<close>

text \<open>
  The contract between the handler and a room: good rooms stay good, and a room has no members but
  those put into it.
\<close>

locale room_contract =
  fixes api :: "'r room_api"
    and good :: "'r \<Rightarrow> bool"
    and mem :: "'r \<Rightarrow> addr set"
  assumes contract_new: "good (ra_setId api k (ra_new api c)) \<and> mem (ra_setId api k (ra_new api c)) \<subseteq> {c}"
    and contract_set: "good r \<Longrightarrow> good (snd (ra_setCharacter api c r)) \<and> mem (snd (ra_setCharacter api c r)) \<subseteq> insert c (mem r)"
    and contract_get: "good r \<Longrightarrow> ra_getCharacter api i r = Some (Some c) \<Longrightarrow> c \<in> mem r"
begin

definition rooms_good :: "'r party_world \<Rightarrow> bool" where
  "rooms_good w \<longleftrightarrow> (\<forall>r room. p_rooms w r = Some room \<longrightarrow> good room \<and> (\<forall>c \<in> mem room. p_chars w c \<noteq> None))"

lemma rooms_good_same: "p_rooms w' = p_rooms w \<Longrightarrow> p_chars w' = p_chars w \<Longrightarrow> rooms_good w' = rooms_good w"
  by (simp add: rooms_good_def)

lemma rooms_good_sends: "sends_only w w' \<Longrightarrow> rooms_good w' = rooms_good w"
  by (auto simp: sends_only_def rooms_good_def)

lemma rooms_good_add:
  assumes "rooms_good w" and "good room" and "\<forall>c \<in> mem room. p_chars w c \<noteq> None"
  shows "rooms_good (w\<lparr>p_rooms := (p_rooms w)(r \<mapsto> room)\<rparr>)"
  using assms by (auto simp: rooms_good_def split: if_splits)

lemma rooms_good_login:
  assumes "rooms_good w" and "login ids lay msg0 a w = Inr (b, w')"
  shows "rooms_good w'"
proof -
  obtain s where "p_sessions w a = Some s" using assms(2) by (auto simp: login_def with_ps_eq_Inr)
  moreover have "rooms_good w'"
    if "sends_only v w'" "p_rooms v = p_rooms w" "\<And>c. p_chars w c \<noteq> None \<Longrightarrow> p_chars v c \<noteq> None" for v
  proof -
    have "rooms_good v" using assms(1) that(2,3) unfolding rooms_good_def by metis
    then show ?thesis using rooms_good_sends[OF that(1)] by simp
  qed
  ultimately show ?thesis
    using assms(2) by (fastforce simp: login_def Let_def dest!: respond_sends split: option.splits)
qed

lemma rooms_good_read:
  assumes "party_inv w" and "rooms_good w" and "handler_read ids lay api msg0 i len a gone w = Inr (b, w')"
  shows "rooms_good w'"
proof -
  have rx: "rooms_good (w\<lparr>p_rx := n\<rparr>)" for n using assms(2) by (simp add: rooms_good_def)
  show ?thesis
    using assms(3)
  proof (cases rule: handler_read_cases)
    case (unchanged n)
    then show ?thesis using rx by simp
  next
    case (sends n)
    then show ?thesis using rx rooms_good_sends by blast
  next
    case (login n)
    then show ?thesis using rooms_good_login rx by blast
  next
    case (createParty n)
    have "party_inv (w\<lparr>p_rx := n\<rparr>)" using assms(1) by simp
    then show ?thesis
      using createParty
    proof (cases rule: createParty_cases)
      case refused
      then show ?thesis using rx rooms_good_sends by blast
    next
      case (created r room w2 c)
      let ?new = "ra_setId api (g_roomId (w\<lparr>p_rx := n\<rparr>)) (ra_new api c)"
      have "good room" "mem room \<subseteq> {c}"
        using created(7) contract_new[of "g_roomId (w\<lparr>p_rx := n\<rparr>)" c] contract_set[of ?new c] by auto
      then have "rooms_good ((w\<lparr>p_rx := n\<rparr>)\<lparr>p_rooms := (p_rooms w)(r \<mapsto> room)\<rparr>)"
        using rooms_good_add[OF rx, of room n r] created(6) by auto
      then have "rooms_good w2" using created(3) by (simp add: rooms_good_def)
      then show ?thesis using rooms_good_sends[OF created(5)] by simp
    qed
  next
    case (joinUser n)
    then show ?thesis
    proof (cases rule: joinUser_cases)
      case refused
      then show ?thesis using rx rooms_good_sends by blast
    next
      case (asked c r room)
      have room: "good room" "\<forall>d \<in> mem room. p_chars w d \<noteq> None"
        using asked(2) assms(2) by (auto simp: rooms_good_def)
      have "rooms_good ((w\<lparr>p_rx := n\<rparr>)\<lparr>p_rooms := (p_rooms w)(r \<mapsto> snd (ra_setCharacter api c room))\<rparr>)"
        using rooms_good_add[OF rx, of "snd (ra_setCharacter api c room)" n r] contract_set[OF room(1), of c] room(2) asked(1)
        by auto
      then show ?thesis using rooms_good_sends[OF asked(3)] by simp
    qed
  qed
qed

lemma rooms_good_error:
  assumes "party_inv w" and "rooms_good w" and "handler_error api ec a gone w = Inr (b, w')"
  shows "rooms_good w'"
  using assms(1,3) by (cases rule: handler_error_cases) (use assms(2) in \<open>simp_all add: rooms_good_def\<close>)

lemma rooms_good_step:
  assumes "party_step ids lay api w w'" and "party_inv w" and "rooms_good w"
  shows "rooms_good w'"
  using assms(1)
proof cases
  case (step_read msg0 i len a gone ok)
  then show ?thesis using rooms_good_read assms by blast
next
  case (step_error ec a gone ok)
  then show ?thesis using rooms_good_error assms by blast
qed (use assms(3) in \<open>simp_all add: rooms_good_def\<close>)

lemma rooms_good_reach:
  assumes "party_reach ids lay api party_init w"
  shows "rooms_good w"
proof -
  have "party_inv w \<and> rooms_good w"
    using assms
  proof (induction rule: party_reach.induct)
    case reach_start
    show ?case using party_inv_init by (simp add: rooms_good_def party_init_def)
  next
    case (reach_next w w')
    then show ?case using party_step_ok rooms_good_step by blast
  qed
  then show ?thesis ..
qed

text \<open>So a message to a party finds every member alive.\<close>

lemma contract_alive:
  assumes "party_reach ids lay api party_init w" and "p_rooms w r = Some room" and "ra_getCharacter api i room = Some (Some c)"
  shows "p_chars w c \<noteq> None"
  using rooms_good_reach[OF assms(1)] assms(2) contract_get[OF _ assms(3)] unfolding rooms_good_def by blast

end

subsection \<open>The older rooms under the party handler\<close>

text \<open>The initialisers of the constructor: the count is one, and no slot is filled.\<close>

definition older_Room_new :: "addr \<Rightarrow> older_room" where
  "older_Room_new master = \<lparr>or_characters = replicate MAX_CHARACTER None, or_cnt = 1, or_id = 0\<rparr>"

text \<open>
  The operations as the handler calls them. An index out of range, for which the handler's interface has no
  value, does not occur on the rooms it makes (\<open>set_made\<close>, \<open>get_made\<close>).
\<close>

definition older_rooms :: "older_room room_api" where
  "older_rooms =
     \<lparr>ra_new = older_Room_new, ra_setId = (\<lambda>k r. r\<lparr>or_id := k\<rparr>),
      ra_setCharacter = (\<lambda>c r. case Room_setCharacter c r of Inl e \<Rightarrow> (False, r) | Inr x \<Rightarrow> x),
      ra_getCharacter = (\<lambda>i r. case Room_getCharacter i r of Inl e \<Rightarrow> None | Inr slot \<Rightarrow> slot),
      ra_cnt = or_cnt, ra_id = (\<lambda>r. word_of_int (or_id r)),
      ra_leave = (\<lambda>c r. case Room_leave c r of Inl e \<Rightarrow> r | Inr r' \<Rightarrow> r')\<rparr>"

text \<open>A room as the handler makes them: slot 0 is counted and null, characters are in slots 1 and up.\<close>

definition made_room :: "older_room \<Rightarrow> bool" where
  "made_room r \<longleftrightarrow> length (or_characters r) = MAX_CHARACTER \<and> 1 \<le> or_cnt r \<and> or_cnt r \<le> int MAX_CHARACTER \<and>
     or_characters r ! 0 = None"

definition room_chars :: "older_room \<Rightarrow> addr set" where
  "room_chars r = {c. Some c \<in> set (or_characters r)}"

lemma new_made: "made_room (older_Room_new c)" "room_chars (older_Room_new c) = {}"
  by (simp_all add: made_room_def room_chars_def older_Room_new_def MAX_CHARACTER_def)

lemma setId_made [simp]: "made_room (r\<lparr>or_id := k\<rparr>) = made_room r" "room_chars (r\<lparr>or_id := k\<rparr>) = room_chars r"
  by (simp_all add: made_room_def room_chars_def)

lemma set_made:
  assumes "made_room r"
  shows "\<exists>b r'. Room_setCharacter c r = Inr (b, r') \<and> made_room r' \<and> room_chars r' \<subseteq> insert c (room_chars r)"
proof (cases "or_cnt r \<ge> int MAX_CHARACTER")
  case True
  then show ?thesis using assms by (auto simp: Room_setCharacter_def)
next
  case False
  let ?r = "r\<lparr>or_characters := (or_characters r)[nat (or_cnt r) := Some c], or_cnt := or_cnt r + 1\<rparr>"
  have n: "nat (or_cnt r) < length (or_characters r)" "nat (or_cnt r) \<noteq> 0" using False assms by (auto simp: made_room_def)
  have "made_room ?r" using False assms n by (auto simp: made_room_def)
  moreover have "room_chars ?r \<subseteq> insert c (room_chars r)"
    using set_update_subset_insert[of "or_characters r" "nat (or_cnt r)" "Some c"] by (auto simp: room_chars_def)
  moreover have "Room_setCharacter c r = Inr (True, ?r)"
    using False assms n(1) by (auto simp: Room_setCharacter_def made_room_def)
  ultimately show ?thesis by blast
qed

lemma get_made:
  assumes "made_room r" and "0 \<le> i"
  shows "Room_getCharacter i r = Inr (if i < or_cnt r then Some (or_characters r ! nat i) else None)"
  using assms by (auto simp: Room_getCharacter_def made_room_def)

lemma get_made_chars:
  assumes "made_room r" and "ra_getCharacter older_rooms i r = Some (Some c)"
  shows "c \<in> room_chars r"
proof (cases "0 \<le> i")
  case True
  then have "i < or_cnt r" "or_characters r ! nat i = Some c"
    using get_made[OF assms(1) True] assms(2) by (auto simp: older_rooms_def split: if_splits)
  moreover from this have "nat i < length (or_characters r)" using assms(1) True by (auto simp: made_room_def)
  ultimately show ?thesis unfolding room_chars_def by (metis mem_Collect_eq nth_mem)
next
  case False
  then show ?thesis
    using assms by (auto simp: older_rooms_def Room_getCharacter_def made_room_def MAX_CHARACTER_def split: if_splits)
qed

interpretation older: room_contract older_rooms made_room room_chars
proof
  show "made_room (ra_setId older_rooms k (ra_new older_rooms c)) \<and>
      room_chars (ra_setId older_rooms k (ra_new older_rooms c)) \<subseteq> {c}" for k c
    using new_made by (simp add: older_rooms_def)
  show "made_room (snd (ra_setCharacter older_rooms c r)) \<and>
      room_chars (snd (ra_setCharacter older_rooms c r)) \<subseteq> insert c (room_chars r)" if "made_room r" for r c
    using set_made[OF that, of c] by (auto simp: older_rooms_def)
  show "c \<in> room_chars r" if "made_room r" "ra_getCharacter older_rooms i r = Some (Some c)" for r i c
    using get_made_chars[OF that] .
qed

text \<open>The first slot of such a room stops the loop over its slots.\<close>

lemma first_slot_null:
  assumes "made_room room" and "bl_mk_nf lay txt1 = Inr nf" and "length nf \<le> 1024"
  shows "fold_res (party_send ids lay older_rooms room txt1 msg0) (map int [0..<nat (ra_cnt older_rooms room)]) w =
    Inl NullDeref"
proof -
  obtain n where n: "nat (ra_cnt older_rooms room) = Suc n"
    using assms(1) by (cases "nat (or_cnt room)") (auto simp: older_rooms_def made_room_def)
  have "ra_getCharacter older_rooms 0 room = Some None"
    using assms(1) get_made[OF assms(1), of 0] by (simp add: older_rooms_def made_room_def)
  then show ?thesis
    using assms(2) encode_data[OF assms(3)] by (simp add: n upt_conv_Cons party_send_def del: upt_Suc)
qed

subsection \<open>Properties\<close>

text \<open>
  C19. Leaving a room of the older code: when the members are distinct and the leaver is one of them,
  what is removed is the last member, whoever that is; the leaver stays unless it was the last, because the loop
  resets a copy of the pointer. Somebody who is not a member changes nothing; the loop ends in every room and reads
  no slot outside the array.
\<close>

theorem leave_drops_last_member:
  assumes "room_ok r"
  shows "\<exists>r'. Room_leave c r = Inr r' \<and> room_ok r' \<and>
    (if c \<notin> set (members r) then r' = r
     else length (members r') < length (members r) \<and>
       (distinct (members r) \<longrightarrow> members r' = butlast (members r) \<and>
          last (members r) \<notin> set (members r') \<and> (c \<noteq> last (members r) \<longrightarrow> c \<in> set (members r'))))"
proof -
  obtain r' where r': "Room_leave c r = Inr r'" "room_ok r'" "c \<notin> set (members r) \<longrightarrow> r' = r"
    "c \<in> set (members r) \<longrightarrow> length (members r') < length (members r)"
    "c \<in> set (members r) \<longrightarrow> distinct (members r) \<longrightarrow> members r' = butlast (members r)"
    using leave_members[OF assms, of c] by blast
  have "last (members r) \<notin> set (butlast (members r)) \<and> (c \<noteq> last (members r) \<longrightarrow> c \<in> set (butlast (members r)))"
    if "distinct (members r)" "c \<in> set (members r)"
    using that by (cases "members r" rule: rev_cases) auto
  then show ?thesis using r' by auto
qed

text \<open>
  C12. In the party server with the older rooms, a message to any registered party whose text fits makes the server
  dereference a null pointer. In every reachable state the rooms that are registered count at least one slot,
  and their first slot is null, because the constructor starts the count at one and fills no slot; the loop of
  \<open>nfMessage\<close> asks for the first slot, is told that there is a character, and asks it for its session.
\<close>

theorem party_message_hits_null_slot:
  assumes "party_reach ids lay older_rooms party_init w"
    and "p_sessions w a = Some s" and "g_rooms w (bl_nf_party lay (msg_body (ps_msg s))) = Some r"
    and "bl_mk_nf lay (bl_nf_text lay (msg_body (ps_msg s))) = Inr nf" and "length nf \<le> 1024"
  shows "\<exists>room. p_rooms w r = Some room \<and> 1 \<le> or_cnt room \<and> or_cnt room \<le> 8 \<and>
    Room_getCharacter 0 room = Inr (Some None) \<and> party_nfMessage ids lay older_rooms msg0 a w = Inl NullDeref"
proof -
  have inv: "party_inv w" using party_reach_ok[OF assms(1)] party_inv_init by blast
  then obtain room where room: "p_rooms w r = Some room" using assms(3) unfolding party_inv_def by blast
  have made: "made_room room" using older.rooms_good_reach[OF assms(1)] room by (simp add: older.rooms_good_def)
  have "Room_getCharacter 0 room = Inr (Some None)" using made get_made[OF made, of 0] by (simp add: made_room_def)
  moreover have "party_nfMessage ids lay older_rooms msg0 a w = Inl NullDeref"
    using assms(2,3) room first_slot_null[OF made assms(4,5), of ids msg0 w] by (simp add: party_nfMessage_def)
  ultimately show ?thesis using room made by (simp add: made_room_def MAX_CHARACTER_def)
qed

subsection \<open>The properties on a small party\<close>

definition sample_room :: older_room where
  "sample_room = \<lparr>or_characters = [Some 1, Some 2, Some 3] @ replicate 5 None, or_cnt = 3, or_id = 0\<rparr>"

text \<open>
  The first of three members leaves and the last is gone.
\<close>

theorem leave_drops_last_member_witness:
  "\<exists>r'. Room_leave 1 sample_room = Inr r' \<and> members r' = [1, 2]"
proof -
  have "room_ok sample_room" by (simp add: room_ok_def sample_room_def MAX_CHARACTER_def)
  moreover have "members sample_room = [1, 2, 3]" by (simp add: members_def sample_room_def)
  ultimately show ?thesis using leave_drops_last_member[of sample_room 1] by auto
qed

definition older_in :: "older_room party_world" where
  "older_in = party_init\<lparr>p_rx := 8, p_chars := [0 \<mapsto> Character_new ''a'' ''a'' 0], p_alloc := 1,
     g_characters := [''a'' \<mapsto> 0],
     p_sessions := [0 \<mapsto> \<lparr>ps_msg = sample_pmsg, ps_id = ''a'', ps_sent = [party_msg 4 LOGIN_SUCCESS [] sample_pmsg]\<rparr>]\<rparr>"

definition older_party :: "older_room party_world" where
  "older_party = older_in\<lparr>p_rx := 16, p_rooms := [1 \<mapsto> (older_Room_new 0)\<lparr>or_characters := [None, Some 0, None, None, None, None, None, None], or_cnt := 2\<rparr>],
     p_alloc := 2, g_rooms := [0 \<mapsto> 1], g_roomId := 1,
     p_sessions := [0 \<mapsto> \<lparr>ps_msg = sample_pmsg, ps_id = ''a'', ps_sent = [party_msg 4 LOGIN_SUCCESS [] sample_pmsg,
       party_msg 6 CREATE_PARTY_SUCCESS [0, 0, 0, 0] sample_pmsg]\<rparr>]\<rparr>"

lemma older_party_reach: "party_reach sample_ids sample_layout older_rooms party_init older_party"
proof -
  let ?w0 = "party_init\<lparr>p_sessions := [0 \<mapsto> sample_session []]\<rparr> :: older_room party_world"
  have "party_step sample_ids sample_layout older_rooms party_init ?w0"
    using step_accept[of party_init 0 sample_ids sample_layout older_rooms sample_pmsg]
    by (simp add: party_init_def sample_session_def)
  moreover have "handler_read sample_ids sample_layout older_rooms sample_pmsg 3 0 0 False ?w0 = Inr (True, older_in)"
    by (simp add: handler_read_def login_def Let_def respond_eq older_in_def msg_length_def add_sent_def)
      (simp add: sample_defs)
  moreover have "handler_read sample_ids sample_layout older_rooms sample_pmsg 5 0 0 False older_in =
      Inr (True, older_party)"
  proof -
    have "encode_id i r (Some [0, 0, 0, 0]) 4 m = Inr (party_msg i r [0, 0, 0, 0] m)" for i r m
      using encode_data[of "[0, 0, 0, 0]" i r m] by simp
    moreover have "replicate 8 x = [x, x, x, x, x, x, x, x]" for x :: "addr option" by (simp add: numeral_eq_Suc)
    ultimately show ?thesis
      by (simp add: handler_read_def createParty_def Let_def set_room_def Character_setRoom_def asyncSend_eq
          older_in_def older_party_def msg_length_def add_sent_def sample_defs older_rooms_def Room_setCharacter_def
          older_Room_new_def MAX_CHARACTER_def)
  qed
  ultimately show ?thesis by (blast intro: party_reach.intros step_read)
qed

text \<open>
  The owner of the only party sends a message to it.
\<close>

theorem party_message_hits_null_slot_witness:
  "party_nfMessage sample_ids sample_layout older_rooms sample_pmsg 0 older_party = Inl NullDeref"
proof -
  let ?s = "\<lparr>ps_msg = sample_pmsg, ps_id = ''a'', ps_sent = [party_msg 4 LOGIN_SUCCESS [] sample_pmsg,
    party_msg 6 CREATE_PARTY_SUCCESS [0, 0, 0, 0] sample_pmsg]\<rparr>"
  have s: "p_sessions older_party 0 = Some ?s" "g_rooms older_party (bl_nf_party sample_layout (msg_body (ps_msg ?s))) = Some 1"
    "bl_mk_nf sample_layout (bl_nf_text sample_layout (msg_body (ps_msg ?s))) = Inr [0, 0]"
    "length [0, 0 :: byte] \<le> 1024"
    by (simp_all add: older_party_def sample_layout_def sample_ids_def)
  from party_message_hits_null_slot[OF older_party_reach s, of sample_pmsg] show ?thesis by blast
qed

end
