(* ===== verification/World_Server.thy ===== *)
theory World_Server
  imports Main_Programs Rooms
begin

text \<open>
  The world server: \<open>server/WorldServer.h\<close>, \<open>server/WorldServer.cpp\<close> and \<open>server/main.cpp\<close>. The class is
  the predecessor of \<open>ChatServer\<close> with its handlers still empty; the program parses its options and
  waits for a key. As for the chat programs, what parsing the command line gave is a parameter, and a
  program's output is the list of what it prints.
\<close>

subsection \<open>WorldServer\<close>

record world_server = tcp_world +
  ws_ios :: nat
  ws_rooms :: "(int, addr) smap"
  ws_characters :: "(int, addr) smap"

definition WorldServer_new :: "string \<Rightarrow> ServerConfig \<Rightarrow> world_server res" where
  "WorldServer_new name config =
     bind_res (TcpServer_new name config) (\<lambda>w.
     bind_res (getIoService (getIoServicePool w)) (\<lambda>(i, p).
       Inr (tcp_world.extend (w\<lparr>srv_pool := p\<rparr>) \<lparr>ws_ios = i, ws_rooms = [], ws_characters = []\<rparr>)))"

definition ws_start :: "world_server \<Rightarrow> world_server" where
  "ws_start w = w"

text \<open>The error and the signal are looked at in a comment only.\<close>

definition ws_stop :: "error_code \<Rightarrow> int \<Rightarrow> world_server \<Rightarrow> world_server" where
  "ws_stop ec sigNum w = w\<lparr>srv_pool := (srv_pool w)\<lparr>m_ios :=
     (m_ios (srv_pool w))[ws_ios w := (m_ios (srv_pool w) ! ws_ios w)\<lparr>ios_stopped := True\<rparr>]\<rparr>\<rparr>"

definition ws_openedHandler :: "addr \<Rightarrow> world_server \<Rightarrow> world_server" where
  "ws_openedHandler a w = w"

definition ws_closedHandler :: "addr \<Rightarrow> CloseReason \<Rightarrow> world_server \<Rightarrow> world_server" where
  "ws_closedHandler a reason w = w"

definition ws_messageHandler :: "addr \<Rightarrow> bytes \<Rightarrow> world_server \<Rightarrow> world_server" where
  "ws_messageHandler a data w = w"

definition ws_onMessage :: "world_server \<Rightarrow> world_server" where
  "ws_onMessage w = w"

definition ws_getCharacter :: "int \<Rightarrow> world_server \<Rightarrow> Character res" where
  "ws_getCharacter i w = Inl MissingReturn"

subsection \<open>server/main.cpp\<close>

text \<open>
  What \<open>main\<close> itself prints and logs, one value per line; the program returns once a
  character was read or there is none. The thread count is logged and nothing else.
\<close>

datatype world_output = HelpText | VersionText | LogStart | LogCompiled | LogThreads int | LogException | EndText

definition world_main :: "server_options option \<Rightarrow> int \<times> world_output list" where
  "world_main vm = (case vm of
       None \<Rightarrow> (0, [LogException])
     | Some o1 \<Rightarrow>
         if so_help o1 then (0, [HelpText])
         else if so_version o1 then (0, [VersionText])
         else
           let numThreads = (case so_threads o1 of None \<Rightarrow> 8 | Some n \<Rightarrow> n)
           in (0, [LogStart, LogCompiled, LogThreads numThreads, EndText]))"

subsection \<open>Properties\<close>

lemma WorldServer_new_eq:
  assumes "0 < threadCount config" and "maxSession config < 2 ^ 31"
  shows "\<exists>w. WorldServer_new name config = Inr w \<and> ws_ios w = 0 \<and>
    m_ios (srv_pool w) = replicate (threadCount config) \<lparr>ios_stopped = False, ios_has_work = True\<rparr>"
  using assms
  by (cases "threadCount config")
    (simp_all add: WorldServer_new_def TcpServer_new_eq IoServicePool_new_eq getIoServicePool_def
      getIoService_def tcp_world.defs Let_def)

text \<open>
  Stopping the world server stops one service of its pool, the first, and whatever error or signal it is
  told about; the services of the other threads go on, unlike after \<open>IoServicePool::stop\<close>, which stops them all.
  \<open>ChatServer::stop\<close> is the same code. With no threads the server cannot be constructed.
\<close>

theorem world_stop_stops_one_service:
  assumes "maxSession config < 2 ^ 31"
  shows "(case WorldServer_new name config of
      Inl e \<Rightarrow> threadCount config = 0 \<and> e = OutOfRange
    | Inr w \<Rightarrow> 0 < threadCount config \<and>
        map ios_stopped (m_ios (srv_pool (ws_stop ec sigNum (ws_start w)))) = True # replicate (threadCount config - 1) False \<and>
        map ios_stopped (m_ios (pool_stop (srv_pool w))) = replicate (threadCount config) True)"
proof (cases "threadCount config")
  case 0
  then show ?thesis
    using assms by (simp add: WorldServer_new_def TcpServer_new_eq IoServicePool_new_eq getIoServicePool_def getIoService_def)
next
  case (Suc n)
  then obtain w where w: "WorldServer_new name config = Inr w" "ws_ios w = 0"
    "m_ios (srv_pool w) = replicate (Suc n) \<lparr>ios_stopped = False, ios_has_work = True\<rparr>"
    using WorldServer_new_eq[of config name] assms by auto
  then show ?thesis
    using Suc by (simp add: ws_stop_def ws_start_def pool_stop_def)
qed

theorem world_stop_stops_one_service_witness:
  "case WorldServer_new ''world'' (ServerConfig_default\<lparr>threadCount := 2\<rparr>) of
     Inl e \<Rightarrow> False
   | Inr w \<Rightarrow> map ios_stopped (m_ios (srv_pool (ws_stop EcOk 15 (ws_start w)))) = [True, False]"
  using world_stop_stops_one_service[where config = "ServerConfig_default\<lparr>threadCount := 2\<rparr>" and name = "''world''"
      and ec = EcOk and sigNum = 15]
  by (auto simp: ServerConfig_default_def split: sum.splits)

end
