(* ===== verification/Redis_Examples.thy ===== *)
theory Redis_Examples
  imports Redis_Client Party_Client
begin

text \<open>
  The two example programs for hiredis, \<open>test_hiredis/test.cpp\<close> and \<open>test_hiredis/test2.cpp\<close>. hiredis and the C
  library are parameters: what a connection attempt gives, what a command answers on a connection that carried
  other commands, whether \<open>freeReplyObject\<close> takes a null pointer (it depends on its version), and what \<open>printf\<close>
  makes of a null string, \<open>None\<close> when it faults (the C standard leaves it undefined, glibc prints a text). Reply
  objects live in a heap of their own, an address without an object is free; the connection is alive or not.
  Using or freeing an object that is not alive is \<open>UseAfterFree\<close>. A command is the list of its arguments.
\<close>

subsection \<open>hiredis as the examples see it\<close>

text \<open>The fields they read: \<open>str\<close> (null in a reply that has no text), \<open>integer\<close> and the texts of \<open>element\<close>.\<close>

record ex_reply =
  er_type :: redis_reply_type
  er_str :: "string option"
  er_integer :: int
  er_elements :: "string option list"

record ex_context =
  xc_err :: nat
  xc_errstr :: string

type_synonym ex_cmd = "string list"

text \<open>\<open>hx_errstr\<close> is the error text in the context after the given commands.\<close>

record ex_hiredis =
  hx_connect :: "string \<Rightarrow> int \<Rightarrow> ex_context option"
  hx_connect_timeout :: "string \<Rightarrow> int \<Rightarrow> ex_context option"
  hx_connect_unix :: "string \<Rightarrow> ex_context option"
  hx_command :: "ex_cmd list \<Rightarrow> ex_cmd \<Rightarrow> ex_reply option"
  hx_errstr :: "ex_cmd list \<Rightarrow> string"
  hx_free_null :: bool
  hx_print_null :: "string option"

record ex_run =
  ex_cmds :: "ex_cmd list"
  ex_heap :: "addr \<Rightarrow> ex_reply option"
  ex_next :: addr
  ex_context_alive :: bool
  ex_out :: "string list"

text \<open>\<open>redisCommand\<close>: a null pointer, or the address of a new reply object.\<close>

definition ex_command :: "ex_hiredis \<Rightarrow> ex_cmd \<Rightarrow> ex_run \<Rightarrow> (addr option \<times> ex_run) res" where
  "ex_command h cmd x =
     (if \<not> ex_context_alive x then Inl UseAfterFree
      else
        let x1 = x\<lparr>ex_cmds := ex_cmds x @ [cmd]\<rparr>
        in case hx_command h (ex_cmds x) cmd of
             None \<Rightarrow> Inr (None, x1)
           | Some r \<Rightarrow> Inr (Some (ex_next x), x1\<lparr>ex_heap := (ex_heap x)(ex_next x \<mapsto> r), ex_next := ex_next x + 1\<rparr>))"

definition ex_deref :: "addr option \<Rightarrow> ex_run \<Rightarrow> ex_reply res" where
  "ex_deref reply x = (case reply of None \<Rightarrow> Inl NullDeref
     | Some p \<Rightarrow> (case ex_heap x p of None \<Rightarrow> Inl UseAfterFree | Some r \<Rightarrow> Inr r))"

definition freeReplyObject :: "ex_hiredis \<Rightarrow> addr option \<Rightarrow> ex_run \<Rightarrow> ex_run res" where
  "freeReplyObject h reply x = (case reply of
       None \<Rightarrow> if hx_free_null h then Inr x else Inl NullDeref
     | Some p \<Rightarrow> if ex_heap x p = None then Inl UseAfterFree else Inr (x\<lparr>ex_heap := (ex_heap x)(p := None)\<rparr>))"

definition redisFree :: "ex_run \<Rightarrow> ex_run res" where
  "redisFree x = (if ex_context_alive x then Inr (x\<lparr>ex_context_alive := False\<rparr>) else Inl UseAfterFree)"

definition ex_print :: "string \<Rightarrow> ex_run \<Rightarrow> ex_run" where
  "ex_print s x = x\<lparr>ex_out := ex_out x @ [s]\<rparr>"

definition ex_print_str :: "ex_hiredis \<Rightarrow> string \<Rightarrow> string option \<Rightarrow> ex_run \<Rightarrow> ex_run res" where
  "ex_print_str h label str x = (case str of
       Some s \<Rightarrow> Inr (ex_print (label @ s) x)
     | None \<Rightarrow> (case hx_print_null h of None \<Rightarrow> Inl NullDeref | Some s \<Rightarrow> Inr (ex_print (label @ s) x)))"

text \<open>A connection attempt: the context is alive when one was allocated.\<close>

definition ex_connected :: "ex_context option \<Rightarrow> ex_run" where
  "ex_connected c = \<lparr>ex_cmds = [], ex_heap = (\<lambda>_. None), ex_next = 0, ex_context_alive = (c \<noteq> None), ex_out = []\<rparr>"

subsection \<open>test.cpp\<close>

text \<open>
  One command with its checks; \<open>Some\<close> is an early return from \<open>main\<close>. Only the first of the three messages about a
  null reply adds the error text of the context.
\<close>

definition test_command :: "ex_hiredis \<Rightarrow> bool \<Rightarrow> ex_cmd \<Rightarrow> ex_run \<Rightarrow> (int option \<times> ex_run) res" where
  "test_command h with_err cmd x =
     bind_res (ex_command h cmd x) (\<lambda>(reply, x1).
       if reply = None
       then Inr (Some (- 1), ex_print (''redisCommand reply is NULL'' @
              (if with_err then '': '' @ hx_errstr h (ex_cmds x1) else [])) x1)
       else bind_res (ex_deref reply x1) (\<lambda>r.
         if er_type r = REDIS_REPLY_ERROR
         then bind_res (ex_print_str h ''Command Error: '' (er_str r) x1) (\<lambda>x2.
              bind_res (freeReplyObject h reply x2) (\<lambda>x3. Inr (Some (- 1), x3)))
         else bind_res (ex_print_str h ''Command reply: '' (er_str r) x1) (\<lambda>x2.
              bind_res (freeReplyObject h reply x2) (\<lambda>x3. Inr (None, x3)))))"

fun test_commands :: "ex_hiredis \<Rightarrow> (bool \<times> ex_cmd) list \<Rightarrow> ex_run \<Rightarrow> (int option \<times> ex_run) res" where
  "test_commands h [] x = Inr (None, x)"
| "test_commands h ((b, c) # cs) x =
     bind_res (test_command h b c x) (\<lambda>(rtn, x1). case rtn of Some n \<Rightarrow> Inr (Some n, x1) | None \<Rightarrow> test_commands h cs x1)"

definition test_script :: "(bool \<times> ex_cmd) list" where
  "test_script = [(True, [''SET'', ''key'', ''Hello'']), (False, [''GET'', ''key'']), (False, [''GET'', ''XXX''])]"

definition test_main :: "ex_hiredis \<Rightarrow> (int \<times> ex_run) res" where
  "test_main h =
     (let c = hx_connect h ''127.0.0.1'' 6379; x = ex_connected c
      in case c of
           None \<Rightarrow> Inr (- 1, ex_print ''Can't allocate redis context'' x)
         | Some ctx \<Rightarrow>
             if xc_err ctx \<noteq> 0 then Inr (- 1, ex_print (''Connecting Error: '' @ xc_errstr ctx) x)
             else bind_res (test_commands h test_script x) (\<lambda>(rtn, x1).
                  case rtn of Some n \<Rightarrow> Inr (n, x1) | None \<Rightarrow> bind_res (redisFree x1) (\<lambda>x2. Inr (0, x2))))"

subsection \<open>test2.cpp\<close>

definition test2_command :: "ex_hiredis \<Rightarrow> string \<Rightarrow> ex_cmd \<Rightarrow> (ex_reply \<Rightarrow> string option) \<Rightarrow> ex_run \<Rightarrow> ex_run res" where
  "test2_command h label cmd txt1 x =
     bind_res (ex_command h cmd x) (\<lambda>(reply, x1).
     bind_res (ex_deref reply x1) (\<lambda>r.
     bind_res (ex_print_str h label (txt1 r) x1) (freeReplyObject h reply)))"

definition test2_silent :: "ex_hiredis \<Rightarrow> ex_cmd \<Rightarrow> ex_run \<Rightarrow> ex_run res" where
  "test2_silent h cmd x = bind_res (ex_command h cmd x) (\<lambda>(reply, x1). freeReplyObject h reply x1)"

text \<open>The elements of the list that was read back, with their numbers.\<close>

fun print_elements :: "ex_hiredis \<Rightarrow> nat \<Rightarrow> string option list \<Rightarrow> ex_run \<Rightarrow> ex_run res" where
  "print_elements h j [] x = Inr x"
| "print_elements h j (e # es) x =
     bind_res (ex_print_str h (to_string_nat j @ '') '') e x) (print_elements h (j + 1) es)"

definition test2_list :: "ex_hiredis \<Rightarrow> ex_cmd \<Rightarrow> ex_run \<Rightarrow> ex_run res" where
  "test2_list h cmd x =
     bind_res (ex_command h cmd x) (\<lambda>(reply, x1).
     bind_res (ex_deref reply x1) (\<lambda>r.
     bind_res (if er_type r = REDIS_REPLY_ARRAY then print_elements h 0 (er_elements r) x1 else Inr x1)
       (freeReplyObject h reply)))"

definition int_text :: "ex_reply \<Rightarrow> string option" where
  "int_text r = Some (to_string (er_integer r))"

definition push_cmd :: "nat \<Rightarrow> ex_cmd" where
  "push_cmd j = [''LPUSH'', ''mylist'', ''element-'' @ to_string_nat j]"

text \<open>From the ping to the list.\<close>

definition test2_body :: "ex_hiredis \<Rightarrow> ex_run \<Rightarrow> ex_run res" where
  "test2_body h x =
     bind_res (test2_command h ''PING: '' [''PING''] er_str x) (\<lambda>x.
     bind_res (test2_command h ''SET: '' [''SET'', ''foo'', ''hello world''] er_str x) (\<lambda>x.
     bind_res (test2_command h ''SET (binary API): '' [''SET'', ''bar'', ''hello''] er_str x) (\<lambda>x.
     bind_res (test2_command h ''GET foo: '' [''GET'', ''foo''] er_str x) (\<lambda>x.
     bind_res (test2_command h ''INCR counter: '' [''INCR'', ''counter''] int_text x) (\<lambda>x.
     bind_res (test2_command h ''INCR counter: '' [''INCR'', ''counter''] int_text x) (\<lambda>x.
     bind_res (test2_silent h [''DEL'', ''mylist''] x) (\<lambda>x.
     bind_res (fold_res (\<lambda>j. test2_silent h (push_cmd j)) [0..<10] x) (\<lambda>x.
     test2_list h [''LRANGE'', ''mylist'', ''0'', ''-1''] x))))))))"

text \<open>\<open>argv\<close> without the program's name; a second argument that starts with u stands for a unix socket.\<close>

definition test2_main :: "ex_hiredis \<Rightarrow> string list \<Rightarrow> (int \<times> ex_run) res" where
  "test2_main h argv =
     (let hostname = (case argv of [] \<Rightarrow> ''127.0.0.1'' | a # _ \<Rightarrow> a);
          isunix = (length argv > 1 \<and> argv ! 1 \<noteq> [] \<and> (hd (argv ! 1) = CHR ''u'' \<or> hd (argv ! 1) = CHR ''U''))
      in bind_res (if length argv > 1 then atoi (argv ! 1) else Inr 6379) (\<lambda>port.
         let c = (if isunix then hx_connect_unix h hostname else hx_connect_timeout h hostname port);
             x = (if isunix then ex_print (''Will connect to unix socket @'' @ hostname) (ex_connected c) else ex_connected c)
         in case c of
              None \<Rightarrow> Inr (1, ex_print ''Connection error: can't allocate redis context'' x)
            | Some ctx \<Rightarrow>
                if xc_err ctx \<noteq> 0
                then bind_res (redisFree (ex_print (''Connection error: '' @ xc_errstr ctx) x)) (\<lambda>x1. Inr (1, x1))
                else bind_res (test2_body h x) (\<lambda>x1. bind_res (redisFree x1) (\<lambda>x2. Inr (0, x2)))))"

subsection \<open>Lemmas\<close>

text \<open>
  A run from \<open>x\<close> to \<open>x'\<close> that issued \<open>cs\<close>, leaves the connection as it was and no reply behind; \<open>tidy\<close> says that
  fresh addresses are free.
\<close>

definition tidy :: "ex_run \<Rightarrow> bool" where
  "tidy x \<longleftrightarrow> (\<forall>p \<ge> ex_next x. ex_heap x p = None)"

definition issues :: "ex_cmd list \<Rightarrow> ex_run \<Rightarrow> ex_run \<Rightarrow> bool" where
  "issues cs x x' \<longleftrightarrow> ex_heap x' = ex_heap x \<and> ex_context_alive x' = ex_context_alive x \<and>
     ex_cmds x' = ex_cmds x @ cs \<and> ex_next x \<le> ex_next x'"

lemma issues_append: "issues cs x y \<Longrightarrow> issues ds y z \<Longrightarrow> issues (cs @ ds) x z"
  by (simp add: issues_def)

lemma issues_tidy: "issues cs x x' \<Longrightarrow> tidy x \<Longrightarrow> tidy x'"
  by (simp add: issues_def tidy_def)

lemma print_str_same: "ex_print_str h label str x = Inr x' \<Longrightarrow> \<exists>out. x' = x\<lparr>ex_out := out\<rparr>"
  by (auto simp: ex_print_str_def ex_print_def split: option.splits)

lemma print_elements_same: "print_elements h j es x = Inr x' \<Longrightarrow> \<exists>out. x' = x\<lparr>ex_out := out\<rparr>"
proof (induction es arbitrary: j x)
  case Nil
  then have "x' = x\<lparr>ex_out := ex_out x\<rparr>" by simp
  then show ?case ..
next
  case (Cons e es)
  then obtain y where y: "ex_print_str h (to_string_nat j @ '') '') e x = Inr y" "print_elements h (j + 1) es y = Inr x'"
    by (auto simp: bind_res_eq_Inr)
  then show ?case using print_str_same[OF y(1)] Cons.IH[OF y(2)] by auto
qed

text \<open>The shape every command has: issue, look, free. Freeing gives the heap back as it was.\<close>

lemma command_cases:
  assumes "ex_command h cmd x = Inr (reply, x1)" and "tidy x"
  obtains (null) "reply = None" "hx_command h (ex_cmds x) cmd = None" "issues [cmd] x x1"
  | (reply) p r where "reply = Some p" "hx_command h (ex_cmds x) cmd = Some r" "ex_deref reply x1 = Inr r"
      "\<forall>out x2. freeReplyObject h reply (x1\<lparr>ex_out := out\<rparr>) = Inr x2 \<longrightarrow> issues [cmd] x x2"
      "\<forall>out e. freeReplyObject h reply (x1\<lparr>ex_out := out\<rparr>) \<noteq> Inl e"
proof (cases "hx_command h (ex_cmds x) cmd")
  case None
  then show thesis using assms null by (auto simp: ex_command_def issues_def Let_def split: if_splits)
next
  case (Some r)
  let ?p = "ex_next x"
  let ?x1 = "x\<lparr>ex_cmds := ex_cmds x @ [cmd], ex_heap := (ex_heap x)(?p \<mapsto> r), ex_next := ?p + 1\<rparr>"
  have x1: "reply = Some ?p" "x1 = ?x1" using assms(1) Some by (auto simp: ex_command_def Let_def split: if_splits)
  have "ex_heap x ?p = None" using assms(2) by (simp add: tidy_def)
  then have same: "(ex_heap x)(?p := None) = ex_heap x" by auto
  then show thesis
    using reply[OF x1(1) Some] x1
    by (simp add: ex_deref_def freeReplyObject_def issues_def same)
qed

lemma command_fault: "ex_command h cmd x = Inl e \<Longrightarrow> \<not> ex_context_alive x"
  by (auto simp: ex_command_def Let_def split: if_splits option.splits)

text \<open>One command of the first program, on a live connection: what it leaves, and the one way it can fail.\<close>

lemma test_command_effect:
  assumes "test_command h b cmd x = Inr (rtn, x')" and "tidy x"
  shows "issues [cmd] x x' \<and> (rtn = None \<or> rtn = Some (- 1))"
proof -
  obtain reply x1 where c: "ex_command h cmd x = Inr (reply, x1)"
    using assms(1) by (auto simp: test_command_def bind_res_eq_Inr)
  from c assms(2) show ?thesis
  proof (cases rule: command_cases)
    case null
    then show ?thesis using assms(1) c by (auto simp: test_command_def issues_def ex_print_def)
  next
    case (reply p r)
    then obtain label x2 where "ex_print_str h label (er_str r) x1 = Inr x2"
        "bind_res (freeReplyObject h (Some p) x2) (\<lambda>x3. Inr (rtn, x3)) = Inr (rtn, x')" "rtn = None \<or> rtn = Some (- 1)"
      using assms(1) c by (auto simp: test_command_def bind_res_eq_Inr split: if_splits)
    then show ?thesis
      using reply(1,4) print_str_same[of h label "er_str r" x1 x2] by (auto simp: bind_res_eq_Inr)
  qed
qed

lemma test_command_fault:
  assumes "test_command h b cmd x = Inl e" and "tidy x" and "ex_context_alive x"
  shows "e = NullDeref \<and> hx_print_null h = None \<and> (\<exists>r. hx_command h (ex_cmds x) cmd = Some r \<and> er_str r = None)"
proof -
  obtain reply x1 where c: "ex_command h cmd x = Inr (reply, x1)"
    using command_fault[of h cmd x] assms(3) by (cases "ex_command h cmd x") auto
  from c assms(2) show ?thesis
  proof (cases rule: command_cases)
    case null
    then show ?thesis using assms(1) c by (simp add: test_command_def)
  next
    case (reply p r)
    have "\<exists>out label. ex_print_str h label (er_str r) x1 = Inl e"
    proof (rule ccontr)
      assume no: "\<nexists>out label. ex_print_str h label (er_str r) x1 = Inl e"
      then obtain label x2 where "ex_print_str h label (er_str r) x1 = Inr x2" "freeReplyObject h reply x2 = Inl e"
        using assms(1) c reply(1,3) by (auto simp: test_command_def bind_res_eq_Inl split: if_splits)
      then show False using print_str_same[of h label "er_str r" x1 x2] reply(5) by auto
    qed
    then show ?thesis using reply(2) by (auto simp: ex_print_str_def split: option.splits)
  qed
qed

lemma test_commands_effect:
  assumes "test_commands h cs x = Inr (rtn, x')" and "tidy x"
  shows "\<exists>ds es. cs = ds @ es \<and> issues (map snd ds) x x' \<and>
    (if es = [] then rtn \<in> {None, Some (- 1)} else rtn = Some (- 1))"
  using assms
proof (induction cs arbitrary: x)
  case Nil
  then show ?case by (simp add: issues_def)
next
  case (Cons bc cs)
  obtain b c where bc: "bc = (b, c)" by (cases bc)
  obtain r x1 where x1: "test_command h b c x = Inr (r, x1)"
    and rest: "(case r of Some n \<Rightarrow> Inr (Some n, x1) | None \<Rightarrow> test_commands h cs x1) = Inr (rtn, x')"
    using Cons.prems bc by (auto simp: bind_res_eq_Inr)
  note one = test_command_effect[OF x1 Cons.prems(2)]
  show ?case
  proof (cases r)
    case None
    then obtain ds es where "cs = ds @ es" "issues (map snd ds) x1 x'"
        "if es = [] then rtn \<in> {None, Some (- 1)} else rtn = Some (- 1)"
      using Cons.IH[of x1] rest one issues_tidy[OF _ Cons.prems(2)] by auto
    then show ?thesis
      using one bc issues_append[of "[c]" x x1 "map snd ds" x'] by (intro exI[of _ "bc # ds"] exI[of _ es]) auto
  next
    case (Some n)
    then show ?thesis using rest one bc by (intro exI[of _ "[bc]"] exI[of _ cs]) auto
  qed
qed

lemma test_commands_fault:
  assumes "test_commands h cs x = Inl e" and "tidy x" and "ex_context_alive x"
  shows "e = NullDeref \<and> hx_print_null h = None \<and>
    (\<exists>ds d es r. map snd cs = ds @ d # es \<and> hx_command h (ex_cmds x @ ds) d = Some r \<and> er_str r = None)"
  using assms
proof (induction cs arbitrary: x)
  case (Cons bc cs)
  obtain b c where bc: "bc = (b, c)" by (cases bc)
  show ?case
  proof (cases "test_command h b c x")
    case (Inl e')
    then have "e' = e" using Cons.prems(1) bc by simp
    then show ?thesis
      using test_command_fault[OF Inl Cons.prems(2,3)] bc by force
  next
    case (Inr y)
    obtain rtn x1 where x1: "test_command h b c x = Inr (rtn, x1)" using Inr by (cases y) auto
    note one = test_command_effect[OF x1 Cons.prems(2)]
    have "test_commands h cs x1 = Inl e" using Cons.prems(1) x1 bc by (auto split: option.splits)
    moreover have "tidy x1" "ex_context_alive x1" "ex_cmds x1 = ex_cmds x @ [c]"
      using one issues_tidy[of "[c]" x x1] Cons.prems(2,3) by (auto simp: issues_def)
    ultimately obtain ds d es r where "e = NullDeref" "hx_print_null h = None" "map snd cs = ds @ d # es"
        "hx_command h (ex_cmds x @ c # ds) d = Some r" "er_str r = None"
      using Cons.IH[of x1] by auto
    moreover from this have "map snd (bc # cs) = (c # ds) @ d # es" using bc by simp
    ultimately show ?thesis by metis
  qed
qed simp

text \<open>The commands of the second program.\<close>

lemma test2_command_issues:
  assumes "test2_command h label cmd f x = Inr x'" and "tidy x"
  shows "issues [cmd] x x'"
proof -
  obtain reply x1 r x2 where c: "ex_command h cmd x = Inr (reply, x1)" and d: "ex_deref reply x1 = Inr r"
    and p: "ex_print_str h label (f r) x1 = Inr x2" and fr: "freeReplyObject h reply x2 = Inr x'"
    using assms(1) by (auto simp: test2_command_def bind_res_eq_Inr)
  from c assms(2) show ?thesis
    by (cases rule: command_cases) (use d fr print_str_same[OF p] in \<open>auto simp: ex_deref_def\<close>)
qed

lemma test2_silent_issues:
  assumes "test2_silent h cmd x = Inr x'" and "tidy x"
  shows "issues [cmd] x x'"
proof -
  obtain reply x1 where c: "ex_command h cmd x = Inr (reply, x1)" and fr: "freeReplyObject h reply x1 = Inr x'"
    using assms(1) by (auto simp: test2_silent_def bind_res_eq_Inr)
  from c assms(2) show ?thesis
  proof (cases rule: command_cases)
    case null
    then show ?thesis using fr by (auto simp: freeReplyObject_def split: if_splits)
  next
    case (reply p r)
    have "x1 = x1\<lparr>ex_out := ex_out x1\<rparr>" by simp
    then show ?thesis using reply(4) fr by metis
  qed
qed

lemma test2_list_issues:
  assumes "test2_list h cmd x = Inr x'" and "tidy x"
  shows "issues [cmd] x x'"
proof -
  obtain reply x1 r x2 where c: "ex_command h cmd x = Inr (reply, x1)" and d: "ex_deref reply x1 = Inr r"
    and p: "(if er_type r = REDIS_REPLY_ARRAY then print_elements h 0 (er_elements r) x1 else Inr x1) = Inr x2"
    and fr: "freeReplyObject h reply x2 = Inr x'"
    using assms(1) by (auto simp: test2_list_def bind_res_eq_Inr)
  have "\<exists>out. x2 = x1\<lparr>ex_out := out\<rparr>"
    using p print_elements_same[of h 0 "er_elements r" x1 x2] by (auto split: if_splits intro: exI[of _ "ex_out x1"])
  with c assms(2) show ?thesis
    by (cases rule: command_cases) (use d fr in \<open>auto simp: ex_deref_def\<close>)
qed

lemma test2_pushes_issue:
  assumes "fold_res (\<lambda>j. test2_silent h (push_cmd j)) js x = Inr x'" and "tidy x"
  shows "issues (map push_cmd js) x x'"
  using assms
proof (induction js arbitrary: x)
  case Nil
  then show ?case by (simp add: issues_def)
next
  case (Cons j js)
  then obtain y where y: "test2_silent h (push_cmd j) x = Inr y" "fold_res (\<lambda>j. test2_silent h (push_cmd j)) js y = Inr x'"
    by (auto simp: bind_res_eq_Inr)
  note one = test2_silent_issues[OF y(1) Cons.prems(2)]
  from issues_append[OF one Cons.IH[OF y(2) issues_tidy[OF one Cons.prems(2)]]] show ?case by simp
qed

definition test2_script :: "ex_cmd list" where
  "test2_script = [[''PING''], [''SET'', ''foo'', ''hello world''], [''SET'', ''bar'', ''hello''], [''GET'', ''foo''],
     [''INCR'', ''counter''], [''INCR'', ''counter''], [''DEL'', ''mylist'']] @ map push_cmd [0..<10] @
     [[''LRANGE'', ''mylist'', ''0'', ''-1'']]"

text \<open>Steps that issue commands compose.\<close>

definition issuer :: "(ex_run \<Rightarrow> ex_run res) \<Rightarrow> ex_cmd list \<Rightarrow> bool" where
  "issuer f cs \<longleftrightarrow> (\<forall>x x'. tidy x \<longrightarrow> f x = Inr x' \<longrightarrow> issues cs x x')"

lemma issuer_bind:
  assumes "issuer f cs" and "issuer g ds"
  shows "issuer (\<lambda>x. bind_res (f x) g) (cs @ ds)"
  unfolding issuer_def
proof (intro allI impI)
  fix x x'
  assume x: "tidy x" and "bind_res (f x) g = Inr x'"
  then obtain y where y: "f x = Inr y" "g y = Inr x'" by (auto simp: bind_res_eq_Inr)
  have one: "issues cs x y" using assms(1) x y(1) by (simp add: issuer_def)
  then have "issues ds y x'" using assms(2) y(2) issues_tidy[OF one x] by (simp add: issuer_def)
  with one show "issues (cs @ ds) x x'" by (rule issues_append)
qed

lemma test2_issuers:
  "issuer (test2_command h label cmd f) [cmd]" "issuer (test2_silent h cmd) [cmd]" "issuer (test2_list h cmd) [cmd]"
  "issuer (fold_res (\<lambda>j. test2_silent h (push_cmd j)) js) (map push_cmd js)"
  using test2_command_issues test2_silent_issues test2_list_issues test2_pushes_issue unfolding issuer_def by blast+

lemma test2_body_issues: "issuer (test2_body h) test2_script"
proof -
  have "issuer (test2_body h) ([[''PING'']] @ [[''SET'', ''foo'', ''hello world'']] @ [[''SET'', ''bar'', ''hello'']] @
      [[''GET'', ''foo'']] @ [[''INCR'', ''counter'']] @ [[''INCR'', ''counter'']] @ [[''DEL'', ''mylist'']] @
      map push_cmd [0..<10] @ [[''LRANGE'', ''mylist'', ''0'', ''-1'']])"
    unfolding test2_body_def by (intro issuer_bind test2_issuers)
  then show ?thesis by (simp add: test2_script_def)
qed

lemma connected_fields [simp]:
  "tidy (ex_connected c)" "ex_context_alive (ex_connected c) = (c \<noteq> None)" "ex_cmds (ex_connected c) = []"
  "ex_heap (ex_connected c) = (\<lambda>_. None)"
  by (simp_all add: ex_connected_def tidy_def)

subsection \<open>Properties\<close>

text \<open>
  C39. The first example, whatever hiredis answers. It never uses or frees a reply or the connection after it was
  freed; the only way it can fail is printing the null text of a reply, where the C library does not take one. A
  run that ends returns 0 or -1, leaves no reply object alive, and has issued a prefix of its three commands in
  order, all of them when it returns 0. The connection is freed on that path only: every early return after a
  context was allocated leaves it behind.
\<close>

theorem redis_example_leaks_context:
  "case test_main h of
     Inl e \<Rightarrow> e = NullDeref \<and> hx_print_null h = None \<and>
       (\<exists>ds d es r. map snd test_script = ds @ d # es \<and> hx_command h ds d = Some r \<and> er_str r = None)
   | Inr (n, x) \<Rightarrow> n \<in> {0, - 1} \<and> (\<forall>p. ex_heap x p = None) \<and>
       (\<exists>es. map snd test_script = ex_cmds x @ es \<and> (n = 0 \<longrightarrow> es = [])) \<and>
       ex_context_alive x = (n \<noteq> 0 \<and> hx_connect h ''127.0.0.1'' 6379 \<noteq> None)"
proof (cases "hx_connect h ''127.0.0.1'' 6379")
  case None
  then show ?thesis by (simp add: test_main_def ex_print_def Let_def)
next
  case (Some ctx)
  let ?x = "ex_connected (Some ctx)"
  show ?thesis
  proof (cases "xc_err ctx = 0")
    case False
    then show ?thesis using Some by (simp add: test_main_def ex_print_def Let_def)
  next
    case True
    show ?thesis
    proof (cases "test_commands h test_script ?x")
      case (Inl e)
      then show ?thesis using Some True test_commands_fault[OF Inl] by (simp add: test_main_def)
    next
      case (Inr r)
      then obtain rtn x where r: "test_commands h test_script ?x = Inr (rtn, x)" by (cases r) auto
      obtain ds es where d: "test_script = ds @ es" "issues (map snd ds) ?x x"
          "if es = [] then rtn \<in> {None, Some (- 1)} else rtn = Some (- 1)"
        using test_commands_effect[OF r] by auto
      have x: "ex_cmds x = map snd ds" "ex_heap x = (\<lambda>_. None)" "ex_context_alive x"
        using d(2) by (simp_all add: issues_def)
      have script: "map snd test_script = ex_cmds x @ map snd es" unfolding x(1) using d(1) by (metis map_append)
      have rtn: "rtn = None \<and> map snd es = [] \<or> rtn = Some (- 1)" using d(3) by (auto split: if_splits)
      have main: "test_main h = (case rtn of Some n \<Rightarrow> Inr (n, x) | None \<Rightarrow> Inr (0, x\<lparr>ex_context_alive := False\<rparr>))"
        using Some True r x(3) by (cases rtn) (simp_all add: test_main_def redisFree_def)
      show ?thesis
        unfolding main using rtn script x(2,3) Some by (elim disjE conjE) auto
    qed
  qed
qed

text \<open>
  The second example, whatever hiredis answers: a run that ends leaves no reply and no connection alive,
  and one that returns 0 has issued the whole script in order; but a null reply to the very first command, as after a
  lost connection, is dereferenced.
\<close>

theorem redis_example2_script:
  "(case test2_main h argv of
      Inl e \<Rightarrow> True
    | Inr (n, x) \<Rightarrow> (\<forall>p. ex_heap x p = None) \<and> \<not> ex_context_alive x \<and> n \<in> {0, 1} \<and>
        ex_cmds x = (if n = 0 then test2_script else [])) \<and>
   (hx_connect_timeout h ''127.0.0.1'' 6379 = Some ctx \<and> xc_err ctx = 0 \<and> hx_command h [] [''PING''] = None \<longrightarrow>
      test2_main h [] = Inl NullDeref)"
proof -
  have body: "(\<forall>p. ex_heap y p = None) \<and> ex_cmds y = test2_script"
    if "test2_body h (ex_connected c) = Inr y \<or> test2_body h (ex_print s (ex_connected c)) = Inr y" for y c s
  proof -
    have "tidy (ex_print s (ex_connected c))" by (simp add: ex_connected_def tidy_def ex_print_def)
    then have "issues test2_script (ex_connected c) y \<or> issues test2_script (ex_print s (ex_connected c)) y"
      using test2_body_issues that connected_fields(1) unfolding issuer_def by blast
    then show ?thesis by (auto simp: issues_def ex_print_def)
  qed
  have "(\<forall>p. ex_heap x p = None) \<and> \<not> ex_context_alive x \<and> n \<in> {0, 1} \<and> ex_cmds x = (if n = 0 then test2_script else [])"
    if run: "test2_main h argv = Inr (n, x)" for n x
  proof -
    obtain port c y where y: "y = ex_connected c \<or> (\<exists>s. y = ex_print s (ex_connected c))"
      and main: "(case c of None \<Rightarrow> Inr (1, ex_print ''Connection error: can't allocate redis context'' y)
         | Some ctx \<Rightarrow> if xc_err ctx \<noteq> 0
             then bind_res (redisFree (ex_print (''Connection error: '' @ xc_errstr ctx) y)) (\<lambda>x1. Inr (1, x1))
             else bind_res (test2_body h y) (\<lambda>x1. bind_res (redisFree x1) (\<lambda>x2. Inr (0, x2)))) = Inr (n, x)"
      using run unfolding test2_main_def Let_def by (auto simp: bind_res_eq_Inr split: if_splits)
    show ?thesis
    proof (cases "\<exists>ctx. c = Some ctx \<and> xc_err ctx = 0")
      case True
      then obtain x1 where "test2_body h y = Inr x1" "n = 0" "redisFree x1 = Inr x"
        using main by (auto simp: bind_res_eq_Inr)
      moreover have "(\<forall>p. ex_heap x1 p = None) \<and> ex_cmds x1 = test2_script" using body calculation(1) y by blast
      ultimately show ?thesis by (auto simp: redisFree_def split: if_splits)
    next
      case False
      then show ?thesis
        using main y by (auto simp: bind_res_eq_Inr redisFree_def ex_print_def split: option.splits if_splits)
    qed
  qed
  moreover have "test2_main h [] = Inl NullDeref"
    if "hx_connect_timeout h ''127.0.0.1'' 6379 = Some ctx" "xc_err ctx = 0" "hx_command h [] [''PING''] = None"
    using that by (simp add: test2_main_def test2_body_def test2_command_def ex_command_def ex_deref_def)
  ultimately show ?thesis by (auto split: sum.splits)
qed

subsection \<open>The properties on a server that refuses, one without the key, and one that is gone\<close>

definition sample_hx :: "ex_reply option \<Rightarrow> ex_hiredis" where
  "sample_hx reply = \<lparr>hx_connect = (\<lambda>_ _. Some \<lparr>xc_err = 0, xc_errstr = []\<rparr>),
     hx_connect_timeout = (\<lambda>_ _. Some \<lparr>xc_err = 0, xc_errstr = []\<rparr>), hx_connect_unix = (\<lambda>_. None),
     hx_command = (\<lambda>_ _. reply), hx_errstr = (\<lambda>_. []), hx_free_null = True, hx_print_null = None\<rparr>"

definition refusal :: ex_reply where
  "refusal = \<lparr>er_type = REDIS_REPLY_ERROR, er_str = Some ''NOAUTH'', er_integer = 0, er_elements = []\<rparr>"

theorem redis_example_leaks_context_witness:
  "\<exists>x. test_main (sample_hx (Some refusal)) = Inr (- 1, x) \<and> (\<forall>p. ex_heap x p = None) \<and> ex_context_alive x"
proof -
  have "\<exists>x. test_main (sample_hx (Some refusal)) = Inr (- 1, x)"
    by (simp add: test_main_def sample_hx_def test_script_def test_command_def ex_command_def refusal_def
        ex_connected_def ex_deref_def ex_print_def ex_print_str_def freeReplyObject_def Let_def)
  moreover have "hx_connect (sample_hx (Some refusal)) ''127.0.0.1'' 6379 \<noteq> None" by (simp add: sample_hx_def)
  ultimately show ?thesis using redis_example_leaks_context[of "sample_hx (Some refusal)"] by auto
qed

theorem redis_example2_script_witness: "test2_main (sample_hx None) [] = Inl NullDeref"
  using redis_example2_script[of "sample_hx None" "[]" "\<lparr>xc_err = 0, xc_errstr = []\<rparr>"] by (simp add: sample_hx_def)

end
