(* ===== verification/Spec2Isabelle.thy ===== *)
theory Spec2Isabelle
  imports Main_Programs Chat_Group Com_Base Local_Sessions Party_Client Party_Stack Rooms
    World_Server Redis_Examples
begin

text \<open>
  torinet is a C++11 network library on Boost.Asio (directories \<open>Src\<close> and \<open>include\<close>) with a chat server
  (\<open>chat_server\<close>), a chat client (\<open>chat_client\<close>), and an older party server and client (\<open>server\<close>,
  \<open>client\<close>) that are outside the current build. This development models these programs and proves
  what makes them correct, and where they are not, what they do instead.

  How the parts interact. A \<open>TcpServer\<close> takes an identifier for every accepted connection, makes a
  \<open>TcpSession\<close> and stores it in its registry. A session reads an eight-byte header and a body in turn,
  hands each message to its message handler, queues outgoing messages and writes one at a time; on an
  error of a body read or a write it calls its closed handler, through which the server takes the
  session out of the registry. \<open>ChatServer\<close> owns a server and a Redis connection: a text message is
  queued on all other registered sessions and credited to its sender in Redis. The client process
  owns any number of clients, each with one session, and a console whose commands send messages from
  every client. Events of one session are handled one after the other, so the programs are step
  relations: every completion of an outstanding operation is one step, in any order the operations
  outstanding allow. Threads and locks are not modelled beyond that.

  Theories, in the order they build on each other:

  \<^item> \<open>Torinet_Prelude\<close>: failures of C++ operations as values (\<open>fault\<close>, \<open>'a res\<close>, \<open>bind_res\<close>, \<open>fold_res\<close>),
    byte images of integers, C strings (\<open>strlen\<close>, \<open>strcpy\<close>), \<open>std::to_string\<close>, and the lemmas on them; the locale
    \<open>forward_simulation\<close> lifts a simulation of single steps to runs.
  \<^item> \<open>Std_Map\<close>: \<open>std::map\<close> as a sorted association list; the locale \<open>ordered_registry\<close> states its laws and the
    interpretation on the lists discharges them.
  \<^item> \<open>Msg_Proto\<close>: \<open>include/Msg.h\<close>, \<open>include/MsgId.h\<close>. Header fields at their widths, \<open>Msg::encodeMsg\<close>,
    \<open>checkHeader\<close>, \<open>setBodyLength\<close>; memory images and what a deposit of received bytes does.
  \<^item> \<open>Io_Pool\<close>: \<open>Src/IoServicePool.cpp\<close>, \<open>Src/Config.h\<close>. Round robin and thread counts.
  \<^item> \<open>Tcp_Session\<close>: \<open>Src/TcpSession.cpp\<close>. Outstanding reads and writes are fields of the session, which
    \<open>complete_read\<close> and \<open>complete_write\<close> consume. The locale \<open>session_host\<close> states what a session needs of
    its owner; server and client interpret it. The send queue is an append-only byte stream.
  \<^item> \<open>Tcp_Server\<close>: \<open>Src/TcpServer.cpp\<close>. Identifier pool, registry, accept loop, close and stop; the locale
    \<open>server_app\<close> states what the server needs of the application built on it.
  \<^item> \<open>Redis_Client\<close>, \<open>Chat_Server\<close>: \<open>chat_server/Redis.cpp\<close> over a hiredis parameter, and
    \<open>chat_server/ChatServer.cpp\<close> with the invariant of its reachable states.
  \<^item> \<open>Chat_Client\<close>: \<open>chat_client/Client.cpp\<close>, \<open>Cli.cpp\<close> and the loops of \<open>main.cpp\<close>.
  \<^item> \<open>Chat_Order\<close>: conversations on the chat server, any interleaving of texts with completed writes, against
    the specification of a log that every session hears in one order.
  \<^item> \<open>Chat_Group\<close>: the chat server against the specification \<open>group\<close> of members that join, speak, hang up and
    leave, one completion of an operation per step; the interpretation \<open>group_sim\<close> is the refinement. \<open>orderly\<close>
    says what the specification asks of the network and of the moment; what happens otherwise is the subject of other properties.
  \<^item> \<open>Main_Programs\<close>: \<open>main\<close> of the two chat programs, with the parsed options as a parameter; the client's ends with
    the loop of \<open>join\<close> calls (\<open>join_threads\<close> of \<open>Chat_Client\<close>, whose laws the locale \<open>worker_threads\<close> states), during which
    the completions of its sessions still happen.
  \<^item> \<open>Com_Util\<close>, \<open>Com_Base\<close>: the integer helpers, range checks, keys, orders, hash functors and texts of
    \<open>include/com.h\<close>, with the keys as instances of \<open>linorder\<close>; its logging, clock, enumerations and constructors, and
    \<open>Src/Singleton.h\<close>.
  \<^item> \<open>Local_Sessions\<close>: \<open>Src/UdpSession.cpp\<close>, \<open>Src/IpcSession.cpp\<close>, \<open>Src/IpcServer.h\<close> over a session handler.
  \<^item> \<open>Timers\<close>, \<open>Legacy_Session\<close>: Boost's timers, with the locale \<open>one_shot_timer\<close>, and the older TCP session and
    server, the parts of \<open>Src/TcpSession.cpp\<close>, \<open>Src/TcpServer.h\<close> and \<open>Src/TcpServer.cpp\<close> under \<open>#if 0\<close>.
  \<^item> \<open>Party_Handler\<close>: \<open>server/HandleMsg.cpp\<close>, with its characters and rooms, as a step relation.
  \<^item> \<open>Party_Stack\<close>: that handler on the older session and server, one state for both, with a simulation of
    byte-level events by calls of the handler (\<open>stack_inv\<close>, \<open>handler_view\<close>).
  \<^item> \<open>Rooms\<close>: \<open>Room\<close> and \<open>Character\<close> of both servers, and the room operations in the comment of
    \<open>server/Room.cpp\<close>, refined to the list of members. The locale \<open>room_contract\<close> states what the handler relies
    on; the older rooms, built by the initialisers of \<open>server/Room.h\<close>, satisfy it. A room they make counts a slot that
    is null, which is what a message to a party runs into.
  \<^item> \<open>World_Server\<close>: \<open>server/WorldServer.cpp\<close> and \<open>server/main.cpp\<close>.
  \<^item> \<open>Party_Client\<close>: \<open>client/Client.h\<close>, \<open>Client.cpp\<close>, \<open>Cli.cpp\<close>, \<open>main.cpp\<close>, over the calls it makes
    on its sessions. \<open>perform_call\<close> carries these calls out on the older session; the program ends with the same loop
    of \<open>join\<close> calls, which the monitor timer keeps from ending.
  \<^item> \<open>Redis_Examples\<close>: \<open>test_hiredis/test.cpp\<close> and \<open>test2.cpp\<close>, on a heap of live replies in which a use or a second
    free of a dead object is a failure.
  \<^item> this theory: a text from one client's console through the server to the other clients.

  What the lemmas show. Encoding, transfer and decoding of messages are inverse to each other for
  lengths from 0 to 1024, and the cases outside are characterised. Invariants: \<open>sess_ok\<close> (one read and
  one write outstanding, the queue's front in flight), the server's registry and identifier pool,
  \<open>group_inv\<close>, \<open>party_inv\<close>, \<open>pace_inv\<close>; each is preserved by every step and lifted to reachable states by rule induction.
  Refinement: sends and completions implement an append-only stream, so that what one side sends is
  what the other side's handler sees; the chat server is a totally ordered broadcast to the members of a
  group, also while members come and go; the party server's
  sessions turn bytes into one call of its handler per message or failure. Liveness: accepting and
  draining the queue make progress. Error behaviour: the remaining properties state exactly when an operation goes wrong.

  Bounds and fuel. Loops that may not end have fuel and return \<open>None\<close> when it runs out:
  \<open>readLine_loop\<close> takes one unit for each line, \<open>create_clients\<close> one for each client and one to leave the
  loop. \<open>client_main_runs\<close> needs more fuel than there are clients and lines before \<open>quit\<close>, and more fuel
  never changes the result of a loop (\<open>readLine_more_fuel\<close>, \<open>create_clients_more_fuel\<close>). That a loop does not end is
  stated as \<open>None\<close> for every fuel. \<open>join_threads\<close> takes the completions that still happen as a list, and \<open>None\<close> is a
  \<open>join\<close> that has not returned after them. All other definitions are total.

  Machine: x86-64, little-endian, \<open>int\<close> of 32 and \<open>long\<close>, \<open>size_t\<close> of 64 bits. Undefined behaviour is a
  failure value after which nothing is claimed.

  Parameters: Boost's address parsing and binding (\<open>os_env\<close>), \<open>boost::split\<close>, Boost addresses and
  \<open>hash_combine\<close>, hiredis, program options, \<open>fork\<close>, the content of uninitialised objects, and for the
  party programs the message identifiers and body structures, which the repository does not contain; readers of a body
  are total functions of its bytes, so a read past an unterminated field of such a structure is not seen. For the
  hiredis examples, what \<open>printf\<close> does with a null text, and whether \<open>freeReplyObject\<close> takes a null pointer.

  Not modelled: \<open>chat_server/HandleMsg.cpp\<close>, a copy of \<open>server/HandleMsg.cpp\<close>; \<open>include/ChatMsg.h\<close> and
  \<open>ChatMsgId.h\<close>, a variant of \<open>Msg.h\<close> that no file includes and that does not compile, as it names types and a
  field it does not declare; the include lists; of the older session, \<open>start\<close>, which is a parameter, the arming of
  the accept and the completion of a write, none of which is in the repository; the blocking of \<open>run()\<close> in the
  server; completions in the client programs while the console is being read, which the properties of the console
  and of the sessions treat apart. Of log lines only the mechanism is modelled, not which operation logs what.
\<close>

subsection \<open>From the client's console to the other clients\<close>

text \<open>
  A whole text message arriving at a session of the chat server, whatever the body buffer held
  before.
\<close>

lemma text_arrives:
  assumes inv: "srv_inv w"
    and s: "heap w a = Some s" "s_reading s = [RdHeader n]"
      "s_messageHandler s = Some message_name"
    and oth: "\<forall>i b. getSession i w = Some b \<longrightarrow> b \<noteq> a \<longrightarrow> (\<exists>t. heap w b = Some t \<and> tx_inv t)"
    and tok: "0 \<notin> set txt" "length txt < 256" "wf_msg msg0"
    and m: "m = text_msg NF_MESSAGE txt 256 msg0"
  shows "\<exists>w'. bind_res (complete_read (server_env (chat_env hi)) a EcOk (header_bytes (msg_hdr m)) w)
      (complete_read (server_env (chat_env hi)) a EcOk (take 256 (msg_body m))) = Inr w' \<and>
    (\<forall>b t. b \<noteq> a \<longrightarrow> heap w b = Some t \<longrightarrow> (\<exists>t'. heap w' b = Some t' \<and> stream_of t' = stream_of t @
       (if \<exists>i. getSession i w = Some b then msg_wire m else []))) \<and>
    map_option stream_of (heap w' a) = Some (stream_of s) \<and>
    map_option s_reading (heap w' a) = Some [RdHeader 8] \<and>
    chat_redis w' = snd (Redis_send hi (zincrby_cmd (int (length txt)) (s_id s)) (chat_redis w))"
proof -
  have v: "valid_msg m" "checkHeader m" "msg_bodyLength m = 256" "take 256 (msg_body m) = text_body txt 256"
    using text_msg_valid[of "txt" 256 msg0 NF_MESSAGE] tok by (simp_all add: m)
  have "strlen (text_body txt 256) = Inr (length txt)" using strlen_text_body[OF tok(1,2), of "[]"] by simp
  then have ct: "chat_text m (length txt)" using v by (simp add: chat_text_def) (simp add: m text_msg_def)
  let ?w1 = "put_session a (received m s) w"
  from text_runs[OF inv s ct oth, of hi] obtain w2 where
    run: "talk_step hi (Says a m) w = Inr (put_session a ((received m s)\<lparr>s_reading := [RdHeader 8]\<rparr>) w2)"
    and g: "streams_grow (snd ` set (srv_sessions w) - {a}) (msg_wire m) ?w1 w2"
    and rd: "chat_redis w2 = snd (Redis_send hi (zincrby_cmd (int (length txt)) (s_id s)) (chat_redis w))"
    by blast
  let ?w3 = "put_session a ((received m s)\<lparr>s_reading := [RdHeader 8]\<rparr>) w2"
  have "\<exists>t'. heap ?w3 b = Some t' \<and> stream_of t' = stream_of t @
       (if \<exists>i. getSession i w = Some b then msg_wire m else [])" if "b \<noteq> a" "heap w b = Some t" for b t
    using g[unfolded streams_grow_def, rule_format, of b] that registered_sessions[OF inv, of b]
    by (cases "registered w b") (auto simp: registered_def)
  moreover have "stream_of ((received m s)\<lparr>s_reading := [RdHeader 8]\<rparr>) = stream_of s"
    by (simp add: received_def stream_of_def)
  ultimately show ?thesis
    using run rd v(3) by (intro exI[of _ ?w3]) (simp add: talk_step_def put_session_def)
qed

subsection \<open>Properties across the components\<close>

text \<open>
  C1. End to end: when a client whose session is \<open>c\<close> runs \<open>send\<close> with a text of less than 256
  bytes, the bytes \<open>bs\<close> that its stream gains, delivered as header and body to the server's
  session \<open>a\<close> for that client, have these effects and no others on the server's streams: every
  other registered session's stream gains exactly \<open>bs\<close>; Redis receives one command that adds the
  length of the text to the score of the sender's identifier; and the session waits for the next
  header. The stale contents of the client's uninitialised message object never leave it, and
  those of the server's message object have no influence.
\<close>

theorem chat_end_to_end:
  assumes "cli_inv cw" and "g_clientVec cw = [c]" and "heap cw (cl_session c) = Some t" and "tx_inv t"
    and "wf_msg msg0" and "length text < 256" and "0 \<notin> set (map of_char text :: bytes)"
    and "srv_inv w" and "heap w a = Some s" and "s_reading s = [RdHeader n]"
    and "s_messageHandler s = Some message_name"
    and "\<forall>i b. getSession i w = Some b \<longrightarrow> b \<noteq> a \<longrightarrow> (\<exists>u. heap w b = Some u \<and> tx_inv u)"
  shows "\<exists>cw' t' bs w'. command_handle CmdSendMessge [cmd, text] msg0 cw = Inr (True, cw') \<and>
    heap cw' (cl_session c) = Some t' \<and> stream_of t' = stream_of t @ bs \<and> length bs = 264 \<and>
    bind_res (complete_read (server_env (chat_env hi)) a EcOk (take 8 bs) w)
      (complete_read (server_env (chat_env hi)) a EcOk (drop 8 bs)) = Inr w' \<and>
    (\<forall>b u. b \<noteq> a \<longrightarrow> heap w b = Some u \<longrightarrow> (\<exists>u'. heap w' b = Some u' \<and>
       stream_of u' = stream_of u @ (if \<exists>i. getSession i w = Some b then bs else []))) \<and>
    map_option stream_of (heap w' a) = Some (stream_of s) \<and>
    map_option s_reading (heap w' a) = Some [RdHeader 8] \<and>
    redis_log (chat_redis w') = redis_log (chat_redis w) @
      (if rd_context (chat_redis w) = None then []
       else [zincrby_cmd (int (length text)) (s_id s)])"
proof -
  let ?txt = "map of_char text :: bytes"
  let ?m = "text_msg NF_MESSAGE ?txt 256 msg0"
  let ?bs = "msg_wire ?m"
  have v: "valid_msg ?m" "msg_bodyLength ?m = 256" "take 256 (msg_body ?m) = text_body ?txt 256"
    using text_msg_valid[of ?txt 256 msg0 NF_MESSAGE] assms(5,6) by simp_all
  have bs: "take 8 ?bs = header_bytes (msg_hdr ?m)" "drop 8 ?bs = take 256 (msg_body ?m)"
    using v(2) by (simp_all add: msg_wire_def)
  have len: "length ?bs = 264"
    using length_msg_wire[OF v(1)] v(2) by (simp add: msg_length_def msg_bodyLength_def)
  have "\<forall>d \<in> set [c]. \<exists>t. heap cw (cl_session d) = Some t \<and> tx_inv t" using assms(3,4) by simp
  from clients_fold[OF _ assms(1) v(1) _ this, of "send_one [cmd, text] msg0"]
    send_one_sends[OF assms(7,6,5), of cmd "[]"]
  obtain cw' where cw': "fold_res (send_one [cmd, text] msg0) [c] cw = Inr cw'"
    "streams_grow (cl_session ` set [c]) ?bs cw cw'" by auto
  then obtain t' where t': "heap cw' (cl_session c) = Some t'" "stream_of t' = stream_of t @ ?bs"
    using cw'(2)[unfolded streams_grow_def, rule_format, of "cl_session c"] assms(3) by auto
  obtain w' where w': "bind_res (complete_read (server_env (chat_env hi)) a EcOk (header_bytes (msg_hdr ?m)) w)
      (complete_read (server_env (chat_env hi)) a EcOk (take 256 (msg_body ?m))) = Inr w'"
    and eff: "\<forall>b u. b \<noteq> a \<longrightarrow> heap w b = Some u \<longrightarrow> (\<exists>u'. heap w' b = Some u' \<and>
      stream_of u' = stream_of u @ (if \<exists>i. getSession i w = Some b then ?bs else []))"
      "map_option stream_of (heap w' a) = Some (stream_of s)"
      "map_option s_reading (heap w' a) = Some [RdHeader 8]"
      "chat_redis w' = snd (Redis_send hi (zincrby_cmd (int (length ?txt)) (s_id s)) (chat_redis w))"
    using text_arrives[OF assms(8-12,7) _ assms(5) refl, of hi] assms(6) by auto
  have "command_handle CmdSendMessge [cmd, text] msg0 cw = Inr (True, cw')"
    using cw'(1) assms(2) by simp
  moreover have "redis_log (chat_redis w') = redis_log (chat_redis w) @
      (if rd_context (chat_redis w) = None then [] else [zincrby_cmd (int (length text)) (s_id s)])"
    using eff(4) by (simp add: Redis_send_log)
  moreover have "bind_res (complete_read (server_env (chat_env hi)) a EcOk (take 8 ?bs) w)
      (complete_read (server_env (chat_env hi)) a EcOk (drop 8 ?bs)) = Inr w'"
    unfolding bs using w' .
  ultimately show ?thesis using t' len eff(1-3) by blast
qed

definition demo_client :: cli_world where
  "demo_client = cli_world_init\<lparr>heap := [0 \<mapsto> idle_session],
     g_clientVec := [\<lparr>cl_session = 0, cl_stopped = False\<rparr>], cli_alloc := 1\<rparr>"

definition demo_waiting :: chat_world where
  "demo_waiting = (demo_pair zero_msg)\<lparr>heap :=
     [0 \<mapsto> (demo_session 1 zero_msg)\<lparr>s_reading := [RdHeader 8]\<rparr>, 1 \<mapsto> demo_session 2 zero_msg]\<rparr>"

theorem chat_end_to_end_witness:
  "\<exists>bs w' u'. length bs = 264 \<and>
     bind_res (complete_read (server_env (chat_env demo_hi)) 0 EcOk (take 8 bs) demo_waiting)
       (complete_read (server_env (chat_env demo_hi)) 0 EcOk (drop 8 bs)) = Inr w' \<and>
     heap w' 1 = Some u' \<and> stream_of u' = bs \<and> redis_log (chat_redis w') = [zincrby_cmd 2 1]"
proof -
  let ?s = "(demo_session 1 zero_msg)\<lparr>s_reading := [RdHeader 8]\<rparr>"
  have wf: "wf_msg zero_msg" by (simp add: wf_msg_def zero_msg_def)
  have ci: "cli_inv demo_client"
    by (simp add: cli_inv_def demo_client_def sess_ok_def write_ok_def wf idle_session_def
        TcpSession_client_def)
  have cv: "g_clientVec demo_client = [\<lparr>cl_session = 0, cl_stopped = False\<rparr>]"
    and ch: "heap demo_client (cl_session \<lparr>cl_session = 0, cl_stopped = False\<rparr>) = Some idle_session"
    by (simp_all add: demo_client_def)
  have ct: "length ''hi'' < 256" "0 \<notin> set (map of_char ''hi'' :: bytes)" by simp_all
  have same: "demo_waiting = put_session 0 ?s (demo_pair zero_msg)"
    by (simp add: demo_waiting_def put_session_def demo_pair_def fun_upd_twist)
  have wi: "srv_inv demo_waiting"
    unfolding same
    by (rule srv_inv_put[OF demo_pair_inv[OF wf], where s = "demo_session 1 zero_msg"])
      (simp_all add: demo_pair_def sess_ok_def write_ok_def wf same_identity_def)
  have wh: "heap demo_waiting 0 = Some ?s" by (simp add: demo_waiting_def)
  have wo: "\<forall>i b. getSession i demo_waiting = Some b \<longrightarrow> b \<noteq> 0 \<longrightarrow>
      (\<exists>u. heap demo_waiting b = Some u \<and> tx_inv u)"
    by (auto simp: demo_waiting_def demo_pair_def getSession_def tx_inv_def split: if_splits)
  have one: "\<exists>i. getSession i demo_waiting = Some 1"
    by (rule exI[of _ 2]) (simp add: getSession_def demo_waiting_def demo_pair_def)
  have h2: "heap demo_waiting 1 = Some (demo_session 2 zero_msg)" by (simp add: demo_waiting_def)
  have st: "stream_of (demo_session 2 zero_msg) = []" by (simp add: stream_of_def)
  have lg: "redis_log (chat_redis demo_waiting) = []" "rd_context (chat_redis demo_waiting) \<noteq> None"
    by (simp_all add: demo_waiting_def demo_pair_def demo_chat_def redis_log_def)
  obtain bs w' where len: "length bs = 264"
    and run: "bind_res (complete_read (server_env (chat_env demo_hi)) 0 EcOk (take 8 bs) demo_waiting)
       (complete_read (server_env (chat_env demo_hi)) 0 EcOk (drop 8 bs)) = Inr w'"
    and all: "\<forall>b u. b \<noteq> 0 \<longrightarrow> heap demo_waiting b = Some u \<longrightarrow> (\<exists>u'. heap w' b = Some u' \<and>
       stream_of u' = stream_of u @ (if \<exists>i. getSession i demo_waiting = Some b then bs else []))"
    and log: "redis_log (chat_redis w') = [zincrby_cmd 2 1]"
    using chat_end_to_end[OF ci cv ch tx_inv_idle wf ct wi wh _ _ wo, of 8 "''send''" demo_hi] lg
    by (auto simp: demo_session_def)
  from all h2 one st have "\<exists>u'. heap w' 1 = Some u' \<and> stream_of u' = bs" by force
  with len run log show ?thesis by blast
qed

end
